(* ===== verification/Wd_Prelude.thy ===== *)
theory Wd_Prelude
  imports Main "HOL-Library.Word" "HOL-Library.Sublist"
begin

text \<open>
  Shared vocabulary of the development: the machine types of the Go sources, byte slices,
  big-endian packing, Go's \<open>copy\<close> and slice expressions, and the list and map lemmas that
  several components use. Nothing here is specific to one component.
\<close>

unbundle bit_operations_syntax

section \<open>Types\<close>

type_synonym byte = "8 word"
type_synonym bytes = "byte list"
type_synonym u16 = "16 word"
type_synonym u32 = "32 word"
type_synonym u64 = "64 word"
type_synonym i64 = "64 word"

text \<open>
  A Go \<open>int64\<close> is a 64-bit word read with \<open>sint\<close>. A Go \<open>string\<close> is a sequence of bytes,
  which is what a \<open>char list\<close> is; the two conversions are Go's \<open>[]byte(s)\<close> and
  \<open>string(b)\<close>.
\<close>

definition bytes_of_string :: "string \<Rightarrow> bytes" where
  "bytes_of_string s = map (\<lambda>c. word_of_nat (of_char c)) s"

definition string_of_bytes :: "bytes \<Rightarrow> string" where
  "string_of_bytes bs = map (\<lambda>b. char_of (unat b)) bs"

text \<open>The errors an \<open>io.Reader\<close> can return.\<close>

datatype io_err = EOF | UnexpectedEOF | IOFault string

named_theorems slice_simps \<open>lengths and contents of byte slices built by copying\<close>
named_theorems pack_simps \<open>big-endian packing and unpacking\<close>

lemma string_of_bytes_of_string [simp]: "string_of_bytes (bytes_of_string s) = s"
proof -
  have "char_of (unat (word_of_nat (of_char c) :: byte)) = c" for c :: char
    by (simp add: unat_of_nat)
  then show ?thesis
    by (simp add: string_of_bytes_def bytes_of_string_def comp_def)
qed

lemma bytes_of_string_of_bytes [simp]: "bytes_of_string (string_of_bytes bs) = bs"
proof -
  have "word_of_nat (of_char (char_of (unat b) :: char)) = b" for b :: byte
  proof -
    have "unat b < 2 ^ LENGTH(8)" by (rule unsigned_less)
    then show ?thesis by (simp add: take_bit_nat_eq_self)
  qed
  then show ?thesis
    by (simp add: string_of_bytes_def bytes_of_string_def comp_def)
qed

lemma length_bytes_of_string [simp]: "length (bytes_of_string s) = length s"
  by (simp add: bytes_of_string_def)

lemma length_string_of_bytes [simp]: "length (string_of_bytes bs) = length bs"
  by (simp add: string_of_bytes_def)

section \<open>Slices and copy\<close>

text \<open>\<open>s[i:j]\<close> for \<open>i \<le> j \<le> len(s)\<close>; the callers check the bounds as the code does.\<close>

definition slice :: "'a list \<Rightarrow> nat \<Rightarrow> nat \<Rightarrow> 'a list" where
  "slice xs i j = take (j - i) (drop i xs)"

text \<open>\<open>copy(dst[off:], src)\<close>: writes \<open>min(len(dst)-off, len(src))\<close> elements.\<close>

definition go_copy :: "'a list \<Rightarrow> nat \<Rightarrow> 'a list \<Rightarrow> 'a list" where
  "go_copy dst off src =
     take off dst @ take (length dst - off) src @ drop (off + length src) dst"

lemma length_go_copy [simp, slice_simps]:
  "off \<le> length dst \<Longrightarrow> length (go_copy dst off src) = length dst"
  by (simp add: go_copy_def min_def)

lemma go_copy_exact [slice_simps]:
  "length src = n \<Longrightarrow> go_copy (replicate n z) 0 src = src"
  by (simp add: go_copy_def)

lemma go_copy_over [slice_simps]:
  "length src = length mid \<Longrightarrow> off = length pre \<Longrightarrow>
     go_copy (pre @ mid @ post) off src = pre @ src @ post"
  by (simp add: go_copy_def)

lemma slice_append_exact [slice_simps]:
  "i = length pre \<Longrightarrow> j = length pre + length mid \<Longrightarrow> slice (pre @ mid @ post) i j = mid"
  by (simp add: slice_def)

section \<open>The last \<open>n\<close> elements of a list\<close>

definition last_n :: "nat \<Rightarrow> 'a list \<Rightarrow> 'a list" where
  "last_n n xs = drop (length xs - n) xs"

lemma length_last_n [simp]: "length (last_n n xs) = min n (length xs)"
  by (simp add: last_n_def min_def)

lemma last_n_all: "length xs \<le> n \<Longrightarrow> last_n n xs = xs"
  by (simp add: last_n_def)

lemma last_n_Nil [simp]: "last_n n [] = []"
  by (simp add: last_n_def)

lemma last_n_short_suffix: "n \<le> length ys \<Longrightarrow> last_n n (xs @ ys) = last_n n ys"
  by (simp add: last_n_def)

lemma last_n_last_n_append: "last_n n (last_n n xs @ ys) = last_n n (xs @ ys)"
proof (cases "length xs \<le> n")
  case True
  then show ?thesis by (simp add: last_n_all)
next
  case False
  then have "length (last_n n xs @ ys) - n = length ys" by simp
  moreover have "length (xs @ ys) - n = (length xs - n) + length ys" using False by simp
  ultimately show ?thesis
    using False by (simp add: last_n_def drop_append drop_drop add.commute)
qed

lemma last_n_suffix: "suffix (last_n n xs) xs"
  by (simp add: last_n_def suffix_drop)

lemma last_n_snoc_full:
  "length xs = n \<Longrightarrow> 0 < n \<Longrightarrow> last_n n (xs @ [x]) = tl xs @ [x]"
  by (cases xs) (simp_all add: last_n_def)

section \<open>Big-endian packing\<close>

primrec be_bytes :: "nat \<Rightarrow> 'a::len word \<Rightarrow> bytes" where
  "be_bytes 0 v = []"
| "be_bytes (Suc n) v = be_bytes n (drop_bit 8 v) @ [ucast v]"

definition be_join :: "bytes \<Rightarrow> 'a::len word" where
  "be_join bs = foldl (\<lambda>v b. push_bit 8 v OR ucast b) 0 bs"

lemma be_join_Nil [simp]: "be_join [] = 0"
  by (simp add: be_join_def)

lemma be_join_snoc: "be_join (bs @ [b]) = push_bit 8 (be_join bs) OR ucast b"
  by (simp add: be_join_def)

lemma length_be_bytes [simp, slice_simps]: "length (be_bytes n v) = n"
  by (induction n arbitrary: v) auto

lemma bit_join_snoc:
  "bit (push_bit 8 (v :: 'a::len word) OR ucast (b :: byte)) k \<longleftrightarrow>
     k < LENGTH('a) \<and> (if k < 8 then bit b k else bit v (k - 8))"
  by (cases "k < 8") (auto simp: bit_simps dest: bit_imp_le_length)

lemma be_join_be_bytes: "be_join (be_bytes n v) = take_bit (8 * n) v"
proof (induction n arbitrary: v)
  case (Suc n)
  show ?case
    by (rule bit_word_eqI) (auto simp: be_join_snoc Suc bit_join_snoc bit_simps)
qed simp

lemma be_join_bits: "bit (be_join bs :: 'a::len word) k \<Longrightarrow> k < 8 * length bs"
proof (induction bs arbitrary: k rule: rev_induct)
  case (snoc b bs)
  show ?case
    using snoc.prems snoc.IH[of "k - 8"]
    by (cases "k < 8") (auto simp: be_join_snoc bit_join_snoc)
qed simp

lemma be_bytes_be_join:
  "8 * length bs \<le> LENGTH('a) \<Longrightarrow> be_bytes (length bs) (be_join bs :: 'a::len word) = bs"
proof (induction bs rule: rev_induct)
  case (snoc b bs)
  let ?v = "be_join bs :: 'a word"
  have "drop_bit 8 (push_bit 8 ?v OR ucast b) = ?v"
  proof (rule bit_word_eqI)
    fix k assume "k < LENGTH('a)"
    show "bit (drop_bit 8 (push_bit 8 ?v OR ucast b)) k = bit ?v k"
      using snoc.prems be_join_bits[of bs k, where 'a = 'a]
      by (auto simp: bit_drop_bit_eq bit_join_snoc simp del: drop_bit_or)
  qed
  moreover have "ucast (push_bit 8 ?v OR ucast b) = b"
    using snoc.prems
    by (intro bit_word_eqI) (auto simp: bit_ucast_iff bit_join_snoc)
  ultimately show ?case using snoc by (simp add: be_join_snoc)
qed simp

lemma be_join_roundtrip [pack_simps]:
  "8 * n = LENGTH('a) \<Longrightarrow> be_join (be_bytes n v) = (v :: 'a::len word)"
  by (simp add: be_join_be_bytes)

lemma be_bytes_roundtrip [pack_simps]:
  "length bs = n \<Longrightarrow> 8 * n \<le> LENGTH('a) \<Longrightarrow> be_bytes n (be_join bs :: 'a::len word) = bs"
  using be_bytes_be_join by blast

text \<open>The shift-and-or expressions of the sources are \<open>be_join\<close>.\<close>

lemma be_join_2:
  "be_join [a, b] = push_bit 8 (ucast a) OR (ucast b :: 'a::len word)"
  by (simp add: be_join_def)

lemma be_join_4:
  "be_join [a, b, c, d] =
     push_bit 24 (ucast a) OR push_bit 16 (ucast b) OR push_bit 8 (ucast c)
       OR (ucast d :: 'a::len word)"
  by (simp add: be_join_def push_bit_or or.assoc)

lemma be_join_8:
  "be_join [a, b, c, d, e, f, g, h] =
     push_bit 56 (ucast a) OR push_bit 48 (ucast b) OR push_bit 40 (ucast c)
       OR push_bit 32 (ucast d) OR push_bit 24 (ucast e) OR push_bit 16 (ucast f)
       OR push_bit 8 (ucast g) OR (ucast h :: 'a::len word)"
  by (simp add: be_join_def push_bit_or or.assoc)

lemma be_bytes_2: "be_bytes 2 v = [ucast (drop_bit 8 v), ucast v]"
  by (simp add: numeral_eq_Suc)

lemma be_bytes_4:
  "be_bytes 4 v =
     [ucast (drop_bit 24 v), ucast (drop_bit 16 v), ucast (drop_bit 8 v), ucast v]"
  by (simp add: numeral_eq_Suc)

lemma be_bytes_8:
  "be_bytes 8 v =
     [ucast (drop_bit 56 v), ucast (drop_bit 48 v), ucast (drop_bit 40 v),
      ucast (drop_bit 32 v), ucast (drop_bit 24 v), ucast (drop_bit 16 v),
      ucast (drop_bit 8 v), ucast v]"
  by (simp add: numeral_eq_Suc)

text \<open>
  \<open>binary.BigEndian.PutUint16\<close>, \<open>PutUint32\<close> write \<open>byte(v>>8k)\<close> most significant
  first; \<open>Uint16\<close>, \<open>Uint32\<close> read them back.
\<close>

definition put_u16 :: "u16 \<Rightarrow> bytes" where
  "put_u16 v = [ucast (drop_bit 8 v), ucast v]"

definition put_u32 :: "u32 \<Rightarrow> bytes" where
  "put_u32 v =
     [ucast (drop_bit 24 v), ucast (drop_bit 16 v), ucast (drop_bit 8 v), ucast v]"

lemma put_u16_be [pack_simps]: "put_u16 v = be_bytes 2 v"
  by (simp only: put_u16_def be_bytes_2)

lemma put_u32_be [pack_simps]: "put_u32 v = be_bytes 4 v"
  by (simp only: put_u32_def be_bytes_4)

end
