(* ===== verification/Frame_Codec.thy ===== *)
theory Frame_Codec
  imports Wd_Prelude
begin

text \<open>
  The multiplexing envelope of the WebSocket protocol: \<open>internal/hub/frame.go\<close>
  (\<open>Frame\<close>, \<open>Encode\<close>, \<open>Decode\<close>) and \<open>decodeFromBytes\<close> of \<open>internal/hub/hub.go\<close>.
  A message is type(1), channel(2, big endian), length(4, big endian), payload.
\<close>

section \<open>Frames and constants\<close>

abbreviation FrameData :: byte where "FrameData \<equiv> 0x01"
abbreviation FramePTYResize :: byte where "FramePTYResize \<equiv> 0x02"
abbreviation FrameStats :: byte where "FrameStats \<equiv> 0x03"
abbreviation FrameFileList :: byte where "FrameFileList \<equiv> 0x04"
abbreviation FrameFileListResp :: byte where "FrameFileListResp \<equiv> 0x05"
abbreviation FrameFileUpload :: byte where "FrameFileUpload \<equiv> 0x06"
abbreviation FrameProgress :: byte where "FrameProgress \<equiv> 0x07"
abbreviation FrameFileDownloadReq :: byte where "FrameFileDownloadReq \<equiv> 0x08"
abbreviation FrameFileDownload :: byte where "FrameFileDownload \<equiv> 0x09"
abbreviation FrameOpenPTY :: byte where "FrameOpenPTY \<equiv> 0x0A"
abbreviation FrameClosePTY :: byte where "FrameClosePTY \<equiv> 0x0B"
abbreviation FrameSessionSync :: byte where "FrameSessionSync \<equiv> 0x0C"
abbreviation FramePing :: byte where "FramePing \<equiv> 0x0D"
abbreviation FramePong :: byte where "FramePong \<equiv> 0x0E"
abbreviation FrameOpenProxy :: byte where "FrameOpenProxy \<equiv> 0x0F"
abbreviation FrameCloseProxy :: byte where "FrameCloseProxy \<equiv> 0x10"
abbreviation FrameFileOp :: byte where "FrameFileOp \<equiv> 0x11"
abbreviation FrameDesktopPush :: byte where "FrameDesktopPush \<equiv> 0x12"
abbreviation FrameDesktopSave :: byte where "FrameDesktopSave \<equiv> 0x13"
abbreviation FramePortScan :: byte where "FramePortScan \<equiv> 0x14"
abbreviation FramePortScanResp :: byte where "FramePortScanResp \<equiv> 0x15"

definition maxPayloadSize :: nat where
  "maxPayloadSize = 32 * 1024 * 1024"

definition headerSize :: nat where
  "headerSize = 7"

record frame =
  f_type :: byte
  f_chan :: u16
  f_payload :: bytes

datatype codec_err =
    ReadHeader io_err          \<comment> \<open>read frame header: ...\<close>
  | ReadPayload io_err         \<comment> \<open>read frame payload: ...\<close>
  | TooLarge u32               \<comment> \<open>frame payload length exceeds maximum\<close>
  | TooShort nat               \<comment> \<open>frame too short\<close>
  | LenMismatch u32 nat        \<comment> \<open>payload length does not match data length\<close>

section \<open>Encode\<close>

definition encode :: "frame \<Rightarrow> bytes" where
  "encode f =
     (let buf0 = replicate (headerSize + length (f_payload f)) 0;
          buf1 = buf0[0 := f_type f];
          buf2 = go_copy buf1 1 (put_u16 (f_chan f));
          buf3 = go_copy buf2 3 (put_u32 (word_of_nat (length (f_payload f))))
      in go_copy buf3 7 (f_payload f))"

section \<open>Decode from a reader\<close>

text \<open>
  An \<open>io.Reader\<close> hands out its data in chunks of its own choosing (a call may return less
  than asked for) and then returns its final error.
\<close>

record reader =
  rd_chunks :: "bytes list"
  rd_err :: io_err

text \<open>The loop of \<open>io.ReadFull\<close>: calls \<open>Read\<close> until \<open>n\<close> bytes have arrived or it fails.\<close>

fun fill :: "nat \<Rightarrow> bytes list \<Rightarrow> bytes \<times> bytes list" where
  "fill n [] = ([], [])"
| "fill n (c # cs) =
     (if n = 0 then ([], c # cs)
      else if length c \<le> n then (case fill (n - length c) cs of (d, r) \<Rightarrow> (c @ d, r))
      else (take n c, drop n c # cs))"

definition read_full :: "nat \<Rightarrow> reader \<Rightarrow> io_err + bytes \<times> reader" where
  "read_full n r =
     (case fill n (rd_chunks r) of (d, cs) \<Rightarrow>
        if length d = n then Inr (d, r\<lparr>rd_chunks := cs\<rparr>)
        else if d \<noteq> [] \<and> rd_err r = EOF then Inl UnexpectedEOF
        else Inl (rd_err r))"

text \<open>
  \<open>binary.BigEndian.Uint16(b[i:i+2])\<close> and \<open>Uint32(b[i:i+4])\<close>, which are also the
  shift-and-or expressions of \<open>decodeFromBytes\<close>.
\<close>

definition get_u16 :: "bytes \<Rightarrow> nat \<Rightarrow> u16" where
  "get_u16 b i = push_bit 8 (ucast (b ! i)) OR ucast (b ! (i + 1))"

definition get_u32 :: "bytes \<Rightarrow> nat \<Rightarrow> u32" where
  "get_u32 b i =
     push_bit 24 (ucast (b ! i)) OR push_bit 16 (ucast (b ! (i + 1)))
       OR push_bit 8 (ucast (b ! (i + 2))) OR ucast (b ! (i + 3))"

definition decode :: "reader \<Rightarrow> codec_err + frame \<times> reader" where
  "decode r =
     (case read_full headerSize r of
        Inl e \<Rightarrow> Inl (ReadHeader e)
      | Inr (header, r1) \<Rightarrow>
          let frameType = header ! 0;
              chanID = get_u16 header 1;
              payloadLen = get_u32 header 3
          in if payloadLen > word_of_nat maxPayloadSize then Inl (TooLarge payloadLen)
             else if payloadLen > 0 then
               (case read_full (unat payloadLen) r1 of
                  Inl e \<Rightarrow> Inl (ReadPayload e)
                | Inr (payload, r2) \<Rightarrow>
                    Inr (\<lparr>f_type = frameType, f_chan = chanID, f_payload = payload\<rparr>, r2))
             else Inr (\<lparr>f_type = frameType, f_chan = chanID, f_payload = []\<rparr>, r1))"

section \<open>Decode from one WebSocket message\<close>

definition decodeFromBytes :: "bytes \<Rightarrow> codec_err + frame" where
  "decodeFromBytes d =
     (if length d < headerSize then Inl (TooShort (length d))
      else
        let frameType = d ! 0;
            chanID = get_u16 d 1;
            payloadLen = get_u32 d 3
        in if payloadLen > word_of_nat maxPayloadSize then Inl (TooLarge payloadLen)
           else if unat payloadLen \<noteq> length d - headerSize
             then Inl (LenMismatch payloadLen (length d - headerSize))
           else
             let payload =
               (if payloadLen > 0
                then go_copy (replicate (unat payloadLen) 0) 0 (drop headerSize d)
                else [])
             in Inr \<lparr>f_type = frameType, f_chan = chanID, f_payload = payload\<rparr>)"

section \<open>The wire format\<close>

text \<open>What \<open>encode\<close> builds, without the buffer.\<close>

definition frame_header :: "frame \<Rightarrow> bytes" where
  "frame_header f =
     f_type f # be_bytes 2 (f_chan f)
       @ be_bytes 4 (word_of_nat (length (f_payload f)) :: u32)"

lemma length_frame_header [simp]: "length (frame_header f) = 7"
  by (simp add: frame_header_def)

lemma encode_eq: "encode f = frame_header f @ f_payload f"
proof -
  obtain a b where ab: "put_u16 (f_chan f) = [a, b]" by (simp add: put_u16_def)
  obtain p q r s where pqrs: "put_u32 (word_of_nat (length (f_payload f))) = [p, q, r, s]"
    by (simp add: put_u32_def)
  have "replicate (7 + length (f_payload f)) (0 :: byte)
          = [0, 0, 0, 0, 0, 0, 0] @ replicate (length (f_payload f)) 0"
    by (simp add: numeral_eq_Suc)
  then have "encode f = [f_type f, a, b, p, q, r, s] @ f_payload f"
    by (simp add: encode_def headerSize_def ab pqrs Let_def go_copy_def)
  moreover have "frame_header f = [f_type f, a, b, p, q, r, s]"
    using ab pqrs by (simp add: frame_header_def flip: put_u16_be put_u32_be)
  ultimately show ?thesis by simp
qed

lemma length_encode [simp]: "length (encode f) = 7 + length (f_payload f)"
  by (simp add: encode_eq)

lemma encode_neq_Nil [simp]: "encode f \<noteq> []"
  by (simp flip: length_greater_0_conv)

lemma get_u16_header:
  "length pre = i \<Longrightarrow> get_u16 (pre @ be_bytes 2 v @ post) i = v"
proof -
  assume i: "length pre = i"
  have "get_u16 (pre @ be_bytes 2 v @ post) i = be_join (be_bytes 2 v)"
    by (simp add: get_u16_def be_bytes_2 be_join_2 nth_append flip: i)
  then show ?thesis by (simp add: pack_simps)
qed

lemma get_u32_header:
  "length pre = i \<Longrightarrow> get_u32 (pre @ be_bytes 4 v @ post) i = v"
proof -
  assume i: "length pre = i"
  have "get_u32 (pre @ be_bytes 4 v @ post) i = be_join (be_bytes 4 v)"
    by (simp add: get_u32_def be_bytes_4 be_join_4 nth_append flip: i)
  then show ?thesis by (simp add: pack_simps)
qed

text \<open>A header field determines the bytes it is read from.\<close>

lemma be_bytes_get_u16:
  "j < length d \<Longrightarrow> j = i + 1 \<Longrightarrow> be_bytes 2 (get_u16 d i) = [d ! i, d ! j]"
  by (simp add: get_u16_def pack_simps flip: be_join_2)

lemma be_bytes_get_u32:
  "m < length d \<Longrightarrow> j = i + 1 \<Longrightarrow> k = i + 2 \<Longrightarrow> m = i + 3 \<Longrightarrow>
     be_bytes 4 (get_u32 d i) = [d ! i, d ! j, d ! k, d ! m]"
  by (simp add: get_u32_def pack_simps flip: be_join_4)

lemma take_7:
  assumes "7 \<le> length d"
  shows "take 7 d = [d ! 0, d ! 1, d ! 2, d ! 3, d ! 4, d ! 5, d ! 6]"
  using assms by (simp add: list_eq_iff_nth_eq numeral_eq_Suc less_Suc_eq nth_Cons')

lemma header_split:
  assumes "7 \<le> length d"
  shows "d ! 0 # be_bytes 2 (get_u16 d 1) @ be_bytes 4 (get_u32 d 3) @ drop 7 d = d"
proof -
  have "be_bytes 2 (get_u16 d 1) = [d ! 1, d ! 2]"
    by (rule be_bytes_get_u16) (use assms in simp_all)
  moreover have "be_bytes 4 (get_u32 d 3) = [d ! 3, d ! 4, d ! 5, d ! 6]"
    by (rule be_bytes_get_u32) (use assms in simp_all)
  ultimately have "d ! 0 # be_bytes 2 (get_u16 d 1) @ be_bytes 4 (get_u32 d 3) @ drop 7 d
                     = take 7 d @ drop 7 d"
    by (simp only: take_7[OF assms] append_Cons append_Nil)
  then show ?thesis by simp
qed

lemma header_fields:
  "(frame_header f @ p) ! 0 = f_type f"
  "get_u16 (frame_header f @ p) (Suc 0) = f_chan f"
  "get_u32 (frame_header f @ p) 3 = word_of_nat (length (f_payload f))"
proof -
  let ?l = "be_bytes 4 (word_of_nat (length (f_payload f)) :: u32)"
  show "(frame_header f @ p) ! 0 = f_type f"
    by (simp add: frame_header_def)
  have "get_u16 ([f_type f] @ be_bytes 2 (f_chan f) @ ?l @ p) 1 = f_chan f"
    by (rule get_u16_header) simp
  then show "get_u16 (frame_header f @ p) (Suc 0) = f_chan f"
    by (simp add: frame_header_def)
  have "get_u32 ((f_type f # be_bytes 2 (f_chan f)) @ ?l @ p) 3
          = word_of_nat (length (f_payload f))"
    by (rule get_u32_header) simp
  then show "get_u32 (frame_header f @ p) 3 = word_of_nat (length (f_payload f))"
    by (simp add: frame_header_def)
qed

lemma small_length_word:
  "n \<le> maxPayloadSize \<Longrightarrow> unat (word_of_nat n :: u32) = n"
  by (simp add: maxPayloadSize_def unat_of_nat)

lemma too_large_iff: "(n :: u32) > word_of_nat maxPayloadSize \<longleftrightarrow> unat n > maxPayloadSize"
  by (simp add: word_less_nat_alt small_length_word)

lemma decodeFromBytes_cases:
  assumes "7 \<le> length d"
  shows "decodeFromBytes d =
     (if unat (get_u32 d 3) > maxPayloadSize then Inl (TooLarge (get_u32 d 3))
      else if unat (get_u32 d 3) \<noteq> length d - 7
        then Inl (LenMismatch (get_u32 d 3) (length d - 7))
      else Inr \<lparr>f_type = d ! 0, f_chan = get_u16 d 1, f_payload = drop 7 d\<rparr>)"
  using assms
  by (auto simp: decodeFromBytes_def headerSize_def too_large_iff Let_def go_copy_def
      word_greater_zero_iff unat_eq_0)

lemma decodeFromBytes_ok_iff:
  "decodeFromBytes d = Inr f \<longleftrightarrow> length (f_payload f) \<le> maxPayloadSize \<and> d = encode f"
proof
  assume ok: "decodeFromBytes d = Inr f"
  then have len: "7 \<le> length d"
    by (auto simp: decodeFromBytes_def headerSize_def split: if_splits)
  with ok have f: "f = \<lparr>f_type = d ! 0, f_chan = get_u16 d 1, f_payload = drop 7 d\<rparr>"
      and n: "unat (get_u32 d 3) \<le> maxPayloadSize" "unat (get_u32 d 3) = length d - 7"
    by (auto simp: decodeFromBytes_cases split: if_splits)
  moreover have "word_of_nat (unat (get_u32 d 3)) = get_u32 d 3" by simp
  ultimately have "get_u32 d 3 = word_of_nat (length (f_payload f))" by simp
  then have "encode f = d"
    using header_split[OF len] f by (simp add: encode_eq frame_header_def)
  then show "length (f_payload f) \<le> maxPayloadSize \<and> d = encode f"
    using f n by simp
next
  assume r: "length (f_payload f) \<le> maxPayloadSize \<and> d = encode f"
  then have "get_u32 d 3 = word_of_nat (length (f_payload f))" "d ! 0 = f_type f"
      "get_u16 d 1 = f_chan f" "drop 7 d = f_payload f"
    by (simp_all add: encode_eq header_fields)
  with r show "decodeFromBytes d = Inr f"
    by (simp add: decodeFromBytes_cases small_length_word)
qed

section \<open>Reading frames off a stream\<close>

definition rd_pending :: "reader \<Rightarrow> bytes" where
  "rd_pending r = concat (rd_chunks r)"

lemma fill_take: "fst (fill n cs) = take n (concat cs)"
  by (induction n cs rule: fill.induct) (auto split: prod.splits)

lemma fill_drop: "concat (snd (fill n cs)) = drop n (concat cs)"
  by (induction n cs rule: fill.induct) (auto split: prod.splits)

lemma read_full_eq:
  "read_full n r =
     (if n \<le> length (rd_pending r)
      then Inr (take n (rd_pending r), r\<lparr>rd_chunks := snd (fill n (rd_chunks r))\<rparr>)
      else Inl (if rd_pending r \<noteq> [] \<and> rd_err r = EOF then UnexpectedEOF else rd_err r))"
proof -
  have f: "fill n (rd_chunks r) = (take n (rd_pending r), snd (fill n (rd_chunks r)))"
    by (simp add: prod_eq_iff fill_take rd_pending_def)
  show ?thesis
    unfolding read_full_def by (subst f) (auto simp: min_def)
qed

lemma read_full_enough:
  assumes "n \<le> length (rd_pending r)"
  obtains r' where "read_full n r = Inr (take n (rd_pending r), r')"
    and "rd_pending r' = drop n (rd_pending r)" and "rd_err r' = rd_err r"
  using assms by (simp add: read_full_eq fill_drop rd_pending_def)

lemma read_full_InrD:
  assumes "read_full n r = Inr (d, r')"
  shows "n \<le> length (rd_pending r)" "d = take n (rd_pending r)"
    "rd_pending r' = drop n (rd_pending r)" "rd_err r' = rd_err r"
  using assms by (auto simp: read_full_eq fill_drop rd_pending_def split: if_splits)

text \<open>One successful \<open>Decode\<close> consumes exactly one encoded frame.\<close>

lemma decode_consumes:
  assumes "decode r = Inr (f, r')"
  shows "length (f_payload f) \<le> maxPayloadSize" "rd_pending r = encode f @ rd_pending r'"
    "rd_err r' = rd_err r"
proof -
  from assms obtain h r1 where h: "read_full headerSize r = Inr (h, r1)"
    by (auto simp: decode_def split: sum.splits)
  note h' = read_full_InrD[OF h]
  let ?n = "get_u32 h 3"
  from assms h have small: "unat ?n \<le> maxPayloadSize"
    by (auto simp: decode_def Let_def too_large_iff split: if_splits)
  have len: "length h = 7" using h' by (simp add: headerSize_def)
  have "f_type f = h ! 0 \<and> f_chan f = get_u16 h 1 \<and> length (f_payload f) = unat ?n
          \<and> rd_pending r1 = f_payload f @ rd_pending r' \<and> rd_err r' = rd_err r1"
  proof (cases "?n > 0")
    case True
    with assms h small obtain p where p: "read_full (unat ?n) r1 = Inr (p, r')"
      and f: "f = \<lparr>f_type = h ! 0, f_chan = get_u16 h 1, f_payload = p\<rparr>"
      by (auto simp: decode_def Let_def too_large_iff split: if_splits sum.splits)
    from read_full_InrD[OF p] f show ?thesis by simp
  next
    case False
    with assms h small show ?thesis
      by (auto simp: decode_def Let_def too_large_iff word_greater_zero_iff)
  qed
  moreover have "h ! 0 # be_bytes 2 (get_u16 h 1) @ be_bytes 4 ?n = h"
    using header_split[of h] len by simp
  moreover have "word_of_nat (unat ?n) = ?n" by simp
  ultimately have "encode f = h @ f_payload f"
    and rest: "length (f_payload f) = unat ?n" "rd_err r' = rd_err r1"
      "rd_pending r1 = f_payload f @ rd_pending r'"
    by (simp_all add: encode_eq frame_header_def)
  then show "rd_pending r = encode f @ rd_pending r'"
    using h' by (metis append.assoc append_take_drop_id)
  show "length (f_payload f) \<le> maxPayloadSize" "rd_err r' = rd_err r"
    using rest small h' by simp_all
qed

lemma decode_encoded:
  assumes "length (f_payload f) \<le> maxPayloadSize" "rd_pending r = encode f @ rest"
  obtains r' where "decode r = Inr (f, r')" "rd_pending r' = rest" "rd_err r' = rd_err r"
proof -
  have "headerSize \<le> length (rd_pending r)"
    using assms by (simp add: headerSize_def)
  then obtain r1 where h: "read_full headerSize r = Inr (take headerSize (rd_pending r), r1)"
      and p1: "rd_pending r1 = drop headerSize (rd_pending r)" "rd_err r1 = rd_err r"
    by (rule read_full_enough)
  have hd: "take headerSize (rd_pending r) = frame_header f"
    using assms by (simp add: headerSize_def encode_eq)
  have p1': "rd_pending r1 = f_payload f @ rest"
    using p1 assms by (simp add: headerSize_def encode_eq)
  have fields: "frame_header f ! 0 = f_type f" "get_u16 (frame_header f) (Suc 0) = f_chan f"
      "get_u32 (frame_header f) 3 = word_of_nat (length (f_payload f))"
    using header_fields[of f "[]"] by simp_all
  show ?thesis
  proof (cases "f_payload f = []")
    case True
    then have "decode r = Inr (f, r1)"
      by (simp add: decode_def h hd fields Let_def)
    then show ?thesis using that True p1' p1 by simp
  next
    case False
    have n: "unat (word_of_nat (length (f_payload f)) :: u32) = length (f_payload f)"
      using assms by (simp add: small_length_word)
    then have pos: "(word_of_nat (length (f_payload f)) :: u32) > 0"
      using False by (simp add: word_greater_zero_iff flip: unat_eq_0)
    obtain r2 where r2: "read_full (length (f_payload f)) r1 = Inr (f_payload f, r2)"
        "rd_pending r2 = rest" "rd_err r2 = rd_err r1"
      using p1' by (auto intro: read_full_enough[of "length (f_payload f)" r1])
    have "decode r = Inr (f, r2)"
      using r2 assms(1) by (simp add: decode_def h[unfolded hd] fields Let_def too_large_iff n pos)
    then show ?thesis using that r2 p1 by simp
  qed
qed

section \<open>Properties\<close>

text \<open>C3. A WebSocket message is accepted by \<open>decodeFromBytes\<close> exactly when it is the
  encoding of a frame of at most 32 MB, and then that frame is the result: decoding inverts
  encoding, no other message is accepted, and no two messages decode to the same frame.\<close>
theorem message_canonical:
  "decodeFromBytes d = Inr f \<longleftrightarrow> length (f_payload f) \<le> maxPayloadSize \<and> d = encode f"
  by (rule decodeFromBytes_ok_iff)

text \<open>C15. However the reader cuts its data into chunks, \<open>Decode\<close> succeeds exactly when the
  pending bytes start with the encoding of a frame of at most 32 MB; it returns that frame
  and leaves precisely the bytes after it.\<close>
theorem stream_decode:
  "(\<exists>r'. decode r = Inr (f, r') \<and> rd_pending r' = rest \<and> rd_err r' = rd_err r) \<longleftrightarrow>
     length (f_payload f) \<le> maxPayloadSize \<and> rd_pending r = encode f @ rest"
  by (metis decode_consumes decode_encoded)

text \<open>A stream that ends inside a frame never yields a frame: the error says whether the
  header or the payload was cut and whether any byte of it had arrived.\<close>
theorem decode_truncated:
  assumes "length (f_payload f) \<le> maxPayloadSize" "k < length (encode f)"
    and "rd_pending r = take k (encode f)" "rd_err r = EOF"
  shows "decode r = Inl (if k < 7 then ReadHeader (if k = 0 then EOF else UnexpectedEOF)
                         else ReadPayload (if k = 7 then EOF else UnexpectedEOF))"
proof (cases "k < 7")
  case True
  then show ?thesis using assms by (auto simp: decode_def read_full_eq headerSize_def)
next
  case False
  let ?r1 = "r\<lparr>rd_chunks := snd (fill 7 (rd_chunks r))\<rparr>"
  have hd: "read_full headerSize r = Inr (frame_header f, ?r1)"
    using False assms by (simp add: read_full_eq headerSize_def encode_eq)
  have p1: "rd_pending ?r1 = take (k - 7) (f_payload f)"
    using False assms(3) by (simp add: rd_pending_def fill_drop encode_eq)
  have n: "unat (word_of_nat (length (f_payload f)) :: u32) = length (f_payload f)"
    using assms(1) by (simp add: small_length_word)
  then have pos: "(word_of_nat (length (f_payload f)) :: u32) > 0"
    using False assms(2) by (auto simp add: word_greater_zero_iff simp flip: unat_eq_0)
  have "read_full (length (f_payload f)) ?r1
          = Inl (if k = 7 then EOF else UnexpectedEOF)"
    using False assms by (auto simp: read_full_eq p1)
  then show ?thesis
    using False assms(1) header_fields[of f "[]"]
    by (simp add: decode_def hd Let_def too_large_iff n pos)
qed

theorem decode_truncated_witness:
  "decode \<lparr>rd_chunks = [[1, 0], [5, 0, 0], [0, 2, 9]], rd_err = EOF\<rparr>
     = Inl (ReadPayload UnexpectedEOF)"
proof -
  let ?f = "\<lparr>f_type = 1, f_chan = 5, f_payload = [9, 9]\<rparr>"
  let ?r = "\<lparr>rd_chunks = [[1, 0], [5, 0, 0], [0, 2, 9]], rd_err = EOF\<rparr>"
  have e: "encode ?f = [1, 0, 5, 0, 0, 0, 2, 9, 9]"
    by (simp add: encode_eq frame_header_def be_bytes_2 be_bytes_4)
  have "decode ?r = Inl (if (8 :: nat) < 7 then ReadHeader (if (8 :: nat) = 0 then EOF else UnexpectedEOF)
                         else ReadPayload (if (8 :: nat) = 7 then EOF else UnexpectedEOF))"
    by (rule decode_truncated[of ?f]) (simp_all add: e rd_pending_def maxPayloadSize_def)
  then show ?thesis by simp
qed

end
