(* ===== verification/Ring_Buffer.thy ===== *)
theory Ring_Buffer
  imports Wd_Prelude
begin

text \<open>
  \<open>internal/ringbuf/ringbuf.go\<close>: the fixed-capacity byte buffer that keeps the last output
  of a terminal. The concrete buffer is the array with its two cursors; its abstraction is
  the list of stored bytes, oldest first. Every method holds the buffer's mutex, so each is
  one atomic operation of the model.
\<close>

section \<open>State and operations\<close>

record ringbuf =
  rb_buf :: bytes
  rb_head :: nat    \<comment> \<open>index of the oldest byte\<close>
  rb_tail :: nat    \<comment> \<open>index where the next byte is written\<close>
  rb_size :: nat
  rb_cap :: nat

text \<open>\<open>New\<close> panics (\<open>None\<close>) unless the capacity is positive.\<close>

definition rb_new :: "int \<Rightarrow> ringbuf option" where
  "rb_new capacity =
     (if capacity \<le> 0 then None
      else Some \<lparr>rb_buf = replicate (nat capacity) 0, rb_head = 0, rb_tail = 0,
                 rb_size = 0, rb_cap = nat capacity\<rparr>)"

definition rb_put :: "byte \<Rightarrow> ringbuf \<Rightarrow> ringbuf" where
  "rb_put b rb =
     (let rb1 = rb\<lparr>rb_buf := (rb_buf rb)[rb_tail rb := b],
                    rb_tail := (rb_tail rb + 1) mod rb_cap rb\<rparr>
      in if rb_size rb1 = rb_cap rb1
         then rb1\<lparr>rb_head := (rb_head rb1 + 1) mod rb_cap rb1\<rparr>
         else rb1\<lparr>rb_size := rb_size rb1 + 1\<rparr>)"

fun rb_write_loop :: "bytes \<Rightarrow> ringbuf \<Rightarrow> ringbuf" where
  "rb_write_loop [] rb = rb"
| "rb_write_loop (b # p) rb = rb_write_loop p (rb_put b rb)"

definition rb_write :: "bytes \<Rightarrow> ringbuf \<Rightarrow> ringbuf" where
  "rb_write p rb =
     (if length p = 0 then rb
      else if length p \<ge> rb_cap rb then
        let p' = drop (length p - rb_cap rb) p
        in rb\<lparr>rb_buf := go_copy (rb_buf rb) 0 p', rb_head := 0, rb_tail := 0,
              rb_size := rb_cap rb\<rparr>
      else rb_write_loop p rb)"

definition rb_bytes :: "ringbuf \<Rightarrow> bytes" where
  "rb_bytes rb =
     (if rb_size rb = 0 then []
      else
        let out = replicate (rb_size rb) 0
        in if rb_head rb + rb_size rb \<le> rb_cap rb
           then go_copy out 0 (slice (rb_buf rb) (rb_head rb) (rb_head rb + rb_size rb))
           else
             let n = min (length out) (length (drop (rb_head rb) (rb_buf rb)));
                 out1 = go_copy out 0 (drop (rb_head rb) (rb_buf rb))
             in go_copy out1 n (slice (rb_buf rb) 0 (rb_size rb - n)))"

definition rb_len :: "ringbuf \<Rightarrow> nat" where
  "rb_len rb = rb_size rb"

definition rb_capacity :: "ringbuf \<Rightarrow> nat" where
  "rb_capacity rb = rb_cap rb"

definition rb_reset :: "ringbuf \<Rightarrow> ringbuf" where
  "rb_reset rb = rb\<lparr>rb_head := 0, rb_tail := 0, rb_size := 0\<rparr>"

section \<open>Invariant and abstraction\<close>

definition rb_inv :: "ringbuf \<Rightarrow> bool" where
  "rb_inv rb \<longleftrightarrow>
     0 < rb_cap rb \<and> length (rb_buf rb) = rb_cap rb \<and> rb_head rb < rb_cap rb \<and>
     rb_size rb \<le> rb_cap rb \<and> rb_tail rb = (rb_head rb + rb_size rb) mod rb_cap rb"

definition rb_abs :: "ringbuf \<Rightarrow> bytes" where
  "rb_abs rb =
     map (\<lambda>i. rb_buf rb ! ((rb_head rb + i) mod rb_cap rb)) [0..<rb_size rb]"

lemma length_rb_abs [simp]: "length (rb_abs rb) = rb_size rb"
  by (simp add: rb_abs_def)

lemma rb_inv_new: "rb_new c = Some rb \<Longrightarrow> rb_inv rb"
  by (auto simp: rb_new_def rb_inv_def split: if_splits)

lemma rb_abs_new: "rb_new c = Some rb \<Longrightarrow> rb_abs rb = [] \<and> rb_cap rb = nat c"
  by (auto simp: rb_new_def rb_abs_def split: if_splits)

lemma mod_add_inj:
  fixes h c i j :: nat
  assumes "(h + i) mod c = (h + j) mod c" "i < c" "j < c"
  shows "i = j"
proof -
  have "i' = j'" if le: "i' \<le> j'" and lt: "j' < c" and eq: "(h + i') mod c = (h + j') mod c"
    for i' j'
  proof -
    have "c dvd (h + j') - (h + i')"
      using eq le by (metis add_le_cancel_left mod_eq_dvd_iff_nat)
    then have "c dvd j' - i'" using le by simp
    then show ?thesis using le lt by (auto dest: dvd_imp_le)
  qed
  then show ?thesis using assms by (metis nat_le_linear)
qed

lemma rb_put_inv: "rb_inv rb \<Longrightarrow> rb_inv (rb_put b rb)"
  using mod_add_self2[of "Suc (rb_head rb)" "rb_cap rb"]
  by (auto simp: rb_inv_def rb_put_def Let_def mod_simps)

lemma rb_put_cap [simp]: "rb_cap (rb_put b rb) = rb_cap rb"
  by (simp add: rb_put_def Let_def)

lemma rb_put_size: "rb_size (rb_put b rb) = (if rb_size rb = rb_cap rb then rb_size rb else rb_size rb + 1)"
  by (simp add: rb_put_def Let_def)

text \<open>Writing a byte appends it, and drops the oldest byte when the buffer is full.\<close>

lemma rb_put_abs_room:
  assumes "rb_inv rb" "rb_size rb < rb_cap rb"
  shows "rb_abs (rb_put b rb) = rb_abs rb @ [b]"
proof (rule nth_equalityI)
  show "length (rb_abs (rb_put b rb)) = length (rb_abs rb @ [b])"
    using assms by (simp add: rb_put_size)
next
  fix i assume "i < length (rb_abs (rb_put b rb))"
  then have i: "i \<le> rb_size rb" using assms by (simp add: rb_put_size)
  have other: "(rb_head rb + i) mod rb_cap rb \<noteq> rb_tail rb" if "i < rb_size rb"
    using mod_add_inj[of "rb_head rb" i "rb_cap rb" "rb_size rb"] assms that
    by (auto simp: rb_inv_def)
  show "rb_abs (rb_put b rb) ! i = (rb_abs rb @ [b]) ! i"
    using assms i other
    by (cases "i = rb_size rb")
      (simp_all add: rb_abs_def rb_put_def Let_def rb_inv_def nth_append)
qed

lemma rb_put_abs_full:
  assumes "rb_inv rb" "rb_size rb = rb_cap rb"
  shows "rb_abs (rb_put b rb) = tl (rb_abs rb) @ [b]"
proof (rule nth_equalityI)
  have c: "0 < rb_cap rb" using assms by (simp add: rb_inv_def)
  then show len: "length (rb_abs (rb_put b rb)) = length (tl (rb_abs rb) @ [b])"
    using assms by (simp add: rb_put_size)
  fix i assume "i < length (rb_abs (rb_put b rb))"
  then have i: "i < rb_cap rb" using assms by (simp add: rb_put_size)
  have tail: "rb_tail rb = rb_head rb" using assms by (simp add: rb_inv_def)
  have idx: "((rb_head rb + 1) mod rb_cap rb + i) mod rb_cap rb = (rb_head rb + Suc i) mod rb_cap rb"
    by (simp add: mod_simps)
  show "rb_abs (rb_put b rb) ! i = (tl (rb_abs rb) @ [b]) ! i"
  proof (cases "Suc i = rb_cap rb")
    case True
    then have "(rb_head rb + Suc i) mod rb_cap rb = rb_head rb"
      using assms by (simp add: rb_inv_def)
    moreover have "i = rb_cap rb - 1" using True by simp
    ultimately show ?thesis
      using i assms idx tail
      by (simp add: rb_abs_def rb_put_def Let_def rb_inv_def nth_append)
  next
    case False
    then have "(rb_head rb + Suc i) mod rb_cap rb \<noteq> rb_head rb"
      using mod_add_inj[of "rb_head rb" "Suc i" "rb_cap rb" 0] assms i by (auto simp: rb_inv_def)
    moreover have "i < rb_cap rb - 1" using False i by simp
    moreover from this have "[0..<rb_cap rb] ! Suc i = Suc i" by (subst nth_upt) simp_all
    ultimately show ?thesis
      using i assms idx tail
      by (simp add: rb_abs_def rb_put_def Let_def rb_inv_def nth_append nth_tl)
  qed
qed

lemma rb_put_abs:
  assumes "rb_inv rb"
  shows "rb_abs (rb_put b rb) = last_n (rb_cap rb) (rb_abs rb @ [b])"
proof (cases "rb_size rb = rb_cap rb")
  case True
  with assms show ?thesis
    by (simp add: rb_put_abs_full last_n_snoc_full rb_inv_def)
next
  case False
  with assms have "rb_size rb < rb_cap rb" by (simp add: rb_inv_def)
  with assms show ?thesis by (simp add: rb_put_abs_room last_n_all)
qed

lemma rb_write_loop_refines:
  "rb_inv rb \<Longrightarrow> rb_inv (rb_write_loop p rb) \<and> rb_cap (rb_write_loop p rb) = rb_cap rb \<and>
     rb_abs (rb_write_loop p rb) = last_n (rb_cap rb) (rb_abs rb @ p)"
proof (induction p arbitrary: rb)
  case Nil
  then show ?case by (simp add: last_n_all rb_inv_def)
next
  case (Cons b p)
  have "last_n (rb_cap rb) (last_n (rb_cap rb) (rb_abs rb @ [b]) @ p)
          = last_n (rb_cap rb) ((rb_abs rb @ [b]) @ p)"
    by (rule last_n_last_n_append)
  then show ?case
    using Cons by (simp add: rb_put_inv rb_put_abs)
qed

lemma rb_abs_from_zero:
  assumes "rb_head rb = 0" "rb_size rb = rb_cap rb" "length (rb_buf rb) = rb_cap rb"
  shows "rb_abs rb = rb_buf rb"
  using assms by (simp add: rb_abs_def list_eq_iff_nth_eq)

lemma rb_write_refines:
  assumes "rb_inv rb"
  shows "rb_inv (rb_write p rb)" "rb_cap (rb_write p rb) = rb_cap rb"
    "rb_abs (rb_write p rb) = last_n (rb_cap rb) (rb_abs rb @ p)"
proof -
  let ?c = "rb_cap rb"
  have "rb_inv (rb_write p rb) \<and> rb_cap (rb_write p rb) = ?c \<and>
          rb_abs (rb_write p rb) = last_n ?c (rb_abs rb @ p)"
  proof (cases "p = [] \<or> length p < ?c")
    case True
    then show ?thesis
      using assms rb_write_loop_refines[OF assms, of p]
      by (auto simp: rb_write_def last_n_all rb_inv_def)
  next
    case False
    let ?p = "drop (length p - ?c) p"
    let ?rb = "rb\<lparr>rb_buf := ?p, rb_head := 0, rb_tail := 0, rb_size := ?c\<rparr>"
    have w: "rb_write p rb = ?rb"
      using False assms by (auto simp: rb_write_def go_copy_def rb_inv_def Let_def)
    have "length ?p = ?c" using False by simp
    then have "rb_abs ?rb = ?p" and "rb_inv ?rb"
      using assms by (simp_all add: rb_abs_from_zero rb_inv_def)
    moreover have "?p = last_n ?c (rb_abs rb @ p)"
      using False by (simp add: last_n_short_suffix) (simp add: last_n_def)
    ultimately show ?thesis using w by simp
  qed
  then show "rb_inv (rb_write p rb)" "rb_cap (rb_write p rb) = ?c"
      "rb_abs (rb_write p rb) = last_n ?c (rb_abs rb @ p)"
    by auto
qed

text \<open>The two-part copy of \<open>Bytes\<close> reads the abstraction.\<close>

lemma rb_bytes_abs:
  assumes "rb_inv rb"
  shows "rb_bytes rb = rb_abs rb"
proof (cases "rb_head rb + rb_size rb \<le> rb_cap rb")
  case True
  have "rb_abs rb = slice (rb_buf rb) (rb_head rb) (rb_head rb + rb_size rb)"
    using assms True by (auto simp: rb_abs_def slice_def rb_inv_def list_eq_iff_nth_eq)
  then show ?thesis
    using assms True
    by (auto simp: rb_bytes_def Let_def go_copy_exact slice_def rb_inv_def rb_abs_def)
next
  case False
  let ?n = "rb_cap rb - rb_head rb"
  let ?u = "drop (rb_head rb) (rb_buf rb)" and ?v = "take (rb_size rb - ?n) (rb_buf rb)"
  have n: "?n \<le> rb_size rb" "0 < rb_size rb" "length ?u = ?n"
    using assms False by (auto simp: rb_inv_def)
  have "go_copy (replicate (rb_size rb) 0) 0 ?u = ?u @ replicate (rb_size rb - ?n) 0"
    using n by (simp add: go_copy_def)
  then have "rb_bytes rb = ?u @ ?v"
    using n False assms
    by (simp add: rb_bytes_def Let_def slice_def min_def go_copy_def rb_inv_def)
  moreover have "rb_abs rb = ?u @ ?v"
  proof (rule nth_equalityI)
    show "length (rb_abs rb) = length (?u @ ?v)"
      using n assms by (auto simp: rb_inv_def min_def)
  next
    fix i assume "i < length (rb_abs rb)"
    then have i: "i < rb_size rb" by simp
    show "rb_abs rb ! i = (?u @ ?v) ! i"
    proof (cases "i < ?n")
      case True
      then show ?thesis
        using i n assms by (simp add: rb_abs_def nth_append rb_inv_def)
    next
      case False
      then have "(rb_head rb + i) mod rb_cap rb = (rb_head rb + i - rb_cap rb) mod rb_cap rb"
        by (intro le_mod_geq) simp
      also have "\<dots> = i - ?n"
        using False i assms by (auto simp: rb_inv_def)
      finally have "(rb_head rb + i) mod rb_cap rb = i - ?n" .
      then show ?thesis
        using False i n assms by (simp add: rb_abs_def nth_append rb_inv_def)
    qed
  qed
  ultimately show ?thesis by simp
qed

lemma rb_reset_refines:
  "rb_inv rb \<Longrightarrow> rb_inv (rb_reset rb)" "rb_abs (rb_reset rb) = []"
  "rb_cap (rb_reset rb) = rb_cap rb"
  by (simp_all add: rb_inv_def rb_reset_def rb_abs_def)

section \<open>The interface the terminal sessions rely on\<close>

text \<open>
  A bounded log of bytes: what a client may assume of the buffer that keeps a terminal's
  output. It promises the last \<open>cap\<close> bytes written, whatever the sizes of the writes.
\<close>

locale byte_log =
  fixes put :: "bytes \<Rightarrow> 'l \<Rightarrow> 'l"
    and contents :: "'l \<Rightarrow> bytes"
    and cap :: "'l \<Rightarrow> nat"
    and invar :: "'l \<Rightarrow> bool"
  assumes write_invar: "invar l \<Longrightarrow> invar (put p l)"
    and write_cap: "invar l \<Longrightarrow> cap (put p l) = cap l"
    and write_contents: "invar l \<Longrightarrow> contents (put p l) = last_n (cap l) (contents l @ p)"
    and contents_bounded: "invar l \<Longrightarrow> length (contents l) \<le> cap l"
begin

lemma writes_invar: "invar l \<Longrightarrow> invar (fold put ps l)"
  by (induction ps arbitrary: l) (simp_all add: write_invar)

lemma writes_cap: "invar l \<Longrightarrow> cap (fold put ps l) = cap l"
  by (induction ps arbitrary: l) (simp_all add: write_invar write_cap)

lemma writes_contents:
  "invar l \<Longrightarrow> contents (fold put ps l) = last_n (cap l) (contents l @ concat ps)"
proof (induction ps arbitrary: l)
  case Nil
  then show ?case using contents_bounded by (simp add: last_n_all)
next
  case (Cons p ps)
  then show ?case
    using last_n_last_n_append[of "cap l" "contents l @ p" "concat ps"]
    by (simp add: write_invar write_cap write_contents)
qed

text \<open>Contents never exceed what was ever written: they are a suffix of the history.\<close>

lemma writes_suffix:
  "invar l \<Longrightarrow> suffix (contents (fold put ps l)) (contents l @ concat ps)"
  by (simp add: writes_contents last_n_suffix)

end

interpretation ring: byte_log rb_write rb_bytes rb_cap rb_inv
proof unfold_locales
  fix rb p assume "rb_inv rb"
  then show "rb_inv (rb_write p rb)" "rb_cap (rb_write p rb) = rb_cap rb"
      "rb_bytes (rb_write p rb) = last_n (rb_cap rb) (rb_bytes rb @ p)"
      "length (rb_bytes rb) \<le> rb_cap rb"
    by (simp_all add: rb_write_refines rb_bytes_abs) (simp add: rb_inv_def)
qed

section \<open>Properties\<close>

text \<open>The specification: the buffer is the list of the last \<open>cap\<close> bytes since a reset.\<close>

datatype rb_op = RWrite bytes | RReset

fun rb_apply :: "rb_op \<Rightarrow> ringbuf \<Rightarrow> ringbuf" where
  "rb_apply (RWrite p) rb = rb_write p rb"
| "rb_apply RReset rb = rb_reset rb"

fun log_apply :: "nat \<Rightarrow> rb_op \<Rightarrow> bytes \<Rightarrow> bytes" where
  "log_apply n (RWrite p) xs = last_n n (xs @ p)"
| "log_apply n RReset xs = []"

lemma rb_apply_refines:
  assumes "rb_inv rb"
  shows "rb_inv (rb_apply op rb)" "rb_cap (rb_apply op rb) = rb_cap rb"
    "rb_abs (rb_apply op rb) = log_apply (rb_cap rb) op (rb_abs rb)"
  using assms by (cases op; simp add: rb_write_refines rb_reset_refines)+

lemma rb_run_refines:
  "rb_inv rb \<Longrightarrow>
     rb_inv (fold rb_apply ops rb) \<and> rb_cap (fold rb_apply ops rb) = rb_cap rb \<and>
     rb_abs (fold rb_apply ops rb) = fold (log_apply (rb_cap rb)) ops (rb_abs rb)"
  by (induction ops arbitrary: rb) (simp_all add: rb_apply_refines)

text \<open>C7. Refinement: a buffer made by \<open>New\<close> and taken through any sequence of \<open>Write\<close> and
  \<open>Reset\<close> calls returns from \<open>Bytes\<close> and \<open>Len\<close> exactly what the list specification holds:
  the last \<open>capacity\<close> bytes written since the last reset, oldest first.\<close>
theorem ring_buffer_refines:
  assumes "rb_new c = Some rb"
  shows "rb_bytes (fold rb_apply ops rb) = fold (log_apply (nat c)) ops []
    \<and> rb_len (fold rb_apply ops rb) = length (fold (log_apply (nat c)) ops [])
    \<and> rb_capacity (fold rb_apply ops rb) = nat c"
proof -
  note inv = rb_inv_new[OF assms]
  note run = rb_run_refines[OF inv, of ops]
  then have "rb_abs (fold rb_apply ops rb) = fold (log_apply (nat c)) ops []"
    using rb_abs_new[OF assms] by simp
  then show ?thesis
    using run rb_abs_new[OF assms]
    by (simp add: rb_bytes_abs rb_len_def rb_capacity_def flip: length_rb_abs)
qed

theorem ring_buffer_refines_witness:
  "\<exists>rb. rb_new 3 = Some rb \<and>
     rb_bytes (fold rb_apply [RWrite [1, 2], RWrite [3, 4], RReset, RWrite [5, 6], RWrite [7, 8]] rb)
       = [6, 7, 8]"
proof -
  obtain rb where rb: "rb_new 3 = Some rb" by (simp add: rb_new_def)
  then show ?thesis
    using ring_buffer_refines[OF rb,
        of "[RWrite [1, 2], RWrite [3, 4], RReset, RWrite [5, 6], RWrite [7, 8]]"]
    by (simp add: last_n_def)
qed

text \<open>The cursors stay inside the array: from \<open>New\<close> on, after any sequence of operations
  the array keeps its length, head and tail index it, and the size is at most the capacity,
  so no access of the code is out of range.\<close>
theorem ring_buffer_in_bounds:
  assumes "rb_new c = Some rb"
  shows "length (rb_buf (fold rb_apply ops rb)) = nat c
    \<and> rb_head (fold rb_apply ops rb) < nat c \<and> rb_tail (fold rb_apply ops rb) < nat c
    \<and> rb_size (fold rb_apply ops rb) \<le> nat c"
  using rb_run_refines[OF rb_inv_new[OF assms], of ops] rb_abs_new[OF assms]
  by (auto simp: rb_inv_def)

theorem ring_buffer_in_bounds_witness:
  "\<exists>rb. rb_new 2 = Some rb \<and> rb_tail (fold rb_apply [RWrite [1], RWrite [2], RWrite [3]] rb) < 2"
proof -
  obtain rb where rb: "rb_new 2 = Some rb" by (simp add: rb_new_def)
  then show ?thesis
    using ring_buffer_in_bounds[OF rb, of "[RWrite [1], RWrite [2], RWrite [3]]"] by simp
qed

end
