(* ===== verification/Ws_Hub.thy ===== *)
theory Ws_Hub
  imports Frame_Codec
begin

text \<open>
  \<open>internal/hub/hub.go\<close>: one WebSocket connection with its handler table, its bounded queue
  of serialized frames and its writer goroutine. The sequential operations come first; then
  the goroutines as a step relation, where a \<open>Send\<close> is two atomic actions, a \<open>Close\<close> three,
  and the writer runs beside them.
\<close>

section \<open>The hub and its operations\<close>

datatype ws_msg = WsBinary bytes | WsPing | WsClose

text \<open>
  \<open>hb_wire\<close> is what the writer has handed to the connection, oldest first; \<open>hb_done\<close> says
  that the \<open>done\<close> channel is closed, which only \<open>Close\<close> does, once.
\<close>

record 'h hub =
  hb_handlers :: "u16 \<rightharpoonup> 'h"
  hb_writeCh :: "bytes list"
  hb_done :: bool
  hb_conn :: bool           \<comment> \<open>the connection is open\<close>
  hb_wire :: "ws_msg list"
  hb_writer :: bool         \<comment> \<open>the writer goroutine is running\<close>

definition writeChanSize :: nat where
  "writeChanSize = 256"

definition hub_new :: "'h hub" where
  "hub_new = \<lparr>hb_handlers = Map.empty, hb_writeCh = [], hb_done = False, hb_conn = True,
              hb_wire = [], hb_writer = True\<rparr>"

definition hub_register :: "u16 \<Rightarrow> 'h \<Rightarrow> 'h hub \<Rightarrow> 'h hub" where
  "hub_register c hnd h = h\<lparr>hb_handlers := (hb_handlers h)(c \<mapsto> hnd)\<rparr>"

text \<open>\<open>Unregister\<close> also returns the handler whose \<open>Close\<close> it calls after unlocking.\<close>

definition hub_unregister :: "u16 \<Rightarrow> 'h hub \<Rightarrow> 'h hub \<times> 'h option" where
  "hub_unregister c h =
     (case hb_handlers h c of
        None \<Rightarrow> (h, None)
      | Some hnd \<Rightarrow> (h\<lparr>hb_handlers := (hb_handlers h)(c := None)\<rparr>, Some hnd))"

text \<open>The body of \<open>Close\<close> under \<open>closeOnce\<close>, statement by statement.\<close>

definition close_signal :: "'h hub \<Rightarrow> 'h hub" where
  "close_signal h = h\<lparr>hb_done := True\<rparr>"

definition close_conn :: "'h hub \<Rightarrow> 'h hub" where
  "close_conn h = h\<lparr>hb_conn := False\<rparr>"

definition close_handlers :: "'h hub \<Rightarrow> 'h hub" where
  "close_handlers h = h\<lparr>hb_handlers := Map.empty\<rparr>"

definition hub_close :: "'h hub \<Rightarrow> 'h hub" where
  "hub_close h =
     (if hb_done h then h else close_handlers (close_conn (close_signal h)))"

text \<open>
  \<open>Send\<close>: the first \<open>select\<close> returns an error when \<open>done\<close> is closed. The second one has the
  ready cases \<open>writeCh <- data\<close> (room in the channel) and \<open><-done\<close>; with neither ready it
  takes the default and drops the frame. Go chooses freely among ready cases, so the second
  select has a list of possible outcomes.
\<close>

datatype send_outcome = Queued | HubClosed | Dropped

definition send_select :: "bytes \<Rightarrow> 'h hub \<Rightarrow> (send_outcome \<times> 'h hub) list" where
  "send_select data h =
     (let ready =
        (if length (hb_writeCh h) < writeChanSize
         then [(Queued, h\<lparr>hb_writeCh := hb_writeCh h @ [data]\<rparr>)] else [])
        @ (if hb_done h then [(HubClosed, h)] else [])
      in if ready = [] then [(Dropped, h)] else ready)"

text \<open>A \<open>Send\<close> that no other goroutine interrupts: the first possible outcome is the only one.\<close>

definition hub_send :: "frame \<Rightarrow> 'h hub \<Rightarrow> 'h hub \<times> send_outcome" where
  "hub_send f h =
     (if hb_done h then (h, HubClosed)
      else case hd (send_select (encode f) h) of (r, h') \<Rightarrow> (h', r))"

text \<open>\<open>Send\<close> returns an error only for a closed hub; a dropped frame is not an error.\<close>

definition send_error :: "send_outcome \<Rightarrow> bool" where
  "send_error r \<longleftrightarrow> r = HubClosed"

text \<open>One iteration of the read goroutine of \<open>Run\<close>.\<close>

datatype inbound = InBinary bytes | InOther

datatype 'h dispatch =
    IgnoreMessage              \<comment> \<open>not a binary message\<close>
  | BadFrame codec_err
  | NoHandler frame
  | Dispatch 'h frame

definition hub_dispatch :: "inbound \<Rightarrow> 'h hub \<Rightarrow> 'h dispatch" where
  "hub_dispatch m h =
     (case m of
        InOther \<Rightarrow> IgnoreMessage
      | InBinary d \<Rightarrow>
          (case decodeFromBytes d of
             Inl e \<Rightarrow> BadFrame e
           | Inr f \<Rightarrow>
               (case hb_handlers h (f_chan f) of
                  None \<Rightarrow> NoHandler f
                | Some hnd \<Rightarrow> Dispatch hnd f)))"

text \<open>
  The branches of the writer's \<open>select\<close>. \<open>ok\<close> is whether \<open>WriteMessage\<close> succeeds, which it
  cannot on a closed connection; on failure the writer calls \<open>Close\<close> and stops.
\<close>

definition writer_data :: "bool \<Rightarrow> 'h hub \<Rightarrow> 'h hub" where
  "writer_data ok h =
     (case hb_writeCh h of
        [] \<Rightarrow> h
      | d # q \<Rightarrow>
          if ok \<and> hb_conn h
          then h\<lparr>hb_writeCh := q, hb_wire := hb_wire h @ [WsBinary d]\<rparr>
          else (hub_close (h\<lparr>hb_writeCh := q\<rparr>))\<lparr>hb_writer := False\<rparr>)"

definition writer_ping :: "bool \<Rightarrow> 'h hub \<Rightarrow> 'h hub" where
  "writer_ping ok h =
     (if ok \<and> hb_conn h then h\<lparr>hb_wire := hb_wire h @ [WsPing]\<rparr>
      else (hub_close h)\<lparr>hb_writer := False\<rparr>)"

definition writer_done :: "bool \<Rightarrow> 'h hub \<Rightarrow> 'h hub" where
  "writer_done ok h =
     (if ok \<and> hb_conn h then h\<lparr>hb_wire := hb_wire h @ [WsClose], hb_writer := False\<rparr>
      else h\<lparr>hb_writer := False\<rparr>)"

section \<open>Facts about single operations\<close>

text \<open>Everything accepted and not lost: what is on the wire, then what is queued.\<close>

fun binaries :: "ws_msg list \<Rightarrow> bytes list" where
  "binaries [] = []"
| "binaries (WsBinary d # ms) = d # binaries ms"
| "binaries (_ # ms) = binaries ms"

lemma binaries_append [simp]: "binaries (xs @ ys) = binaries xs @ binaries ys"
  by (induction xs rule: binaries.induct) simp_all

definition hub_outbox :: "'h hub \<Rightarrow> bytes list" where
  "hub_outbox h = binaries (hb_wire h) @ hb_writeCh h"

definition hub_room :: "'h hub \<Rightarrow> nat" where
  "hub_room h = (if hb_done h then 0 else writeChanSize - length (hb_writeCh h))"

lemma hub_send_cases:
  "hub_send f h =
     (if hb_done h then (h, HubClosed)
      else if length (hb_writeCh h) < writeChanSize
        then (h\<lparr>hb_writeCh := hb_writeCh h @ [encode f]\<rparr>, Queued)
      else (h, Dropped))"
  by (simp add: hub_send_def send_select_def Let_def)

lemma hub_send_fields [simp]:
  "hb_handlers (fst (hub_send f h)) = hb_handlers h"
  "hb_done (fst (hub_send f h)) = hb_done h"
  "hb_conn (fst (hub_send f h)) = hb_conn h"
  "hb_wire (fst (hub_send f h)) = hb_wire h"
  "hb_writer (fst (hub_send f h)) = hb_writer h"
  by (simp_all add: hub_send_cases)

lemma hub_send_error: "send_error (snd (hub_send f h)) \<longleftrightarrow> hb_done h"
  by (simp add: hub_send_cases send_error_def)

lemma hub_send_outbox:
  "hub_outbox (fst (hub_send f h)) =
     (if 0 < hub_room h then hub_outbox h @ [encode f] else hub_outbox h)"
  by (auto simp: hub_send_cases hub_outbox_def hub_room_def)

lemma hub_send_room: "hub_room (fst (hub_send f h)) = hub_room h - 1"
  by (auto simp: hub_send_cases hub_room_def)

lemma hub_register_outbox [simp]:
  "hub_outbox (hub_register c hnd h) = hub_outbox h" "hub_room (hub_register c hnd h) = hub_room h"
  by (simp_all add: hub_outbox_def hub_room_def hub_register_def)

lemma hub_unregister_outbox [simp]:
  "hub_outbox (fst (hub_unregister c h)) = hub_outbox h"
  "hub_room (fst (hub_unregister c h)) = hub_room h"
  by (simp_all add: hub_outbox_def hub_room_def hub_unregister_def split: option.splits)

lemma hub_close_fields:
  "hb_done (hub_close h)" "hb_wire (hub_close h) = hb_wire h"
  "hb_writeCh (hub_close h) = hb_writeCh h" "hb_writer (hub_close h) = hb_writer h"
  by (simp_all add: hub_close_def close_signal_def close_conn_def close_handlers_def)

lemma hub_close_idem: "hub_close (hub_close h) = hub_close h"
  by (simp add: hub_close_def close_signal_def close_conn_def close_handlers_def)

lemma hub_close_outbox [simp]: "hub_outbox (hub_close h) = hub_outbox h"
  by (simp add: hub_outbox_def hub_close_fields)

section \<open>The interface of a frame sender\<close>

text \<open>
  Terminal sessions, proxies and the statistics collector only know a \<open>Sender\<close> with a
  \<open>Send\<close> method. What they may rely on: a frame is either appended to the receiver's outbox
  or, when there is no room, dropped; an error means closed; nobody else's outbox changes.
  The flag \<open>send\<close> returns says whether it returned an error.
\<close>

locale frame_sender =
  fixes send :: "'r \<Rightarrow> frame \<Rightarrow> 'w \<Rightarrow> 'w \<times> bool"
    and outbox :: "'r \<Rightarrow> 'w \<Rightarrow> bytes list"
    and room :: "'r \<Rightarrow> 'w \<Rightarrow> nat"
    and closed :: "'r \<Rightarrow> 'w \<Rightarrow> bool"
  assumes send_outbox:
      "outbox r (fst (send r f w)) = outbox r w @ (if 0 < room r w then [encode f] else [])"
    and send_room: "room r (fst (send r f w)) = room r w - 1"
    and send_error: "snd (send r f w) \<longleftrightarrow> closed r w"
    and send_closed: "closed r' (fst (send r f w)) = closed r' w"
    and closed_room: "closed r w \<Longrightarrow> room r w = 0"
    and send_other: "r' \<noteq> r \<Longrightarrow> outbox r' (fst (send r f w)) = outbox r' w"
    and send_other_room: "r' \<noteq> r \<Longrightarrow> room r' (fst (send r f w)) = room r' w"
begin

lemma sends_outbox:
  "outbox r (fold (\<lambda>f w. fst (send r f w)) fs w) = outbox r w @ map encode (take (room r w) fs)"
proof (induction fs arbitrary: w)
  case (Cons f fs)
  then show ?case
    by (cases "room r w") (simp_all add: send_outbox send_room)
qed simp

lemma sends_room: "room r (fold (\<lambda>f w. fst (send r f w)) fs w) = room r w - length fs"
  by (induction fs arbitrary: w) (simp_all add: send_room)

lemma sends_other:
  "r' \<noteq> r \<Longrightarrow> outbox r' (fold (\<lambda>f w. fst (send r f w)) fs w) = outbox r' w"
  by (induction fs arbitrary: w) (simp_all add: send_other)

lemma closed_sends_nothing: "closed r w \<Longrightarrow> outbox r (fst (send r f w)) = outbox r w"
  by (simp add: send_outbox closed_room)

end

text \<open>The hubs of the server live in a store; a sender is a reference into it.\<close>

definition store_send ::
  "nat \<Rightarrow> frame \<Rightarrow> (nat \<Rightarrow> 'h hub) \<Rightarrow> (nat \<Rightarrow> 'h hub) \<times> bool" where
  "store_send i f hs =
     (case hub_send f (hs i) of (h, r) \<Rightarrow> (hs(i := h), send_error r))"

lemma store_send_simps:
  "fst (store_send i f hs) = hs(i := fst (hub_send f (hs i)))"
  "snd (store_send i f hs) = hb_done (hs i)"
  by (simp_all add: store_send_def split_def hub_send_error)

interpretation hub_store:
  frame_sender store_send "\<lambda>i hs. hub_outbox (hs i)" "\<lambda>i hs. hub_room (hs i)"
    "\<lambda>i hs. hb_done (hs i)"
proof unfold_locales
  fix i j :: nat and f and hs :: "nat \<Rightarrow> 'a hub"
  show "hub_outbox (fst (store_send i f hs) i)
          = hub_outbox (hs i) @ (if 0 < hub_room (hs i) then [encode f] else [])"
    by (simp add: store_send_simps hub_send_outbox)
  show "hub_room (fst (store_send i f hs) i) = hub_room (hs i) - 1"
    by (simp add: store_send_simps hub_send_room)
  show "snd (store_send i f hs) \<longleftrightarrow> hb_done (hs i)"
    by (simp add: store_send_simps)
  show "hb_done (fst (store_send i f hs) j) = hb_done (hs j)"
    by (simp add: store_send_simps)
  show "hb_done (hs i) \<Longrightarrow> hub_room (hs i) = 0"
    by (simp add: hub_room_def)
  show "j \<noteq> i \<Longrightarrow> hub_outbox (fst (store_send i f hs) j) = hub_outbox (hs j)"
    by (simp add: store_send_simps)
  show "j \<noteq> i \<Longrightarrow> hub_room (fst (store_send i f hs) j) = hub_room (hs j)"
    by (simp add: store_send_simps)
qed

section \<open>The goroutines of a hub\<close>

text \<open>How far the one execution of \<open>Close\<close>'s body has come.\<close>

datatype close_phase = CloseIdle | CloseSignalled | CloseConnClosed | CloseFinished

text \<open>
  \<open>hs_pending\<close> are the \<open>Send\<close> calls that have passed the first \<open>select\<close>; the last two
  fields record history: the frames that entered the channel, in order, and all frames
  \<open>Send\<close> was called with.
\<close>

record 'h hub_sys =
  hs_hub :: "'h hub"
  hs_pending :: "frame list"
  hs_phase :: close_phase
  hs_accepted :: "frame list"
  hs_called :: "frame list"

definition hs_init :: "'h hub_sys" where
  "hs_init = \<lparr>hs_hub = hub_new, hs_pending = [], hs_phase = CloseIdle, hs_accepted = [],
              hs_called = []\<rparr>"

text \<open>A goroutine calls \<open>Close\<close>: the first one executes the body, whose first statement
  closes \<open>done\<close>.\<close>

definition call_close :: "'h hub_sys \<Rightarrow> 'h hub_sys" where
  "call_close s =
     (if hs_phase s = CloseIdle
      then s\<lparr>hs_hub := close_signal (hs_hub s), hs_phase := CloseSignalled\<rparr> else s)"

inductive hub_step :: "'h hub_sys \<Rightarrow> 'h hub_sys \<Rightarrow> bool" where
  send_refuse: "hb_done (hs_hub s) \<Longrightarrow>
     hub_step s (s\<lparr>hs_called := hs_called s @ [f]\<rparr>)"
| send_begin: "\<not> hb_done (hs_hub s) \<Longrightarrow>
     hub_step s (s\<lparr>hs_pending := f # hs_pending s, hs_called := hs_called s @ [f]\<rparr>)"
| send_end: "hs_pending s = xs @ f # ys \<Longrightarrow>
     (r, h) \<in> set (send_select (encode f) (hs_hub s)) \<Longrightarrow>
     hub_step s (s\<lparr>hs_hub := h, hs_pending := xs @ ys,
                   hs_accepted := hs_accepted s @ (if r = Queued then [f] else [])\<rparr>)"
| close_call: "hub_step s (call_close s)"
| close_2: "hs_phase s = CloseSignalled \<Longrightarrow>
     hub_step s (s\<lparr>hs_hub := close_conn (hs_hub s), hs_phase := CloseConnClosed\<rparr>)"
| close_3: "hs_phase s = CloseConnClosed \<Longrightarrow>
     hub_step s (s\<lparr>hs_hub := close_handlers (hs_hub s), hs_phase := CloseFinished\<rparr>)"
| register: "hub_step s (s\<lparr>hs_hub := hub_register c hnd (hs_hub s)\<rparr>)"
| unregister: "hub_step s (s\<lparr>hs_hub := fst (hub_unregister c (hs_hub s))\<rparr>)"
| write_ok: "hb_writer (hs_hub s) \<Longrightarrow> hb_conn (hs_hub s) \<Longrightarrow>
     hub_step s (s\<lparr>hs_hub := writer_data True (hs_hub s)\<rparr>)"
| write_fail: "hb_writer (hs_hub s) \<Longrightarrow> hb_writeCh (hs_hub s) = d # q \<Longrightarrow>
     hub_step s (call_close (s\<lparr>hs_hub := (hs_hub s)\<lparr>hb_writeCh := q, hb_writer := False\<rparr>\<rparr>))"
| ping_ok: "hb_writer (hs_hub s) \<Longrightarrow> hb_conn (hs_hub s) \<Longrightarrow>
     hub_step s (s\<lparr>hs_hub := writer_ping True (hs_hub s)\<rparr>)"
| ping_fail: "hb_writer (hs_hub s) \<Longrightarrow>
     hub_step s (call_close (s\<lparr>hs_hub := (hs_hub s)\<lparr>hb_writer := False\<rparr>\<rparr>))"
| write_close: "hb_writer (hs_hub s) \<Longrightarrow> hb_done (hs_hub s) \<Longrightarrow>
     hub_step s (s\<lparr>hs_hub := writer_done ok (hs_hub s)\<rparr>)"

abbreviation hub_run :: "'h hub_sys \<Rightarrow> 'h hub_sys \<Rightarrow> bool" where
  "hub_run \<equiv> hub_step\<^sup>*\<^sup>*"

inductive hub_reachable :: "'h hub_sys \<Rightarrow> bool" where
  reach_init: "hub_reachable hs_init"
| reach_step: "hub_reachable s \<Longrightarrow> hub_step s t \<Longrightarrow> hub_reachable t"

section \<open>The invariant of the goroutines\<close>

definition hs_queue_ok :: "'h hub_sys \<Rightarrow> bool" where
  "hs_queue_ok s \<longleftrightarrow>
     length (hb_writeCh (hs_hub s)) \<le> writeChanSize \<and>
     (\<exists>lost. map encode (hs_accepted s)
               = binaries (hb_wire (hs_hub s)) @ lost @ hb_writeCh (hs_hub s) \<and>
             length lost \<le> 1 \<and> (hb_writer (hs_hub s) \<longrightarrow> lost = []))"

definition hs_close_ok :: "'h hub_sys \<Rightarrow> bool" where
  "hs_close_ok s \<longleftrightarrow>
     (hb_done (hs_hub s) \<longleftrightarrow> hs_phase s \<noteq> CloseIdle) \<and>
     (hb_conn (hs_hub s) \<longleftrightarrow> hs_phase s \<in> {CloseIdle, CloseSignalled}) \<and>
     (hb_writer (hs_hub s) \<longrightarrow> WsClose \<notin> set (hb_wire (hs_hub s))) \<and>
     WsClose \<notin> set (butlast (hb_wire (hs_hub s)))"

definition hs_called_ok :: "'h hub_sys \<Rightarrow> bool" where
  "hs_called_ok s \<longleftrightarrow>
     set (hs_accepted s) \<subseteq> set (hs_called s) \<and> set (hs_pending s) \<subseteq> set (hs_called s)"

lemma send_select_cases:
  assumes "(r, h') \<in> set (send_select d h)"
  obtains (queued) "r = Queued" "length (hb_writeCh h) < writeChanSize"
      "h' = h\<lparr>hb_writeCh := hb_writeCh h @ [d]\<rparr>"
    | (refused) "r \<noteq> Queued" "h' = h"
  using assms by (auto simp: send_select_def Let_def split: if_splits)

lemma hs_called_ok_step: "hub_step s t \<Longrightarrow> hs_called_ok s \<Longrightarrow> hs_called_ok t"
  by (induction rule: hub_step.induct) (auto simp: hs_called_ok_def call_close_def)

lemma hs_close_ok_step: "hub_step s t \<Longrightarrow> hs_close_ok s \<Longrightarrow> hs_close_ok t"
proof (induction rule: hub_step.induct)
  case (send_end s xs f ys r h)
  then show ?case by (auto simp: hs_close_ok_def elim!: send_select_cases)
qed (auto simp: hs_close_ok_def call_close_def close_signal_def close_conn_def
      close_handlers_def hub_register_def hub_unregister_def writer_data_def writer_ping_def
      writer_done_def butlast_append split: option.splits list.splits dest: in_set_butlastD)

lemma hs_queue_ok_step: "hub_step s t \<Longrightarrow> hs_queue_ok s \<Longrightarrow> hs_queue_ok t"
proof (induction rule: hub_step.induct)
  case (send_end s xs f ys r h)
  from send_end.hyps(2) show ?case
  proof (cases rule: send_select_cases)
    case queued
    with send_end.prems show ?thesis by (auto simp: hs_queue_ok_def)
  next
    case refused
    with send_end.prems show ?thesis by (auto simp: hs_queue_ok_def)
  qed
next
  case (write_ok s)
  then show ?case
    by (cases "hb_writeCh (hs_hub s)") (auto simp: hs_queue_ok_def writer_data_def)
next
  case (write_fail s d q)
  then have "map encode (hs_accepted s) = binaries (hb_wire (hs_hub s)) @ [d] @ q"
      "length q \<le> writeChanSize"
    by (auto simp: hs_queue_ok_def)
  then have "hs_queue_ok (s\<lparr>hs_hub := (hs_hub s)\<lparr>hb_writeCh := q, hb_writer := False\<rparr>\<rparr>)"
    by (fastforce simp: hs_queue_ok_def)
  then show ?case by (simp add: hs_queue_ok_def call_close_def close_signal_def)
qed (auto simp: hs_queue_ok_def call_close_def close_signal_def close_conn_def
      close_handlers_def hub_register_def hub_unregister_def writer_ping_def
      writer_done_def split: option.splits)

lemma hs_inv_reachable:
  "hub_reachable s \<Longrightarrow> hs_queue_ok s \<and> hs_close_ok s \<and> hs_called_ok s"
proof (induction rule: hub_reachable.induct)
  case reach_init
  show ?case
    by (simp add: hs_queue_ok_def hs_close_ok_def hs_called_ok_def hs_init_def hub_new_def)
next
  case (reach_step s t)
  then show ?case
    by (blast intro: hs_queue_ok_step hs_close_ok_step hs_called_ok_step)
qed

section \<open>The sequential operations are runs of the goroutines\<close>

lemma hub_run_send:
  assumes "hub_send f (hs_hub s) = (h, r)"
  shows "hub_run s (s\<lparr>hs_hub := h, hs_called := hs_called s @ [f],
                      hs_accepted := hs_accepted s @ (if r = Queued then [f] else [])\<rparr>)"
proof (cases "hb_done (hs_hub s)")
  case True
  then have "hub_step s (s\<lparr>hs_called := hs_called s @ [f]\<rparr>)" by (rule send_refuse)
  moreover have "h = hs_hub s" "r = HubClosed" using True assms by (simp_all add: hub_send_def)
  ultimately show ?thesis by (simp add: r_into_rtranclp)
next
  case False
  let ?s1 = "s\<lparr>hs_pending := f # hs_pending s, hs_called := hs_called s @ [f]\<rparr>"
  let ?s2 = "?s1\<lparr>hs_hub := h, hs_pending := [] @ hs_pending s,
                  hs_accepted := hs_accepted ?s1 @ (if r = Queued then [f] else [])\<rparr>"
  have "hub_step s ?s1" using False by (rule send_begin)
  moreover have "hub_step ?s1 ?s2"
  proof (rule send_end)
    show "hs_pending ?s1 = [] @ f # hs_pending s" by simp
    show "(r, h) \<in> set (send_select (encode f) (hs_hub ?s1))"
      using False assms by (auto simp: hub_send_cases send_select_def split: if_splits)
  qed
  ultimately have "hub_run s ?s2" by simp
  moreover have "?s2 = s\<lparr>hs_hub := h, hs_called := hs_called s @ [f],
      hs_accepted := hs_accepted s @ (if r = Queued then [f] else [])\<rparr>"
    by (cases s) simp
  ultimately show ?thesis by metis
qed

lemma hub_run_close:
  assumes "hs_phase s = CloseIdle" "\<not> hb_done (hs_hub s)"
  shows "hub_run s (s\<lparr>hs_hub := hub_close (hs_hub s), hs_phase := CloseFinished\<rparr>)"
proof -
  let ?h1 = "close_signal (hs_hub s)"
  let ?s1 = "s\<lparr>hs_hub := ?h1, hs_phase := CloseSignalled\<rparr>"
  let ?s2 = "s\<lparr>hs_hub := close_conn ?h1, hs_phase := CloseConnClosed\<rparr>"
  have "hub_step s ?s1" using assms close_call[of s] by (simp add: call_close_def)
  moreover have "hub_step ?s1 ?s2" using close_2[of ?s1] by simp
  moreover have "hub_step ?s2 (s\<lparr>hs_hub := close_handlers (close_conn ?h1),
      hs_phase := CloseFinished\<rparr>)" using close_3[of ?s2] by simp
  ultimately have "hub_run s (s\<lparr>hs_hub := close_handlers (close_conn ?h1),
      hs_phase := CloseFinished\<rparr>)" by (meson r_into_rtranclp rtranclp.rtrancl_into_rtrancl)
  then show ?thesis using assms by (simp add: hub_close_def)
qed

text \<open>A writer that is left alone empties the queue onto the wire.\<close>

lemma hub_run_drain:
  "hb_writer (hs_hub s) \<Longrightarrow> hb_conn (hs_hub s) \<Longrightarrow>
     hub_run s (s\<lparr>hs_hub := (hs_hub s)\<lparr>hb_writeCh := [],
       hb_wire := hb_wire (hs_hub s) @ map WsBinary (hb_writeCh (hs_hub s))\<rparr>\<rparr>)"
proof (induction "hb_writeCh (hs_hub s)" arbitrary: s)
  case Nil
  then show ?case by (cases s; cases "hs_hub s") simp
next
  case (Cons d q)
  let ?t = "s\<lparr>hs_hub := writer_data True (hs_hub s)\<rparr>"
  have t: "hs_hub ?t = (hs_hub s)\<lparr>hb_writeCh := q, hb_wire := hb_wire (hs_hub s) @ [WsBinary d]\<rparr>"
    using Cons by (simp add: writer_data_def flip: Cons.hyps(2))
  have "hub_step s ?t" using Cons.prems by (rule write_ok)
  moreover have "hub_run ?t (?t\<lparr>hs_hub := (hs_hub ?t)\<lparr>hb_writeCh := [],
       hb_wire := hb_wire (hs_hub ?t) @ map WsBinary (hb_writeCh (hs_hub ?t))\<rparr>\<rparr>)"
    by (rule Cons.hyps(1)) (use t Cons.prems in simp_all)
  ultimately show ?case
    using t by (simp add: converse_rtranclp_into_rtranclp flip: Cons.hyps(2))
qed

lemma binaries_map_WsBinary [simp]: "binaries (map WsBinary ds) = ds"
  by (induction ds) simp_all

section \<open>Properties\<close>

text \<open>C6. Ordered delivery: in every reachable state of the goroutines, whatever the
  interleaving of senders, writer, pings and closing, the binary messages on the wire are the
  encodings of a prefix of the accepted frames in the order they entered the channel; the rest
  is queued, except for at most one frame that a failing write took down with the writer; the
  channel never holds more than its 256 frames, and only frames given to \<open>Send\<close> are accepted.\<close>
theorem hub_fifo:
  assumes "hub_reachable s"
  shows "length (hb_writeCh (hs_hub s)) \<le> 256 \<and> set (hs_accepted s) \<subseteq> set (hs_called s)
    \<and> (\<exists>lost. map encode (hs_accepted s)
                = binaries (hb_wire (hs_hub s)) @ lost @ hb_writeCh (hs_hub s) \<and>
              length lost \<le> 1 \<and> (hb_writer (hs_hub s) \<longrightarrow> lost = []))"
  using hs_inv_reachable[OF assms]
  by (simp add: hs_queue_ok_def hs_called_ok_def writeChanSize_def)

text \<open>What the client reads: the message that decodes at position \<open>i\<close> of the wire is the
  \<open>i\<close>-th accepted frame, provided its payload is within the 32 MB limit.\<close>
theorem hub_wire_decodes:
  assumes "hub_reachable s" "i < length (binaries (hb_wire (hs_hub s)))"
    and "length (f_payload (hs_accepted s ! i)) \<le> maxPayloadSize"
  shows "i < length (hs_accepted s)
    \<and> decodeFromBytes (binaries (hb_wire (hs_hub s)) ! i) = Inr (hs_accepted s ! i)"
proof -
  obtain lost where l: "map encode (hs_accepted s)
      = binaries (hb_wire (hs_hub s)) @ lost @ hb_writeCh (hs_hub s)"
    using hs_inv_reachable[OF assms(1)] by (auto simp: hs_queue_ok_def)
  then have "length (hs_accepted s)
      = length (binaries (hb_wire (hs_hub s))) + length (lost @ hb_writeCh (hs_hub s))"
    by (metis length_append length_map)
  then have i: "i < length (hs_accepted s)" using assms(2) by simp
  have "binaries (hb_wire (hs_hub s)) ! i = map encode (hs_accepted s) ! i"
    using l assms(2) by (simp add: nth_append)
  then have "binaries (hb_wire (hs_hub s)) ! i = encode (hs_accepted s ! i)" using i by simp
  then show ?thesis using i assms(3) by (simp add: decodeFromBytes_ok_iff)
qed

text \<open>C16. Shutdown: \<open>done\<close> is closed exactly when a \<open>Close\<close> has begun, the connection is closed
  only after that, at most one close message is written and nothing follows it on the wire.\<close>
theorem hub_shutdown:
  assumes "hub_reachable s"
  shows "(hb_done (hs_hub s) \<longleftrightarrow> hs_phase s \<noteq> CloseIdle)
    \<and> (\<not> hb_conn (hs_hub s) \<longrightarrow> hb_done (hs_hub s))
    \<and> WsClose \<notin> set (butlast (hb_wire (hs_hub s)))
    \<and> (WsClose \<in> set (hb_wire (hs_hub s)) \<longrightarrow> \<not> hb_writer (hs_hub s))"
  using hs_inv_reachable[OF assms] by (auto simp: hs_close_ok_def)

text \<open>C27. Progress: while the writer runs on an open connection, some run of the goroutines
  puts every accepted frame on the wire, in order, and leaves the queue empty.\<close>
theorem hub_drains:
  assumes "hub_reachable s" "hb_writer (hs_hub s)" "hb_conn (hs_hub s)"
  shows "\<exists>t. hub_run s t \<and> hb_writeCh (hs_hub t) = [] \<and> hs_accepted t = hs_accepted s
           \<and> binaries (hb_wire (hs_hub t)) = map encode (hs_accepted s)"
proof (intro exI conjI)
  let ?t = "s\<lparr>hs_hub := (hs_hub s)\<lparr>hb_writeCh := [],
       hb_wire := hb_wire (hs_hub s) @ map WsBinary (hb_writeCh (hs_hub s))\<rparr>\<rparr>"
  show "hub_run s ?t" using assms(2,3) by (rule hub_run_drain)
  show "binaries (hb_wire (hs_hub ?t)) = map encode (hs_accepted s)"
    using hs_inv_reachable[OF assms(1)] assms(2) by (auto simp: hs_queue_ok_def)
qed simp_all

text \<open>C9. \<open>Send\<close> as one call: on a closed hub it returns an error and changes nothing; on an
  open hub it returns no error, and the frame's encoding is appended to the channel if there
  is room and silently dropped if the 256 places are taken. It is a run of the goroutines.\<close>
theorem hub_send_contract:
  "hub_send f (hs_hub s) =
     (if hb_done (hs_hub s) then (hs_hub s, HubClosed)
      else if length (hb_writeCh (hs_hub s)) < 256
        then ((hs_hub s)\<lparr>hb_writeCh := hb_writeCh (hs_hub s) @ [encode f]\<rparr>, Queued)
      else (hs_hub s, Dropped))
   \<and> (send_error (snd (hub_send f (hs_hub s))) \<longleftrightarrow> hb_done (hs_hub s))
   \<and> hub_run s (s\<lparr>hs_hub := fst (hub_send f (hs_hub s)), hs_called := hs_called s @ [f],
        hs_accepted := hs_accepted s
          @ (if snd (hub_send f (hs_hub s)) = Queued then [f] else [])\<rparr>)"
proof (intro conjI)
  show "hub_run s (s\<lparr>hs_hub := fst (hub_send f (hs_hub s)), hs_called := hs_called s @ [f],
        hs_accepted := hs_accepted s
          @ (if snd (hub_send f (hs_hub s)) = Queued then [f] else [])\<rparr>)"
    by (rule hub_run_send) simp
qed (simp_all add: hub_send_cases send_error_def writeChanSize_def)

text \<open>Routing: the read loop hands a message to a handler exactly when it is the canonical
  encoding of a frame within the limit and that handler is the one registered for the frame's
  channel; the frame handed over is the one encoded.\<close>
theorem hub_routes:
  "hub_dispatch m h = Dispatch hnd f \<longleftrightarrow>
     m = InBinary (encode f) \<and> length (f_payload f) \<le> maxPayloadSize \<and>
     hb_handlers h (f_chan f) = Some hnd"
proof -
  have "hub_dispatch (InBinary d) h = Dispatch hnd f \<longleftrightarrow>
          decodeFromBytes d = Inr f \<and> hb_handlers h (f_chan f) = Some hnd" for d
    by (auto simp: hub_dispatch_def split: sum.splits option.splits)
  then show ?thesis
    by (cases m) (auto simp: hub_dispatch_def decodeFromBytes_ok_iff)
qed

section \<open>Witnesses\<close>

definition demo_frame :: frame where
  "demo_frame = \<lparr>f_type = FramePong, f_chan = 0, f_payload = []\<rparr>"

definition demo_state :: "nat hub_sys" where
  "demo_state = hs_init\<lparr>hs_hub := hub_new\<lparr>hb_writeCh := [], hb_wire := [WsBinary (encode demo_frame)]\<rparr>,
     hs_called := [demo_frame], hs_accepted := [demo_frame]\<rparr>"

lemma demo_reachable: "hub_reachable demo_state"
proof -
  have run: "hub_reachable t" if "hub_run s t" "hub_reachable s" for s t :: "nat hub_sys"
    using that by (induction rule: rtranclp_induct) (auto intro: reach_step)
  have s: "hub_send demo_frame (hs_hub (hs_init :: nat hub_sys))
      = (hub_new\<lparr>hb_writeCh := [encode demo_frame]\<rparr>, Queued)"
    by (simp add: hub_send_cases hs_init_def hub_new_def writeChanSize_def)
  let ?s1 = "(hs_init :: nat hub_sys)\<lparr>hs_hub := hub_new\<lparr>hb_writeCh := [encode demo_frame]\<rparr>,
     hs_called := [demo_frame], hs_accepted := [demo_frame]\<rparr>"
  have "hub_reachable ?s1"
    using run[OF hub_run_send[OF s] reach_init] by (simp add: hs_init_def)
  moreover have "hub_run ?s1 demo_state"
    using hub_run_drain[of ?s1] by (simp add: hub_new_def demo_state_def hs_init_def)
  ultimately show ?thesis using run by blast
qed

theorem hub_fifo_witness: "length (hb_writeCh (hs_hub demo_state)) \<le> 256"
  using hub_fifo[OF demo_reachable] by simp

theorem hub_wire_decodes_witness:
  "decodeFromBytes (binaries (hb_wire (hs_hub demo_state)) ! 0) = Inr demo_frame"
  using hub_wire_decodes[OF demo_reachable, of 0]
  by (simp add: demo_state_def demo_frame_def)

theorem hub_shutdown_witness: "hb_done (hs_hub demo_state) \<longleftrightarrow> hs_phase demo_state \<noteq> CloseIdle"
  using hub_shutdown[OF demo_reachable] by simp

theorem hub_drains_witness:
  "\<exists>t. hub_run demo_state t \<and> binaries (hb_wire (hs_hub t)) = [encode demo_frame]"
  using hub_drains[OF demo_reachable] by (auto simp: demo_state_def hub_new_def)

end
