(* ===== verification/Go_Text.thy ===== *)
theory Go_Text
  imports Wd_Prelude "HOL-Library.Char_ord"
begin

text \<open>
  The functions of Go's \<open>strings\<close> and \<open>strconv\<close> packages that the sources call, on strings
  as byte sequences. White space is Unicode white space: its multi-byte UTF-8 encodings are
  listed, so \<open>TrimSpace\<close> and \<open>Fields\<close> agree with Go on non-ASCII input too.
\<close>

section \<open>Prefixes, suffixes, splitting\<close>

definition has_prefix :: "string \<Rightarrow> string \<Rightarrow> bool" where
  "has_prefix s p \<longleftrightarrow> take (length p) s = p"

definition has_suffix :: "string \<Rightarrow> string \<Rightarrow> bool" where
  "has_suffix s p \<longleftrightarrow> length p \<le> length s \<and> drop (length s - length p) s = p"

definition trim_prefix :: "string \<Rightarrow> string \<Rightarrow> string" where
  "trim_prefix s p = (if has_prefix s p then drop (length p) s else s)"

definition trim_suffix :: "string \<Rightarrow> string \<Rightarrow> string" where
  "trim_suffix s p = (if has_suffix s p then take (length s - length p) s else s)"

text \<open>\<open>strings.Split(s, sep)\<close> for a one-byte separator; never the empty list.\<close>

fun split_on :: "char \<Rightarrow> string \<Rightarrow> string list" where
  "split_on c [] = [[]]"
| "split_on c (x # xs) =
     (if x = c then [] # split_on c xs
      else case split_on c xs of [] \<Rightarrow> [[x]] | w # ws \<Rightarrow> (x # w) # ws)"

fun join :: "string \<Rightarrow> string list \<Rightarrow> string" where
  "join sep [] = []"
| "join sep [w] = w"
| "join sep (w # v # ws) = w @ sep @ join sep (v # ws)"

text \<open>\<open>strings.Index(s, sub)\<close> as an option instead of -1.\<close>

fun index_of :: "'a list \<Rightarrow> 'a list \<Rightarrow> nat option" where
  "index_of [] sub = (if sub = [] then Some 0 else None)"
| "index_of (x # xs) sub =
     (if take (length sub) (x # xs) = sub then Some 0 else map_option Suc (index_of xs sub))"

text \<open>
  The lines a \<open>bufio.Scanner\<close> returns: without their line ends, no empty line after the last
  newline, and the scan stops at a line that does not fit its 64 KB buffer.
\<close>

definition raw_lines :: "string \<Rightarrow> string list" where
  "raw_lines s =
     (let ls = split_on CHR 0x0A s in if last ls = [] then butlast ls else ls)"

definition scan_lines :: "string \<Rightarrow> string list" where
  "scan_lines s =
     map (\<lambda>l. trim_suffix l [CHR 0x0D]) (takeWhile (\<lambda>l. length l < 65536) (raw_lines s))"

section \<open>White space\<close>

definition space_encodings :: "string list" where
  "space_encodings =
     [[CHR 0x09], [CHR 0x0A], [CHR 0x0B], [CHR 0x0C], [CHR 0x0D], [CHR 0x20],
      [CHR 0xC2, CHR 0x85], [CHR 0xC2, CHR 0xA0], [CHR 0xE1, CHR 0x9A, CHR 0x80],
      [CHR 0xE2, CHR 0x80, CHR 0x80], [CHR 0xE2, CHR 0x80, CHR 0x81],
      [CHR 0xE2, CHR 0x80, CHR 0x82], [CHR 0xE2, CHR 0x80, CHR 0x83],
      [CHR 0xE2, CHR 0x80, CHR 0x84], [CHR 0xE2, CHR 0x80, CHR 0x85],
      [CHR 0xE2, CHR 0x80, CHR 0x86], [CHR 0xE2, CHR 0x80, CHR 0x87],
      [CHR 0xE2, CHR 0x80, CHR 0x88], [CHR 0xE2, CHR 0x80, CHR 0x89],
      [CHR 0xE2, CHR 0x80, CHR 0x8A], [CHR 0xE2, CHR 0x80, CHR 0xA8],
      [CHR 0xE2, CHR 0x80, CHR 0xA9], [CHR 0xE2, CHR 0x80, CHR 0xAF],
      [CHR 0xE2, CHR 0x81, CHR 0x9F], [CHR 0xE3, CHR 0x80, CHR 0x80]]"

text \<open>How many bytes of white space a string starts with: one encoded rune, or 0.\<close>

fun match_len :: "string list \<Rightarrow> string \<Rightarrow> nat" where
  "match_len [] s = 0"
| "match_len (p # ps) s = (if has_prefix s p then length p else match_len ps s)"

fun trim_with :: "string list \<Rightarrow> string \<Rightarrow> string" where
  "trim_with ps [] = []"
| "trim_with ps (c # cs) =
     (let n = match_len ps (c # cs)
      in if n = 0 then c # cs else trim_with ps (drop (n - 1) cs))"

definition trim_space :: "string \<Rightarrow> string" where
  "trim_space s =
     rev (trim_with (map rev space_encodings) (rev (trim_with space_encodings s)))"

fun fields_acc :: "string \<Rightarrow> string \<Rightarrow> string list" where
  "fields_acc acc [] = (if acc = [] then [] else [rev acc])"
| "fields_acc acc (c # cs) =
     (let n = match_len space_encodings (c # cs)
      in if n = 0 then fields_acc (c # acc) cs
         else (if acc = [] then [] else [rev acc]) @ fields_acc [] (drop (n - 1) cs))"

definition fields :: "string \<Rightarrow> string list" where
  "fields s = fields_acc [] s"

section \<open>Numbers\<close>

definition is_digit :: "char \<Rightarrow> bool" where
  "is_digit c \<longleftrightarrow> CHR ''0'' \<le> c \<and> c \<le> CHR ''9''"

definition digit_val :: "char \<Rightarrow> nat" where
  "digit_val c = of_char c - 48"

definition digit_char :: "nat \<Rightarrow> char" where
  "digit_char d = char_of (48 + d)"

fun nat_of_dec :: "nat \<Rightarrow> string \<Rightarrow> nat" where
  "nat_of_dec v [] = v"
| "nat_of_dec v (c # cs) = nat_of_dec (10 * v + digit_val c) cs"

text \<open>
  \<open>strconv.ParseUint(s, 10, bits)\<close>: the value and whether an error came with it. A syntax
  error gives 0, a value out of range gives the largest one.
\<close>

definition parse_uint :: "nat \<Rightarrow> string \<Rightarrow> nat \<times> bool" where
  "parse_uint bits s =
     (if s = [] \<or> \<not> list_all is_digit s then (0, True)
      else if nat_of_dec 0 s < 2 ^ bits then (nat_of_dec 0 s, False)
      else (2 ^ bits - 1, True))"

text \<open>\<open>%d\<close> and \<open>strconv.Itoa\<close> of a non-negative number.\<close>

fun dec_of_nat :: "nat \<Rightarrow> string" where
  "dec_of_nat n =
     (if n < 10 then [digit_char n] else dec_of_nat (n div 10) @ [digit_char (n mod 10)])"

declare dec_of_nat.simps [simp del]

section \<open>Facts\<close>

lemma split_on_neq_Nil [simp]: "split_on c s \<noteq> []"
  by (induction s) (auto split: list.splits)

lemma join_split_on [simp]: "join [c] (split_on c s) = s"
proof (induction s)
  case (Cons x xs)
  then show ?case
    by (cases "split_on c xs"; cases "tl (split_on c xs)") auto
qed simp

lemma split_on_no_sep: "c \<notin> set s \<Longrightarrow> split_on c s = [s]"
  by (induction s) auto

lemma split_on_append: "c \<notin> set w \<Longrightarrow> split_on c (w @ c # s) = w # split_on c s"
  by (induction w) auto

lemma split_on_join:
  "ws \<noteq> [] \<Longrightarrow> \<forall>w \<in> set ws. c \<notin> set w \<Longrightarrow> split_on c (join [c] ws) = ws"
  by (induction "[c]" ws rule: join.induct) (auto simp: split_on_no_sep split_on_append)

lemma split_on_pieces: "w \<in> set (split_on c s) \<Longrightarrow> c \<notin> set w"
  by (induction s arbitrary: w) (auto split: if_splits list.splits)

lemma has_prefix_iff: "has_prefix s p \<longleftrightarrow> (\<exists>t. s = p @ t)"
  unfolding has_prefix_def by (metis append_eq_conv_conj append_take_drop_id)

lemma has_suffix_iff: "has_suffix s p \<longleftrightarrow> (\<exists>t. s = t @ p)"
proof
  assume "has_suffix s p"
  then have "s = take (length s - length p) s @ p"
    by (metis append_take_drop_id has_suffix_def)
  then show "\<exists>t. s = t @ p" ..
qed (auto simp: has_suffix_def)

lemma digit_char_range: "d < 10 \<Longrightarrow> is_digit (digit_char d) \<and> digit_val (digit_char d) = d"
  by (simp add: is_digit_def digit_val_def digit_char_def less_eq_char_def
      take_bit_nat_eq_self)

lemma nat_of_dec_snoc: "nat_of_dec v (s @ [c]) = 10 * nat_of_dec v s + digit_val c"
  by (induction s arbitrary: v) simp_all

lemma dec_of_nat_digits: "list_all is_digit (dec_of_nat n) \<and> dec_of_nat n \<noteq> []"
proof (induction n rule: dec_of_nat.induct)
  case (1 n)
  then show ?case
    by (subst (1 2) dec_of_nat.simps) (auto simp: digit_char_range)
qed

lemma nat_of_dec_of_nat: "nat_of_dec 0 (dec_of_nat n) = n"
proof (induction n rule: dec_of_nat.induct)
  case (1 n)
  show ?case
  proof (cases "n < 10")
    case True
    then show ?thesis by (subst dec_of_nat.simps) (simp add: digit_char_range)
  next
    case False
    with 1 have "nat_of_dec 0 (dec_of_nat (n div 10)) = n div 10" by simp
    with False show ?thesis
      by (subst dec_of_nat.simps) (simp add: nat_of_dec_snoc digit_char_range)
  qed
qed

lemma parse_uint_dec_of_nat: "n < 2 ^ bits \<Longrightarrow> parse_uint bits (dec_of_nat n) = (n, False)"
  using dec_of_nat_digits[of n] by (simp add: parse_uint_def nat_of_dec_of_nat)

lemma parse_uint_bound: "fst (parse_uint bits s) < 2 ^ bits"
  by (simp add: parse_uint_def)

lemma split_on_lines:
  "\<forall>l \<in> set ls. c \<notin> set l \<Longrightarrow> split_on c (concat (map (\<lambda>l. l @ [c]) ls)) = ls @ [[]]"
  by (induction ls) (simp_all add: split_on_append)

lemma trim_suffix_other: "x \<notin> set s \<Longrightarrow> trim_suffix s [x] = s"
  by (auto simp: trim_suffix_def has_suffix_iff)

text \<open>Lines written with a final newline each are read back.\<close>

lemma scan_lines_written:
  assumes "\<forall>l \<in> set ls. CHR 0x0A \<notin> set l \<and> CHR 0x0D \<notin> set l \<and> length l < 65536"
  shows "scan_lines (concat (map (\<lambda>l. l @ [CHR 0x0A]) ls)) = ls"
proof -
  have "raw_lines (concat (map (\<lambda>l. l @ [CHR 0x0A]) ls)) = ls"
    using assms by (simp add: raw_lines_def split_on_lines)
  moreover have "takeWhile (\<lambda>l. length l < 65536) ls = ls"
    using assms by (simp add: takeWhile_eq_all_conv)
  moreover have "map (\<lambda>l. trim_suffix l [CHR 0x0D]) ls = ls"
    using assms by (induction ls) (simp_all add: trim_suffix_other)
  ultimately show ?thesis by (simp only: scan_lines_def)
qed

section \<open>Fields of a line\<close>

text \<open>A byte that neither is white space nor begins an encoded white-space rune.\<close>

definition plain_char :: "char \<Rightarrow> bool" where
  "plain_char c \<longleftrightarrow> c \<notin> hd ` set space_encodings"

lemma match_len_plain: "plain_char c \<Longrightarrow> match_len space_encodings (c # cs) = 0"
  by (simp add: plain_char_def space_encodings_def has_prefix_def)

lemma fields_acc_word:
  "list_all plain_char w \<Longrightarrow> fields_acc acc (w @ s) = fields_acc (rev w @ acc) s"
  by (induction w arbitrary: acc) (simp_all add: match_len_plain)

lemma match_len_blank: "match_len space_encodings (CHR 0x20 # s) = 1"
  by (simp add: space_encodings_def has_prefix_def)

lemma fields_blank: "fields (CHR 0x20 # s) = fields s"
  by (simp add: fields_def match_len_blank)

lemma fields_word:
  assumes "list_all plain_char w" "w \<noteq> []"
  shows "fields (w @ CHR 0x20 # s) = w # fields s" "fields w = [w]"
  using fields_acc_word[OF assms(1), of "[]" "CHR 0x20 # s"]
    fields_acc_word[OF assms(1), of "[]" "[]"] assms(2)
  by (simp_all add: fields_def match_len_blank)

lemma fields_join:
  "list_all (\<lambda>w. list_all plain_char w \<and> w \<noteq> []) ws \<Longrightarrow> fields (join [CHR 0x20] ws) = ws"
  by (induction "[CHR 0x20]" ws rule: join.induct) (simp_all add: fields_word, simp add: fields_def)

lemma digit_plain: "is_digit c \<Longrightarrow> plain_char c"
  by (auto simp: plain_char_def space_encodings_def is_digit_def less_eq_char_def)

end
