(* ===== verification/Go_Json.thy ===== *)
theory Go_Json
  imports Go_Text
begin

text \<open>
  What the sources use of Go's \<open>encoding/json\<close>: \<open>Unmarshal\<close> of an object into a struct
  with integer and string fields, and \<open>Marshal\<close> of the structs and maps the server sends.
  The scanner accepts RFC 8259 texts nested at most 10000 deep; field names match
  case-insensitively; \<open>null\<close> leaves a field unchanged; a value of the wrong type or out of
  range makes \<open>Unmarshal\<close> fail.
\<close>

section \<open>Values\<close>

datatype json =
    JNull
  | JBool bool
  | JNum string                     \<comment> \<open>the literal\<close>
  | JStr string
  | JArr "json list"
  | JObj "(string \<times> json) list"    \<comment> \<open>in the order of the text\<close>

section \<open>UTF-8\<close>

text \<open>The length of the valid UTF-8 encoding a string starts with, 0 if there is none.\<close>

definition in_range :: "nat \<Rightarrow> nat \<Rightarrow> char \<Rightarrow> bool" where
  "in_range lo hi c \<longleftrightarrow> lo \<le> of_char c \<and> of_char c \<le> hi"

abbreviation utf8_cont :: "char \<Rightarrow> bool" where
  "utf8_cont \<equiv> in_range 0x80 0xBF"

definition utf8_len :: "string \<Rightarrow> nat" where
  "utf8_len s =
     (case s of
        [] \<Rightarrow> 0
      | c0 # r \<Rightarrow>
          if in_range 0 0x7F c0 then 1
          else case r of
            [] \<Rightarrow> 0
          | c1 # r1 \<Rightarrow>
              if in_range 0xC2 0xDF c0 then (if utf8_cont c1 then 2 else 0)
              else case r1 of
                [] \<Rightarrow> 0
              | c2 # r2 \<Rightarrow>
                  if in_range 0xE0 0xEF c0 then
                    (if utf8_cont c2 \<and>
                        in_range (if c0 = CHR 0xE0 then 0xA0 else 0x80)
                          (if c0 = CHR 0xED then 0x9F else 0xBF) c1
                     then 3 else 0)
                  else case r2 of
                    [] \<Rightarrow> 0
                  | c3 # _ \<Rightarrow>
                      if in_range 0xF0 0xF4 c0 \<and> utf8_cont c2 \<and> utf8_cont c3 \<and>
                         in_range (if c0 = CHR 0xF0 then 0x90 else 0x80)
                           (if c0 = CHR 0xF4 then 0x8F else 0xBF) c1
                      then 4 else 0)"

abbreviation utf8_error :: string where
  "utf8_error \<equiv> [CHR 0xEF, CHR 0xBF, CHR 0xBD]"

text \<open>Every byte that starts no valid encoding becomes U+FFFD.\<close>

fun utf8_sanitize :: "string \<Rightarrow> string" where
  "utf8_sanitize [] = []"
| "utf8_sanitize (c # cs) =
     (let n = utf8_len (c # cs)
      in if n = 0 then utf8_error @ utf8_sanitize cs
         else c # take (n - 1) cs @ utf8_sanitize (drop (n - 1) cs))"

definition utf8_encode :: "nat \<Rightarrow> string" where
  "utf8_encode r =
     (if r < 0x80 then [char_of r]
      else if r < 0x800 then [char_of (0xC0 + r div 64), char_of (0x80 + r mod 64)]
      else if r < 0x10000 then
        [char_of (0xE0 + r div 4096), char_of (0x80 + r div 64 mod 64),
         char_of (0x80 + r mod 64)]
      else
        [char_of (0xF0 + r div 262144), char_of (0x80 + r div 4096 mod 64),
         char_of (0x80 + r div 64 mod 64), char_of (0x80 + r mod 64)])"

section \<open>String literals\<close>

text \<open>A literal is a list of bytes and \<open>\uXXXX\<close> code units.\<close>

datatype lit_elem = LByte char | LUnit nat

definition is_high :: "nat \<Rightarrow> bool" where
  "is_high u \<longleftrightarrow> 0xD800 \<le> u \<and> u \<le> 0xDBFF"

definition is_low :: "nat \<Rightarrow> bool" where
  "is_low u \<longleftrightarrow> 0xDC00 \<le> u \<and> u \<le> 0xDFFF"

fun lit_bytes :: "lit_elem list \<Rightarrow> string" where
  "lit_bytes [] = []"
| "lit_bytes (LByte c # es) = c # lit_bytes es"
| "lit_bytes (LUnit u # LUnit v # es) =
     (if is_high u \<and> is_low v
      then utf8_encode (0x10000 + (u - 0xD800) * 1024 + (v - 0xDC00)) @ lit_bytes es
      else (if is_high u \<or> is_low u then utf8_error else utf8_encode u)
             @ lit_bytes (LUnit v # es))"
| "lit_bytes (LUnit u # es) =
     (if is_high u \<or> is_low u then utf8_error else utf8_encode u) @ lit_bytes es"

definition unquote :: "lit_elem list \<Rightarrow> string" where
  "unquote es = utf8_sanitize (lit_bytes es)"

section \<open>Tokens\<close>

datatype json_token =
    TBeginObj | TEndObj | TBeginArr | TEndArr | TColon | TComma
  | TValue json

datatype lex_state =
    LexIdle
  | LexStr "lit_elem list"              \<comment> \<open>inside a literal, elements reversed\<close>
  | LexEsc "lit_elem list"              \<comment> \<open>after a backslash\<close>
  | LexHex "lit_elem list" nat nat      \<comment> \<open>hex digits left, value so far\<close>
  | LexNum string                       \<comment> \<open>reversed\<close>
  | LexWord string                      \<comment> \<open>reversed\<close>

definition json_space :: "char \<Rightarrow> bool" where
  "json_space c \<longleftrightarrow> c \<in> {CHR '' '', CHR 0x09, CHR 0x0A, CHR 0x0D}"

definition hex_val :: "char \<Rightarrow> nat option" where
  "hex_val c =
     (if is_digit c then Some (of_char c - 48)
      else if in_range 0x41 0x46 c then Some (of_char c - 55)
      else if in_range 0x61 0x66 c then Some (of_char c - 87)
      else None)"

definition simple_escape :: "char \<Rightarrow> char option" where
  "simple_escape c =
     map_of [(CHR ''b'', CHR 0x08), (CHR ''f'', CHR 0x0C), (CHR ''n'', CHR 0x0A),
             (CHR ''r'', CHR 0x0D), (CHR ''t'', CHR 0x09), (CHR 0x5C, CHR 0x5C),
             (CHR ''/'', CHR ''/''), (CHR 0x22, CHR 0x22)] c"

definition valid_number :: "string \<Rightarrow> bool" where
  "valid_number s =
     (let s1 = (if has_prefix s ''-'' then drop 1 s else s);
          ip = takeWhile is_digit s1;
          r = dropWhile is_digit s1;
          frac_ok = (has_prefix r ''.'' \<longrightarrow> takeWhile is_digit (drop 1 r) \<noteq> []);
          r2 = (if has_prefix r ''.'' then dropWhile is_digit (drop 1 r) else r);
          has_exp = (has_prefix r2 ''e'' \<or> has_prefix r2 ''E'');
          r3 = drop 1 r2;
          r4 = (if has_prefix r3 ''+'' \<or> has_prefix r3 ''-'' then drop 1 r3 else r3);
          exp_ok = (if has_exp then r4 \<noteq> [] \<and> list_all is_digit r4 else r2 = [])
      in ip \<noteq> [] \<and> (has_prefix ip ''0'' \<longrightarrow> length ip = 1) \<and> frac_ok \<and> exp_ok)"

definition num_char :: "char \<Rightarrow> bool" where
  "num_char c \<longleftrightarrow> is_digit c \<or> c \<in> {CHR ''-'', CHR ''+'', CHR ''.'', CHR ''e'', CHR ''E''}"

definition num_token :: "string \<Rightarrow> json_token list option" where
  "num_token s = (if valid_number s then Some [TValue (JNum s)] else None)"

definition word_token :: "string \<Rightarrow> json_token list option" where
  "word_token s =
     map_of [(''true'', [TValue (JBool True)]), (''false'', [TValue (JBool False)]),
             (''null'', [TValue JNull])] s"

text \<open>What the idle scanner does with one character: tokens it emits and its next state.\<close>

definition lex_idle :: "char \<Rightarrow> (json_token list \<times> lex_state) option" where
  "lex_idle c =
     (if json_space c then Some ([], LexIdle)
      else if c = CHR ''{'' then Some ([TBeginObj], LexIdle)
      else if c = CHR ''}'' then Some ([TEndObj], LexIdle)
      else if c = CHR ''['' then Some ([TBeginArr], LexIdle)
      else if c = CHR '']'' then Some ([TEndArr], LexIdle)
      else if c = CHR '':'' then Some ([TColon], LexIdle)
      else if c = CHR '','' then Some ([TComma], LexIdle)
      else if c = CHR 0x22 then Some ([], LexStr [])
      else if is_digit c \<or> c = CHR ''-'' then Some ([], LexNum [c])
      else if in_range 0x61 0x7A c then Some ([], LexWord [c])
      else None)"

fun lex_step :: "lex_state \<Rightarrow> char \<Rightarrow> (json_token list \<times> lex_state) option" where
  "lex_step LexIdle c = lex_idle c"
| "lex_step (LexStr es) c =
     (if c = CHR 0x22 then Some ([TValue (JStr (unquote (rev es)))], LexIdle)
      else if c = CHR 0x5C then Some ([], LexEsc es)
      else if in_range 0 0x1F c then None
      else Some ([], LexStr (LByte c # es)))"
| "lex_step (LexEsc es) c =
     (if c = CHR ''u'' then Some ([], LexHex es 4 0)
      else map_option (\<lambda>d. ([], LexStr (LByte d # es))) (simple_escape c))"
| "lex_step (LexHex es n v) c =
     (case hex_val c of
        None \<Rightarrow> None
      | Some d \<Rightarrow>
          let v' = 16 * v + d
          in Some ([], if n \<le> 1 then LexStr (LUnit v' # es) else LexHex es (n - 1) v'))"
| "lex_step (LexNum ds) c =
     (if num_char c then Some ([], LexNum (c # ds))
      else case (num_token (rev ds), lex_idle c) of
        (Some t, Some (ts, st)) \<Rightarrow> Some (t @ ts, st)
      | _ \<Rightarrow> None)"
| "lex_step (LexWord w) c =
     (if in_range 0x61 0x7A c then Some ([], LexWord (c # w))
      else case (word_token (rev w), lex_idle c) of
        (Some t, Some (ts, st)) \<Rightarrow> Some (t @ ts, st)
      | _ \<Rightarrow> None)"

fun lex_end :: "lex_state \<Rightarrow> json_token list option" where
  "lex_end LexIdle = Some []"
| "lex_end (LexNum ds) = num_token (rev ds)"
| "lex_end (LexWord w) = word_token (rev w)"
| "lex_end _ = None"

fun lex :: "lex_state \<Rightarrow> string \<Rightarrow> json_token list option" where
  "lex st [] = lex_end st"
| "lex st (c # cs) =
     (case lex_step st c of
        None \<Rightarrow> None
      | Some (ts, st') \<Rightarrow> map_option (\<lambda>us. ts @ us) (lex st' cs))"

section \<open>Parsing\<close>

text \<open>The open containers around the current position, innermost first.\<close>

datatype json_ctx =
    CArr "json list"                          \<comment> \<open>elements so far, reversed\<close>
  | CObj "(string \<times> json) list" string     \<comment> \<open>fields so far, reversed; key being read\<close>

datatype json_state =
    PNeed                                     \<comment> \<open>a value must follow\<close>
  | PNeedOrEnd                                \<comment> \<open>after an opening bracket\<close>
  | PKeyOrEnd                                 \<comment> \<open>after an opening brace\<close>
  | PKey "(string \<times> json) list"
  | PColon "(string \<times> json) list" string
  | PDone json                                \<comment> \<open>a value is complete\<close>

definition max_depth :: nat where
  "max_depth = 10000"

fun need_value :: "json_ctx list \<Rightarrow> json_token \<Rightarrow> (json_ctx list \<times> json_state) option" where
  "need_value st (TValue v) = Some (st, PDone v)"
| "need_value st TBeginArr =
     (if length st < max_depth then Some (CArr [] # st, PNeedOrEnd) else None)"
| "need_value st TBeginObj =
     (if length st < max_depth then Some (st, PKeyOrEnd) else None)"
| "need_value st _ = None"

fun parse_step :: "json_ctx list \<Rightarrow> json_state \<Rightarrow> json_token \<Rightarrow> (json_ctx list \<times> json_state) option"
where
  "parse_step st PNeed t = need_value st t"
| "parse_step (CArr [] # st) PNeedOrEnd TEndArr = Some (st, PDone (JArr []))"
| "parse_step st PNeedOrEnd t = need_value st t"
| "parse_step st PKeyOrEnd TEndObj = Some (st, PDone (JObj []))"
| "parse_step st PKeyOrEnd (TValue (JStr k)) = Some (st, PColon [] k)"
| "parse_step st (PKey fs) (TValue (JStr k)) = Some (st, PColon fs k)"
| "parse_step st (PColon fs k) TColon = Some (CObj fs k # st, PNeed)"
| "parse_step (CArr vs # st) (PDone v) TComma = Some (CArr (v # vs) # st, PNeed)"
| "parse_step (CArr vs # st) (PDone v) TEndArr = Some (st, PDone (JArr (rev (v # vs))))"
| "parse_step (CObj fs k # st) (PDone v) TComma = Some (st, PKey ((k, v) # fs))"
| "parse_step (CObj fs k # st) (PDone v) TEndObj = Some (st, PDone (JObj (rev ((k, v) # fs))))"
| "parse_step st ps t = None"

fun parse :: "json_ctx list \<Rightarrow> json_state \<Rightarrow> json_token list \<Rightarrow> json option" where
  "parse [] (PDone v) [] = Some v"
| "parse st ps [] = None"
| "parse st ps (t # ts) =
     (case parse_step st ps t of None \<Rightarrow> None | Some (st', ps') \<Rightarrow> parse st' ps' ts)"

definition json_of_string :: "string \<Rightarrow> json option" where
  "json_of_string s = Option.bind (lex LexIdle s) (parse [] PNeed)"

section \<open>Unmarshal into a struct\<close>

text \<open>
  Field names match after folding case: ASCII letters, and the two non-ASCII letters whose
  simple folding is an ASCII letter (U+017F and U+212A).
\<close>

fun fold_name :: "string \<Rightarrow> string" where
  "fold_name [] = []"
| "fold_name (c # cs) =
     (if has_prefix (c # cs) [CHR 0xC5, CHR 0xBF] then CHR ''S'' # fold_name (drop 1 cs)
      else if has_prefix (c # cs) [CHR 0xE2, CHR 0x84, CHR 0xAA]
        then CHR ''K'' # fold_name (drop 2 cs)
      else (if in_range 0x61 0x7A c then char_of (of_char c - 32 :: nat) else c) # fold_name cs)"

definition field_values :: "string \<Rightarrow> (string \<times> json) list \<Rightarrow> json list" where
  "field_values name fs = map snd (filter (\<lambda>(k, v). fold_name k = fold_name name) fs)"

text \<open>The values of a repeated field are stored one after the other; one bad value is an
  error of the whole \<open>Unmarshal\<close>.\<close>

fun store_values :: "('a \<Rightarrow> json \<Rightarrow> 'a option) \<Rightarrow> 'a \<Rightarrow> json list \<Rightarrow> 'a option" where
  "store_values put x [] = Some x"
| "store_values put x (v # vs) = Option.bind (put x v) (\<lambda>y. store_values put y vs)"

fun put_uint :: "nat \<Rightarrow> 'a::len word \<Rightarrow> json \<Rightarrow> 'a word option" where
  "put_uint bits x JNull = Some x"
| "put_uint bits x (JNum s) =
     (case parse_uint 64 s of (n, e) \<Rightarrow>
        if e \<or> 2 ^ bits \<le> n then None else Some (word_of_nat n))"
| "put_uint bits x _ = None"

fun put_string :: "string \<Rightarrow> json \<Rightarrow> string option" where
  "put_string x JNull = Some x"
| "put_string x (JStr s) = Some s"
| "put_string x _ = None"

definition u16_field :: "string \<Rightarrow> (string \<times> json) list \<Rightarrow> u16 option" where
  "u16_field name fs = store_values (put_uint 16) 0 (field_values name fs)"

definition u32_field :: "string \<Rightarrow> (string \<times> json) list \<Rightarrow> u32 option" where
  "u32_field name fs = store_values (put_uint 32) 0 (field_values name fs)"

definition string_field :: "string \<Rightarrow> (string \<times> json) list \<Rightarrow> string option" where
  "string_field name fs = store_values put_string [] (field_values name fs)"

text \<open>The fields a payload offers to a struct: \<open>null\<close> offers none, another value that is
  not an object is an error.\<close>

definition unmarshal_fields :: "bytes \<Rightarrow> (string \<times> json) list option" where
  "unmarshal_fields p =
     (case json_of_string (string_of_bytes p) of
        Some (JObj fs) \<Rightarrow> Some fs
      | Some JNull \<Rightarrow> Some []
      | _ \<Rightarrow> None)"

section \<open>Marshal\<close>

definition hex_digit :: "nat \<Rightarrow> char" where
  "hex_digit d = (if d < 10 then char_of (48 + d) else char_of (87 + d))"

definition escape_ascii :: "char \<Rightarrow> string" where
  "escape_ascii c =
     (if c = CHR 0x22 \<or> c = CHR 0x5C then [CHR 0x5C, c]
      else if c = CHR 0x08 then [CHR 0x5C, CHR ''b'']
      else if c = CHR 0x0C then [CHR 0x5C, CHR ''f'']
      else if c = CHR 0x0A then [CHR 0x5C, CHR ''n'']
      else if c = CHR 0x0D then [CHR 0x5C, CHR ''r'']
      else if c = CHR 0x09 then [CHR 0x5C, CHR ''t'']
      else if in_range 0 0x1F c \<or> c \<in> {CHR ''<'', CHR ''>'', CHR ''&''} then
        [CHR 0x5C, CHR ''u'', CHR ''0'', CHR ''0'', hex_digit (of_char c div 16),
         hex_digit (of_char c mod 16)]
      else [c])"

fun quote_body :: "string \<Rightarrow> string" where
  "quote_body [] = []"
| "quote_body (c # cs) =
     (let n = utf8_len (c # cs)
      in if n = 0 then CHR 0x5C # ''ufffd'' @ quote_body cs
         else if n = 1 then escape_ascii c @ quote_body cs
         else (if take n (c # cs) = [CHR 0xE2, CHR 0x80, CHR 0xA8] then CHR 0x5C # ''u2028''
               else if take n (c # cs) = [CHR 0xE2, CHR 0x80, CHR 0xA9] then CHR 0x5C # ''u2029''
               else take n (c # cs)) @ quote_body (drop (n - 1) cs))"

definition quote :: "string \<Rightarrow> string" where
  "quote s = CHR 0x22 # quote_body s @ [CHR 0x22]"

fun render :: "json \<Rightarrow> string" where
  "render JNull = ''null''"
| "render (JBool b) = (if b then ''true'' else ''false'')"
| "render (JNum s) = s"
| "render (JStr s) = quote s"
| "render (JArr vs) = ''['' @ join '','' (map render vs) @ '']''"
| "render (JObj fs) =
     ''{'' @ join '','' (map (\<lambda>(k, v). quote k @ '':'' @ render v) fs) @ ''}''"

definition marshal :: "json \<Rightarrow> bytes" where
  "marshal j = bytes_of_string (render j)"

definition json_nat :: "nat \<Rightarrow> json" where
  "json_nat n = JNum (dec_of_nat n)"

definition json_int :: "int \<Rightarrow> json" where
  "json_int i = JNum (if i < 0 then ''-'' @ dec_of_nat (nat (- i)) else dec_of_nat (nat i))"

end
