(* ===== verification/Pty_Session.thy ===== *)
theory Pty_Session
  imports Ring_Buffer Ws_Hub Go_Json
begin

text \<open>
  \<open>internal/pty/session.go\<close>: a terminal session. It owns a shell on a pseudo terminal, the
  ring buffer of its last output and, while a client is connected, a sender for live output.
  The sender is any implementation of the \<open>Send\<close> interface: the operations take it as an
  argument \<open>send\<close> acting on a world \<open>'w\<close>, and sessions hold references \<open>'r\<close> to senders.
  What the operating system answers (the user database, starting a process, whether a write
  to the terminal succeeds) is an argument of the operations.
\<close>

section \<open>The login shell\<close>

fun passwd_shell :: "string \<Rightarrow> string list \<Rightarrow> string" where
  "passwd_shell username [] = ''/bin/sh''"
| "passwd_shell username (line # lines) =
     (if has_prefix line ''#'' then passwd_shell username lines
      else
        let fs = split_on CHR '':'' line
        in if length fs \<ge> 7 \<and> fs ! 0 = username then
             (let shell = fs ! 6
              in if shell \<noteq> '''' then shell else passwd_shell username lines)
           else passwd_shell username lines)"

text \<open>The argument is the content of \<open>/etc/passwd\<close>, \<open>None\<close> when it cannot be opened.\<close>

definition lookupLoginShell :: "string option \<Rightarrow> string \<Rightarrow> string" where
  "lookupLoginShell etc_passwd username =
     (case etc_passwd of
        None \<Rightarrow> ''/bin/sh''
      | Some content \<Rightarrow> passwd_shell username (scan_lines content))"

section \<open>Starting a session\<close>

definition DefaultRingCap :: int where
  "DefaultRingCap = push_bit 20 1"

record os_user =
  u_uid :: string
  u_gid :: string
  u_home :: string

text \<open>The command handed to the pseudo terminal library.\<close>

record command =
  cmd_path :: string
  cmd_args :: "string list"
  cmd_env :: "string list"
  cmd_dir :: string
  cmd_setsid :: bool
  cmd_credential :: "(u32 \<times> u32) option"

text \<open>The answers of the operating system and of the pseudo terminal library.\<close>

record pty_os =
  os_lookup :: "string \<Rightarrow> string + os_user"
  os_passwd :: "string option"
  os_uid :: u32
  os_gid :: u32
  os_start :: "command \<Rightarrow> string option"    \<comment> \<open>an error, or the process runs\<close>

datatype pty_err =
    LookupUser string string
  | ParseUid string
  | ParseGid string
  | StartPty string

datatype reader_pc = RChecking | RReading | RStopped

record 'r session =
  ss_chan :: u16
  ss_user :: string
  ss_cmd :: command
  ss_ring :: ringbuf
  ss_sender :: "'r option"
  ss_done :: bool                        \<comment> \<open>\<open>Close\<close> has run\<close>
  ss_killed :: bool                      \<comment> \<open>the process group got SIGKILL\<close>
  ss_ptmx :: bool                        \<comment> \<open>the master side is open\<close>
  ss_input :: bytes                      \<comment> \<open>bytes written to the terminal\<close>
  ss_size :: "(u16 \<times> u16) option"       \<comment> \<open>columns and rows last set\<close>
  ss_reader :: reader_pc

definition session_env :: "string \<Rightarrow> string \<Rightarrow> string \<Rightarrow> string list" where
  "session_env home username shell =
     [''HOME='' @ home, ''USER='' @ username, ''LOGNAME='' @ username, ''SHELL='' @ shell,
      ''TERM=xterm-256color'', ''LANG=C.UTF-8'', ''LC_ALL=C.UTF-8'',
      ''PATH=/usr/local/sbin:/usr/local/bin:/usr/sbin:/usr/bin:/sbin:/bin'']"

definition session_command :: "pty_os \<Rightarrow> string \<Rightarrow> string \<Rightarrow> string \<Rightarrow> pty_err + command" where
  "session_command os username shell0 cwd0 =
     (case os_lookup os username of
        Inl e \<Rightarrow> Inl (LookupUser username e)
      | Inr u \<Rightarrow>
          (case (parse_uint 32 (u_uid u), parse_uint 32 (u_gid u)) of
             ((uid64, uerr), (gid64, gerr)) \<Rightarrow>
               if uerr then Inl (ParseUid (u_uid u))
               else if gerr then Inl (ParseGid (u_gid u))
               else
                 let uid = word_of_nat uid64 :: u32;
                     gid = word_of_nat gid64 :: u32;
                     shell = (if shell0 = '''' then lookupLoginShell (os_passwd os) username
                              else shell0);
                     cwd = (if cwd0 = '''' then u_home u else cwd0)
                 in Inr \<lparr>cmd_path = shell, cmd_args = [''-i''],
                        cmd_env = session_env (u_home u) username shell, cmd_dir = cwd,
                        cmd_setsid = True,
                        cmd_credential =
                          (if os_uid os \<noteq> uid \<or> os_gid os \<noteq> gid then Some (uid, gid) else None)\<rparr>))"

definition session_new ::
  "pty_os \<Rightarrow> u16 \<Rightarrow> string \<Rightarrow> string \<Rightarrow> string \<Rightarrow> pty_err + 'r session" where
  "session_new os chanID username shell cwd =
     (case session_command os username shell cwd of
        Inl e \<Rightarrow> Inl e
      | Inr cmd \<Rightarrow>
          (case os_start os cmd of
             Some e \<Rightarrow> Inl (StartPty e)
           | None \<Rightarrow>
               Inr \<lparr>ss_chan = chanID, ss_user = username, ss_cmd = cmd,
                     ss_ring = the (rb_new DefaultRingCap), ss_sender = None, ss_done = False,
                     ss_killed = False, ss_ptmx = True, ss_input = [], ss_size = None,
                     ss_reader = RChecking\<rparr>))"

section \<open>Operations\<close>

definition data_frame :: "u16 \<Rightarrow> bytes \<Rightarrow> frame" where
  "data_frame c data = \<lparr>f_type = FrameData, f_chan = c, f_payload = data\<rparr>"

text \<open>\<open>Attach\<close>, under the sender's mutex: replay the ring buffer, then set the sender.\<close>

definition session_attach ::
  "('r \<Rightarrow> frame \<Rightarrow> 'w \<Rightarrow> 'w \<times> bool) \<Rightarrow> 'r \<Rightarrow> 'r session \<times> 'w \<Rightarrow> 'r session \<times> 'w" where
  "session_attach send r sw =
     (case sw of (s, w) \<Rightarrow>
        let data = rb_bytes (ss_ring s);
            w' = (if length data > 0 then fst (send r (data_frame (ss_chan s) data) w) else w)
        in (s\<lparr>ss_sender := Some r\<rparr>, w'))"

definition session_detach :: "'r session \<Rightarrow> 'r session" where
  "session_detach s = s\<lparr>ss_sender := None\<rparr>"

text \<open>\<open>Setsize\<close> on the master; its error is ignored by \<open>Resize\<close>.\<close>

definition session_resize :: "u16 \<Rightarrow> u16 \<Rightarrow> 'r session \<Rightarrow> 'r session" where
  "session_resize cols rows s = (if ss_ptmx s then s\<lparr>ss_size := Some (cols, rows)\<rparr> else s)"

datatype session_err = WritePtmx | ParseResize | SetSize

text \<open>\<open>ResizeMsg\<close> as \<open>json.Unmarshal\<close> fills it: columns and rows.\<close>

definition unmarshal_ResizeMsg :: "bytes \<Rightarrow> (u16 \<times> u16) option" where
  "unmarshal_ResizeMsg p =
     Option.bind (unmarshal_fields p) (\<lambda>fs.
     Option.bind (u16_field ''cols'' fs) (\<lambda>cols.
     Option.bind (u16_field ''rows'' fs) (\<lambda>rows. Some (cols, rows))))"

text \<open>\<open>os_ok\<close>: the kernel accepts the write or the new size. A closed master always refuses.\<close>

definition session_handle_frame ::
  "bool \<Rightarrow> frame \<Rightarrow> 'r session \<Rightarrow> 'r session \<times> session_err option" where
  "session_handle_frame os_ok f s =
     (if f_type f = FrameData then
        (if ss_ptmx s \<and> os_ok then (s\<lparr>ss_input := ss_input s @ f_payload f\<rparr>, None)
         else (s, Some WritePtmx))
      else if f_type f = FramePTYResize then
        (case unmarshal_ResizeMsg (f_payload f) of
           None \<Rightarrow> (s, Some ParseResize)
         | Some (cols0, rows0) \<Rightarrow>
             let cols = (if cols0 = 0 then 80 else cols0);
                 rows = (if rows0 = 0 then 24 else rows0)
             in if ss_ptmx s \<and> os_ok then (s\<lparr>ss_size := Some (cols, rows)\<rparr>, None)
                else (s, Some SetSize))
      else (s, None))"

text \<open>\<open>Close\<close>, once: signal \<open>done\<close>, kill the process group, close the master.\<close>

definition session_close :: "'r session \<Rightarrow> 'r session" where
  "session_close s =
     (if ss_done s then s
      else s\<lparr>ss_done := True, ss_killed := True, ss_ptmx := False\<rparr>)"

text \<open>
  One iteration of the reader goroutine is two actions: the test of \<open>done\<close>, and what
  follows a \<open>Read\<close> that returned \<open>data\<close> and possibly an error.
\<close>

definition readBufSize :: nat where
  "readBufSize = 4096"

definition reader_check :: "'r session \<Rightarrow> 'r session" where
  "reader_check s = s\<lparr>ss_reader := (if ss_done s then RStopped else RReading)\<rparr>"

definition reader_read ::
  "('r \<Rightarrow> frame \<Rightarrow> 'w \<Rightarrow> 'w \<times> bool) \<Rightarrow> bytes \<Rightarrow> bool \<Rightarrow> 'r session \<times> 'w \<Rightarrow> 'r session \<times> 'w"
where
  "reader_read send data err sw =
     (case sw of (s, w) \<Rightarrow>
        let s1 = (if length data > 0 then s\<lparr>ss_ring := rb_write data (ss_ring s)\<rparr> else s);
            w1 = (if length data > 0 then
                    (case ss_sender s of
                       None \<Rightarrow> w
                     | Some r \<Rightarrow> fst (send r (data_frame (ss_chan s) data) w))
                  else w)
        in (s1\<lparr>ss_reader := (if err then RStopped else RChecking)\<rparr>, w1))"

section \<open>Runs of a session\<close>

text \<open>What can happen to a session, one atomic action each.\<close>

datatype 'r sess_event =
    SAttach 'r | SDetach | SCheck | SRead bytes bool | SFrame bool frame
  | SResize u16 u16 | SClose

fun sess_apply ::
  "('r \<Rightarrow> frame \<Rightarrow> 'w \<Rightarrow> 'w \<times> bool) \<Rightarrow> 'r sess_event \<Rightarrow> 'r session \<times> 'w \<Rightarrow> 'r session \<times> 'w"
where
  "sess_apply send (SAttach r) sw = session_attach send r sw"
| "sess_apply send SDetach sw = (session_detach (fst sw), snd sw)"
| "sess_apply send SCheck sw = (reader_check (fst sw), snd sw)"
| "sess_apply send (SRead data err) sw = reader_read send data err sw"
| "sess_apply send (SFrame ok f) sw = (fst (session_handle_frame ok f (fst sw)), snd sw)"
| "sess_apply send (SResize c r) sw = (session_resize c r (fst sw), snd sw)"
| "sess_apply send SClose sw = (session_close (fst sw), snd sw)"

definition sess_run where
  "sess_run send evs sw = fold (sess_apply send) evs sw"

text \<open>The output of the terminal during a run, read by read.\<close>

fun sess_output :: "'r sess_event list \<Rightarrow> bytes list" where
  "sess_output [] = []"
| "sess_output (SRead data err # evs) = data # sess_output evs"
| "sess_output (_ # evs) = sess_output evs"

lemma sess_run_simps [simp]:
  "sess_run send [] sw = sw"
  "sess_run send (e # evs) sw = sess_run send evs (sess_apply send e sw)"
  by (simp_all add: sess_run_def)

definition ring_ok :: "'r session \<Rightarrow> bool" where
  "ring_ok s \<longleftrightarrow> rb_inv (ss_ring s) \<and> rb_cap (ss_ring s) = 1048576"

lemma ring_new_default:
  obtains rb where "rb_new DefaultRingCap = Some rb" "rb_inv rb" "rb_cap rb = 1048576"
    "rb_bytes rb = []"
proof -
  have c: "DefaultRingCap = 1048576" by (simp add: DefaultRingCap_def)
  then obtain rb where rb: "rb_new DefaultRingCap = Some rb" by (simp add: rb_new_def)
  then have "rb_inv rb" by (rule rb_inv_new)
  moreover have "rb_abs rb = [] \<and> rb_cap rb = 1048576" using rb_abs_new[OF rb] c by simp
  ultimately show ?thesis using rb that by (simp add: rb_bytes_abs)
qed

lemma session_new_ring:
  assumes "session_new os c u sh cwd = Inr s"
  shows "ring_ok s" "rb_bytes (ss_ring s) = []" "ss_sender s = None" "ss_chan s = c"
    "\<not> ss_done s" "ss_ptmx s" "ss_size s = None" "ss_input s = []" "ss_user s = u"
proof -
  obtain rb where "rb_new DefaultRingCap = Some rb" "rb_inv rb" "rb_cap rb = 1048576"
      "rb_bytes rb = []"
    by (rule ring_new_default)
  then show "ring_ok s" "rb_bytes (ss_ring s) = []" "ss_sender s = None" "ss_chan s = c"
      "\<not> ss_done s" "ss_ptmx s" "ss_size s = None" "ss_input s = []" "ss_user s = u"
    using assms by (auto simp: session_new_def ring_ok_def split: sum.splits option.splits)
qed

text \<open>No operation but the reader's touches the ring buffer; none changes the channel.\<close>

lemma session_ops_ring [simp]:
  "ss_ring (fst (session_attach send r sw)) = ss_ring (fst sw)"
  "ss_ring (session_detach s) = ss_ring s"
  "ss_ring (session_resize c rw s) = ss_ring s"
  "ss_ring (fst (session_handle_frame ok f s)) = ss_ring s"
  "ss_ring (session_close s) = ss_ring s"
  "ss_ring (reader_check s) = ss_ring s"
  by (auto simp: session_attach_def session_detach_def session_resize_def session_close_def
      session_handle_frame_def reader_check_def Let_def split: prod.splits option.splits)

lemma session_ops_chan [simp]:
  "ss_chan (fst (session_attach send r sw)) = ss_chan (fst sw)"
  "ss_chan (session_detach s) = ss_chan s"
  "ss_chan (session_resize c rw s) = ss_chan s"
  "ss_chan (fst (session_handle_frame ok f s)) = ss_chan s"
  "ss_chan (session_close s) = ss_chan s"
  "ss_chan (reader_check s) = ss_chan s"
  "ss_chan (fst (reader_read send data err sw)) = ss_chan (fst sw)"
  by (auto simp: session_attach_def session_detach_def session_resize_def session_close_def
      session_handle_frame_def reader_check_def reader_read_def Let_def
      split: prod.splits option.splits)

lemma session_ops_sender [simp]:
  "ss_sender (fst (session_attach send r sw)) = Some r"
  "ss_sender (session_detach s) = None"
  "ss_sender (session_resize c rw s) = ss_sender s"
  "ss_sender (fst (session_handle_frame ok f s)) = ss_sender s"
  "ss_sender (session_close s) = ss_sender s"
  "ss_sender (reader_check s) = ss_sender s"
  "ss_sender (fst (reader_read send data err sw)) = ss_sender (fst sw)"
  by (auto simp: session_attach_def session_detach_def session_resize_def session_close_def
      session_handle_frame_def reader_check_def reader_read_def Let_def
      split: prod.splits option.splits)

lemma reader_read_ring:
  "ss_ring (fst (reader_read send data err sw)) = rb_write data (ss_ring (fst sw))"
  by (auto simp: reader_read_def rb_write_def Let_def split: prod.splits)

lemma sess_apply_chan [simp]: "ss_chan (fst (sess_apply send e sw)) = ss_chan (fst sw)"
  by (cases e) simp_all

lemma sess_run_chan [simp]: "ss_chan (fst (sess_run send evs sw)) = ss_chan (fst sw)"
  by (induction evs arbitrary: sw) simp_all

lemma sess_apply_ring:
  "ss_ring (fst (sess_apply send e sw)) = fold rb_write (sess_output [e]) (ss_ring (fst sw))"
  by (cases e) (simp_all add: reader_read_ring)

lemma sess_output_Cons: "sess_output (e # evs) = sess_output [e] @ sess_output evs"
  by (cases e) simp_all

text \<open>Whatever happens to a session, its ring buffer is the log of its output.\<close>

lemma sess_run_ring:
  "ss_ring (fst (sess_run send evs sw)) = fold rb_write (sess_output evs) (ss_ring (fst sw))"
proof (induction evs arbitrary: sw)
  case (Cons e evs)
  then show ?case
    using sess_output_Cons[of e evs] by (simp add: sess_apply_ring)
qed simp

lemma sess_run_log:
  assumes "ring_ok (fst sw)"
  shows "ring_ok (fst (sess_run send evs sw))"
    "rb_bytes (ss_ring (fst (sess_run send evs sw)))
       = last_n 1048576 (rb_bytes (ss_ring (fst sw)) @ concat (sess_output evs))"
  using assms ring.writes_invar[of "ss_ring (fst sw)"] ring.writes_cap[of "ss_ring (fst sw)"]
    ring.writes_contents[of "ss_ring (fst sw)"]
  by (auto simp: ring_ok_def sess_run_ring)

section \<open>What an attached client receives\<close>

text \<open>Events that leave the sender alone.\<close>

fun keeps_sender :: "'r sess_event \<Rightarrow> bool" where
  "keeps_sender (SAttach r) = False"
| "keeps_sender SDetach = False"
| "keeps_sender _ = True"

definition chunks :: "bytes list \<Rightarrow> bytes list" where
  "chunks ds = filter (\<lambda>d. d \<noteq> []) ds"

lemma concat_chunks [simp]: "concat (chunks ds) = concat ds"
  by (induction ds) (simp_all add: chunks_def)

lemma chunks_Nil [simp]: "chunks [] = []"
  by (simp add: chunks_def)

context frame_sender
begin

lemma attach_outbox:
  assumes "d = rb_bytes (ss_ring s)"
  shows "outbox r (snd (session_attach send r (s, w)))
           = outbox r w @ map (encode \<circ> data_frame (ss_chan s)) (take (room r w) (chunks [d]))"
    "room r (snd (session_attach send r (s, w))) = room r w - length (chunks [d])"
  using assms
  by (cases "room r w"; auto simp: session_attach_def Let_def chunks_def send_outbox send_room)+

lemma read_outbox:
  assumes "ss_sender s = Some r"
  shows "outbox r (snd (reader_read send d err (s, w)))
           = outbox r w @ map (encode \<circ> data_frame (ss_chan s)) (take (room r w) (chunks [d]))"
    "room r (snd (reader_read send d err (s, w))) = room r w - length (chunks [d])"
  using assms
  by (cases "room r w"; auto simp: reader_read_def Let_def chunks_def send_outbox send_room)+

lemma live_outbox:
  assumes "ss_sender (fst sw) = Some r" "list_all keeps_sender evs"
  shows "outbox r (snd (sess_run send evs sw))
           = outbox r (snd sw) @ map (encode \<circ> data_frame (ss_chan (fst sw)))
               (take (room r (snd sw)) (chunks (sess_output evs)))"
  using assms
proof (induction evs arbitrary: sw)
  case (Cons e evs)
  obtain s w where sw: "sw = (s, w)" by (cases sw)
  have snd': "ss_sender (fst (sess_apply send e sw)) = Some r"
    using Cons.prems by (cases e) simp_all
  note IH = Cons.IH[OF snd']
  show ?case
  proof (cases "\<exists>d err. e = SRead d err")
    case True
    then obtain d err where e: "e = SRead d err" by blast
    show ?thesis
      using IH Cons.prems read_outbox[of s r d err w]
      by (simp add: e sw chunks_def take_Cons' flip: map_append)
  next
    case False
    with Cons.prems have "snd (sess_apply send e sw) = snd sw" "sess_output (e # evs) = sess_output evs"
      by (cases e; simp)+
    then show ?thesis using IH Cons.prems by simp
  qed
qed simp

text \<open>Attaching and then staying attached: the replayed log, then the live output.\<close>

lemma attach_live_outbox:
  assumes "list_all keeps_sender evs"
  shows "outbox r (snd (sess_run send evs (session_attach send r (s, w))))
           = outbox r w @ map (encode \<circ> data_frame (ss_chan s))
               (take (room r w) (chunks (rb_bytes (ss_ring s) # sess_output evs)))"
proof -
  let ?d = "rb_bytes (ss_ring s)"
  have c: "chunks (?d # sess_output evs) = chunks [?d] @ chunks (sess_output evs)"
    by (simp add: chunks_def)
  show ?thesis
    using live_outbox[of "session_attach send r (s, w)" r evs] assms attach_outbox[of ?d s r w]
    by (simp add: c take_append)
qed

end

section \<open>Closing, input and window size\<close>

lemma session_close_done: "ss_done (session_close s)"
  by (simp add: session_close_def)

text \<open>\<open>Close\<close> sets three flags together, once.\<close>

definition sess_flags_ok :: "'r session \<Rightarrow> bool" where
  "sess_flags_ok s \<longleftrightarrow> ss_killed s = ss_done s \<and> ss_ptmx s = (\<not> ss_done s)"

lemmas session_op_defs = session_attach_def session_detach_def reader_check_def
  reader_read_def session_handle_frame_def session_resize_def session_close_def

lemma sess_apply_flags: "sess_flags_ok (fst sw) \<Longrightarrow> sess_flags_ok (fst (sess_apply send e sw))"
  by (cases e) (auto simp: sess_flags_ok_def session_op_defs Let_def
      split: prod.splits option.splits)

lemma sess_apply_closed:
  assumes "ss_done (fst sw)" "sess_flags_ok (fst sw)"
  shows "ss_done (fst (sess_apply send e sw))"
    "ss_input (fst (sess_apply send e sw)) = ss_input (fst sw)"
    "ss_size (fst (sess_apply send e sw)) = ss_size (fst sw)"
  using assms
  by (cases e; auto simp: sess_flags_ok_def session_op_defs Let_def
      split: prod.splits option.splits)+

lemma sess_run_closed:
  assumes "ss_done (fst sw)" "sess_flags_ok (fst sw)"
  shows "ss_done (fst (sess_run send evs sw)) \<and> sess_flags_ok (fst (sess_run send evs sw)) \<and>
    ss_input (fst (sess_run send evs sw)) = ss_input (fst sw) \<and>
    ss_size (fst (sess_run send evs sw)) = ss_size (fst sw)"
  using assms
  by (induction evs arbitrary: sw) (simp_all add: sess_apply_closed sess_apply_flags)

lemma sess_run_flags: "sess_flags_ok (fst sw) \<Longrightarrow> sess_flags_ok (fst (sess_run send evs sw))"
  by (induction evs arbitrary: sw) (simp_all add: sess_apply_flags)

lemma session_new_flags: "session_new os c u sh cwd = Inr s \<Longrightarrow> sess_flags_ok s"
  by (auto simp: session_new_def sess_flags_ok_def split: sum.splits option.splits)

definition size_ok :: "'r session \<Rightarrow> bool" where
  "size_ok s \<longleftrightarrow> (\<forall>c r. ss_size s = Some (c, r) \<longrightarrow> c \<noteq> 0 \<and> r \<noteq> 0)"

fun sizes_positive :: "'r sess_event \<Rightarrow> bool" where
  "sizes_positive (SResize c r) = (c > 0 \<and> r > 0)"
| "sizes_positive _ = True"

lemma sess_apply_size:
  "size_ok (fst sw) \<Longrightarrow> sizes_positive e \<Longrightarrow> size_ok (fst (sess_apply send e sw))"
  by (cases e) (auto simp: size_ok_def session_op_defs Let_def word_greater_zero_iff
      split: prod.splits option.splits)

lemma sess_run_size:
  "size_ok (fst sw) \<Longrightarrow> list_all sizes_positive evs \<Longrightarrow> size_ok (fst (sess_run send evs sw))"
  by (induction evs arbitrary: sw) (simp_all add: sess_apply_size)

text \<open>The bytes typed during a run: the data frames the terminal took.\<close>

fun typed :: "'r sess_event list \<Rightarrow> bytes" where
  "typed [] = []"
| "typed (SClose # evs) = []"
| "typed (SFrame ok f # evs) =
     (if ok \<and> f_type f = FrameData then f_payload f else []) @ typed evs"
| "typed (_ # evs) = typed evs"

lemma sess_run_typed:
  "sess_flags_ok (fst sw) \<Longrightarrow> \<not> ss_done (fst sw) \<Longrightarrow>
     ss_input (fst (sess_run send evs sw)) = ss_input (fst sw) @ typed evs"
proof (induction evs arbitrary: sw)
  case (Cons e evs)
  show ?case
  proof (cases "e = SClose")
    case True
    have "ss_done (session_close (fst sw))" by (rule session_close_done)
    then show ?thesis
      using True Cons.prems sess_run_closed[of "(session_close (fst sw), snd sw)" send evs]
        sess_apply_flags[of sw send SClose]
      by (simp add: session_close_def)
  next
    case False
    then have "\<not> ss_done (fst (sess_apply send e sw))"
      and "ss_input (fst (sess_apply send e sw)) = ss_input (fst sw) @ typed [e]"
      and "typed (e # evs) = typed [e] @ typed evs"
      using Cons.prems
      by (cases e; auto simp: sess_flags_ok_def session_op_defs Let_def
          split: prod.splits option.splits)+
    then show ?thesis
      using Cons.IH[OF sess_apply_flags[OF Cons.prems(1)], of send e] by simp
  qed
qed simp

section \<open>The login shell of a well-formed passwd file\<close>

text \<open>An entry: name, the five middle fields, shell.\<close>

definition passwd_line :: "string \<times> string list \<times> string \<Rightarrow> string" where
  "passwd_line e = (case e of (name, mid, shell) \<Rightarrow> join '':'' ([name] @ mid @ [shell]))"

definition passwd_entry_ok :: "string \<times> string list \<times> string \<Rightarrow> bool" where
  "passwd_entry_ok e \<longleftrightarrow>
     (case e of (name, mid, shell) \<Rightarrow>
        length mid = 5 \<and> \<not> has_prefix (passwd_line e) ''#'' \<and>
        (\<forall>f \<in> set ([name] @ mid @ [shell]). CHR '':'' \<notin> set f) \<and>
        CHR 0x0A \<notin> set (passwd_line e) \<and> CHR 0x0D \<notin> set (passwd_line e) \<and>
        length (passwd_line e) < 65536)"

lemma passwd_line_fields:
  "passwd_entry_ok (name, mid, shell) \<Longrightarrow>
     split_on CHR '':'' (passwd_line (name, mid, shell)) = [name] @ mid @ [shell]"
  unfolding passwd_line_def prod.case
  by (rule split_on_join) (auto simp: passwd_entry_ok_def)

lemma passwd_shell_entries:
  assumes "list_all passwd_entry_ok es"
  shows "passwd_shell user (map passwd_line es) =
    (case find (\<lambda>(name, mid, shell). name = user \<and> shell \<noteq> []) es of
       None \<Rightarrow> ''/bin/sh'' | Some (name, mid, shell) \<Rightarrow> shell)"
  using assms
proof (induction es)
  case (Cons e es)
  obtain name mid shell where e: "e = (name, mid, shell)" by (cases e)
  have ok: "passwd_entry_ok (name, mid, shell)" using Cons.prems e by simp
  then have mid: "length mid = 5" and c: "\<not> has_prefix (passwd_line e) ''#''"
    by (simp_all add: passwd_entry_ok_def e)
  have "([name] @ mid @ [shell]) ! 6 = shell" using mid by (simp add: nth_append)
  then show ?case
    using Cons passwd_line_fields[OF ok] mid c by (simp add: e Let_def)
qed simp

section \<open>Properties\<close>

text \<open>C4. Reconnecting: after any history of a session, a client that attaches receives, in one
  go and in order, the last megabyte of everything the terminal ever printed, followed by all
  its live output while it stays attached: no gap, no repetition. This holds as long as the
  connection's channel has room, and every message decodes on the other side.\<close>
theorem reconnect_replay:
  assumes "session_new os c u sh cwd = Inr s0"
    and "list_all keeps_sender live" "list_all (\<lambda>d. length d \<le> readBufSize) (sess_output live)"
    and "sess_run store_send before (s0, hs0) = (s1, hs1)"
    and "sess_run store_send live (session_attach store_send r (s1, hs1)) = (s2, hs2)"
    and "length (sess_output live) < hub_room (hs1 r)"
  shows "\<exists>parts. hub_outbox (hs2 r) = hub_outbox (hs1 r) @ map (encode \<circ> data_frame c) parts
    \<and> concat parts = last_n 1048576 (concat (sess_output before)) @ concat (sess_output live)
    \<and> map (decodeFromBytes \<circ> (encode \<circ> data_frame c)) parts = map (Inr \<circ> data_frame c) parts"
proof -
  note new = session_new_ring[OF assms(1)]
  note log = sess_run_log[of "(s0, hs0)" store_send before]
  have chan: "ss_chan s1 = c"
    using sess_run_chan[of store_send before "(s0, hs0)"] assms(4) new by simp
  define parts where "parts = chunks (rb_bytes (ss_ring s1) # sess_output live)"
  have ring: "rb_bytes (ss_ring s1) = last_n 1048576 (concat (sess_output before))"
    using log new assms(4) by simp
  have "length parts \<le> length (rb_bytes (ss_ring s1) # sess_output live)"
    unfolding parts_def chunks_def by (rule length_filter_le)
  then have "take (hub_room (hs1 r)) parts = parts" using assms(6) by simp
  then have out: "hub_outbox (hs2 r) = hub_outbox (hs1 r) @ map (encode \<circ> data_frame c) parts"
    using hub_store.attach_live_outbox[OF assms(2), of r s1 hs1] assms(5) chan
    by (simp add: parts_def)
  have cat: "concat parts = rb_bytes (ss_ring s1) @ concat (sess_output live)"
    by (simp add: parts_def)
  have "decodeFromBytes (encode (data_frame c p)) = Inr (data_frame c p)"
    if "p \<in> set parts" for p
  proof -
    have "p = rb_bytes (ss_ring s1) \<or> length p \<le> readBufSize"
      using that assms(3) by (auto simp: parts_def chunks_def list_all_iff split: if_splits)
    then have "length p \<le> maxPayloadSize"
      using ring by (auto simp: readBufSize_def maxPayloadSize_def)
    then show ?thesis by (simp add: decodeFromBytes_ok_iff data_frame_def)
  qed
  then have "map (decodeFromBytes \<circ> (encode \<circ> data_frame c)) parts = map (Inr \<circ> data_frame c) parts"
    by simp
  with out cat ring show ?thesis by auto
qed

text \<open>The log: whatever happens to a session, its ring buffer holds exactly the last megabyte
  of the terminal's output; attaching, detaching, input, resizing and closing never touch it.\<close>
theorem session_log_is_history:
  assumes "session_new os c u sh cwd = Inr s0"
  shows "rb_bytes (ss_ring (fst (sess_run send evs (s0, w))))
           = last_n 1048576 (concat (sess_output evs))"
  using sess_run_log[of "(s0, w)" send evs] session_new_ring[OF assms] by simp

text \<open>C13. Privilege: a shell that is started runs as the user it was opened for. The credential
  set on the command, or the server's own identity when none is set, is exactly the numeric
  user and group id of that user's entry in the user database, without truncation.\<close>
theorem shell_runs_as_user:
  assumes "session_command os username shell cwd = Inr cmd"
  shows "\<exists>usr. os_lookup os username = Inr usr
    \<and> (case cmd_credential cmd of
         None \<Rightarrow> unat (os_uid os) = nat_of_dec 0 (u_uid usr)
                 \<and> unat (os_gid os) = nat_of_dec 0 (u_gid usr)
       | Some (uid, gid) \<Rightarrow> unat uid = nat_of_dec 0 (u_uid usr)
                 \<and> unat gid = nat_of_dec 0 (u_gid usr))"
proof -
  obtain usr where l: "os_lookup os username = Inr usr"
    using assms by (auto simp: session_command_def split: sum.splits)
  have "\<not> snd (parse_uint 32 (u_uid usr))" "\<not> snd (parse_uint 32 (u_gid usr))"
    using assms l by (auto simp: session_command_def split: prod.splits if_splits)
  then have p: "parse_uint 32 (u_uid usr) = (nat_of_dec 0 (u_uid usr), False)"
      "parse_uint 32 (u_gid usr) = (nat_of_dec 0 (u_gid usr), False)"
    and b: "nat_of_dec 0 (u_uid usr) < 2 ^ 32" "nat_of_dec 0 (u_gid usr) < 2 ^ 32"
    by (auto simp: parse_uint_def split: if_splits)
  have n: "unat (word_of_nat m :: u32) = m" if "m < 2 ^ 32" for m
    using that by (simp add: unat_of_nat)
  show ?thesis
    using assms l p n[OF b(1)] n[OF b(2)]
    by (auto simp: session_command_def Let_def split: if_splits)
qed

text \<open>A closed session is inert: after \<open>Close\<close>, whatever follows, the process group has been
  killed, the master is closed, and no frame adds input or changes the window; writing input
  reports an error, and the reader stops at its next test.\<close>
theorem closed_session_inert:
  assumes "session_new os c u sh cwd = Inr s0"
    and "s = fst (sess_run send before (s0, w0))"
    and "t = fst (sess_run send after (session_close s, w))"
  shows "ss_done t \<and> ss_killed t \<and> \<not> ss_ptmx t \<and> ss_input t = ss_input s
    \<and> ss_size t = ss_size s
    \<and> session_handle_frame ok (data_frame d p) t = (t, Some WritePtmx)
    \<and> ss_reader (reader_check t) = RStopped"
proof -
  have "sess_flags_ok s"
    using assms session_new_flags[OF assms(1)] by (simp add: sess_run_flags)
  then have "sess_flags_ok (session_close s)" "ss_done (session_close s)"
      "ss_input (session_close s) = ss_input s" "ss_size (session_close s) = ss_size s"
    by (auto simp: session_close_def sess_flags_ok_def)
  then have "ss_done t \<and> sess_flags_ok t \<and> ss_input t = ss_input s \<and> ss_size t = ss_size s"
    using sess_run_closed[of "(session_close s, w)" send after] assms(3) by simp
  then show ?thesis
    by (simp add: sess_flags_ok_def session_handle_frame_def data_frame_def reader_check_def)
qed

text \<open>C22. Input and window size over any run of a new session. The terminal receives exactly the
  payloads of the data frames whose write succeeded before the session was closed, concatenated
  in order. If every direct call of \<open>Resize\<close> gives a size without a zero, as the control handler
  checks before it calls, the window never gets a zero dimension, whatever the resize frames say.\<close>
theorem session_input_and_size:
  assumes "session_new os c u sh cwd = Inr s0" "list_all sizes_positive evs"
  shows "ss_input (fst (sess_run send evs (s0, w))) = typed evs
    \<and> (ss_size (fst (sess_run send evs (s0, w))) = Some (cols, rows) \<longrightarrow> cols \<noteq> 0 \<and> rows \<noteq> 0)"
proof -
  note new = session_new_ring[OF assms(1)] session_new_flags[OF assms(1)]
  have "size_ok (fst (sess_run send evs (s0, w)))"
    using new by (intro sess_run_size assms(2)) (simp add: size_ok_def)
  then show ?thesis using sess_run_typed[of "(s0, w)" send evs] new by (simp add: size_ok_def)
qed

text \<open>The login shell of a user in a well-formed passwd file is the shell field of the first
  entry with that name whose shell is not empty, and \<open>/bin/sh\<close> when there is none.\<close>
theorem login_shell_of_passwd:
  assumes "list_all passwd_entry_ok es"
  shows "lookupLoginShell (Some (concat (map (\<lambda>e. passwd_line e @ [CHR 0x0A]) es))) user =
    (case find (\<lambda>(name, mid, shell). name = user \<and> shell \<noteq> []) es of
       None \<Rightarrow> ''/bin/sh'' | Some (name, mid, shell) \<Rightarrow> shell)"
proof -
  have ok: "\<forall>l \<in> set (map passwd_line es).
      CHR 0x0A \<notin> set l \<and> CHR 0x0D \<notin> set l \<and> length l < 65536"
    using assms by (auto simp: list_all_iff passwd_entry_ok_def)
  have "concat (map (\<lambda>e. passwd_line e @ [CHR 0x0A]) es)
          = concat (map (\<lambda>l. l @ [CHR 0x0A]) (map passwd_line es))"
    by (simp add: comp_def)
  then show ?thesis
    using passwd_shell_entries[OF assms, of user] scan_lines_written[OF ok]
    by (simp add: lookupLoginShell_def)
qed

section \<open>Witnesses\<close>

definition demo_os :: pty_os where
  "demo_os = \<lparr>os_lookup = (\<lambda>u. Inr \<lparr>u_uid = ''1000'', u_gid = ''100'', u_home = ''/home/a''\<rparr>),
              os_passwd = None, os_uid = 0, os_gid = 0, os_start = (\<lambda>_. None)\<rparr>"

definition demo_hubs :: "nat \<Rightarrow> nat hub" where
  "demo_hubs = (\<lambda>_. hub_new)"

lemma demo_session:
  obtains s :: "nat session" where "session_new demo_os 5 ''a'' ''/bin/bash'' '''' = Inr s"
  by (simp add: session_new_def session_command_def demo_os_def parse_uint_def is_digit_def
      less_eq_char_def digit_val_def Let_def)

theorem reconnect_replay_witness:
  "\<exists>hs2 :: nat \<Rightarrow> nat hub. \<exists>parts. hub_outbox (hs2 0) = map (encode \<circ> data_frame 5) parts
     \<and> concat parts = [104, 105, 33]"
proof -
  obtain s0 :: "nat session" where s0: "session_new demo_os 5 ''a'' ''/bin/bash'' '''' = Inr s0"
    by (rule demo_session)
  let ?before = "[SCheck, SRead [104, 105] False]" and ?live = "[SCheck, SRead [33] False]"
  obtain s1 hs1 where b: "sess_run store_send ?before (s0, demo_hubs) = (s1, hs1)" by fastforce
  have hs1: "hs1 = demo_hubs"
    using b session_new_ring(3)[OF s0]
    by (auto simp: reader_read_def reader_check_def Let_def)
  obtain s2 hs2 where l: "sess_run store_send ?live (session_attach store_send 0 (s1, hs1)) = (s2, hs2)"
    by fastforce
  have room: "length (sess_output ?live) < hub_room (hs1 0)"
    by (simp add: hs1 demo_hubs_def hub_room_def hub_new_def writeChanSize_def)
  have "hub_outbox (hs1 0) = []" by (simp add: hs1 demo_hubs_def hub_outbox_def hub_new_def)
  moreover have "list_all keeps_sender ?live"
      "list_all (\<lambda>d. length d \<le> readBufSize) (sess_output ?live)"
    by (simp_all add: readBufSize_def)
  ultimately show ?thesis
    using reconnect_replay[OF s0 _ _ b l room] by (auto simp: last_n_def)
qed

theorem session_log_is_history_witness:
  "\<exists>s0 :: nat session. rb_bytes (ss_ring (fst (sess_run store_send
     [SRead [1, 2] False, SDetach, SRead [3] True] (s0, demo_hubs)))) = [1, 2, 3]"
proof -
  obtain s0 :: "nat session" where s0: "session_new demo_os 5 ''a'' ''/bin/bash'' '''' = Inr s0"
    by (rule demo_session)
  have "rb_bytes (ss_ring (fst (sess_run store_send
     [SRead [1, 2] False, SDetach, SRead [3] True] (s0, demo_hubs)))) = [1, 2, 3]"
    unfolding session_log_is_history[OF s0] by (simp add: last_n_def)
  then show ?thesis ..
qed

theorem shell_runs_as_user_witness:
  "\<exists>cmd uid gid. session_command demo_os ''a'' ''/bin/bash'' '''' = Inr cmd
     \<and> cmd_credential cmd = Some (uid, gid) \<and> unat uid = 1000 \<and> unat gid = 100"
proof -
  obtain s0 :: "nat session" where "session_new demo_os 5 ''a'' ''/bin/bash'' '''' = Inr s0"
    by (rule demo_session)
  then obtain cmd where c: "session_command demo_os ''a'' ''/bin/bash'' '''' = Inr cmd"
    by (auto simp: session_new_def split: sum.splits)
  then obtain p where p: "cmd_credential cmd = Some p"
    by (auto simp: session_command_def demo_os_def parse_uint_def is_digit_def
        less_eq_char_def digit_val_def Let_def)
  then show ?thesis
    using shell_runs_as_user[OF c] c
    by (auto simp: demo_os_def digit_val_def split: prod.splits)
qed

theorem closed_session_inert_witness:
  "\<exists>s0 :: nat session. ss_input (fst (sess_run store_send [SFrame True (data_frame 5 [9])]
     (session_close s0, demo_hubs))) = []"
proof -
  obtain s0 :: "nat session" where s0: "session_new demo_os 5 ''a'' ''/bin/bash'' '''' = Inr s0"
    by (rule demo_session)
  have s: "s0 = fst (sess_run store_send [] (s0, demo_hubs))" by simp
  show ?thesis
    using closed_session_inert[OF s0 s refl, of "[SFrame True (data_frame 5 [9])]"
        demo_hubs] session_new_ring(8)[OF s0]
    by auto
qed

theorem session_input_and_size_witness:
  "\<exists>s0 :: nat session. ss_input (fst (sess_run store_send
     [SFrame True (data_frame 5 [9]), SClose, SFrame True (data_frame 5 [8])]
     (s0, demo_hubs))) = [9]"
proof -
  obtain s0 :: "nat session" where s0: "session_new demo_os 5 ''a'' ''/bin/bash'' '''' = Inr s0"
    by (rule demo_session)
  have "ss_input (fst (sess_run store_send
     [SFrame True (data_frame 5 [9]), SClose, SFrame True (data_frame 5 [8])]
     (s0, demo_hubs))) = typed [SFrame True (data_frame 5 [9]), SClose :: nat sess_event,
       SFrame True (data_frame 5 [8])]"
    by (rule session_input_and_size[OF s0, THEN conjunct1]) simp
  then show ?thesis by (auto simp: data_frame_def)
qed

theorem login_shell_of_passwd_witness:
  "lookupLoginShell (Some (''root:x:0:0:r:/root:/bin/ash'' @ [CHR 0x0A])) ''root'' = ''/bin/ash''"
proof -
  let ?e = "(''root'', [''x'', ''0'', ''0'', ''r'', ''/root''], ''/bin/ash'')"
  have "list_all passwd_entry_ok [?e]"
    by (simp add: passwd_entry_ok_def passwd_line_def has_prefix_def)
  then show ?thesis
    using login_shell_of_passwd[of "[?e]" "''root''"] by (simp add: passwd_line_def)
qed

end
