(* ===== verification/Port_Proxy.thy ===== *)
theory Port_Proxy
  imports Ws_Hub Go_Json
begin

text \<open>
  \<open>internal/server/proxy.go\<close>: a TCP connection tunnelled over a channel. The read loop reads
  the connection, looks up the attached hub under its mutex and only then sends, so each of
  these is an action of its own; \<open>Attach\<close>, \<open>Detach\<close>, \<open>HandleFrame\<close> and \<open>Close\<close> may come in
  between. As for terminals, a sender is a reference \<open>'r\<close> given to an operation \<open>send\<close>.
\<close>

section \<open>The session and its operations\<close>

datatype 'r proxy_pc =
    PxReading
  | PxForward "'r option" bytes bool    \<comment> \<open>the hub looked up, the data, was there an error\<close>
  | PxAtEnd
  | PxNotify "'r option"
  | PxClosing
  | PxStopped

record 'r proxy =
  px_chan :: u16
  px_target :: string
  px_hub :: "'r option"
  px_closed :: bool                     \<comment> \<open>\<open>closed\<close> is closed and \<open>once\<close> used up\<close>
  px_conn :: bool                       \<comment> \<open>the TCP connection is open\<close>
  px_written :: bytes                   \<comment> \<open>bytes written to the TCP connection\<close>
  px_pc :: "'r proxy_pc"

text \<open>\<open>dial\<close>: the error of \<open>net.DialTimeout\<close>, or the connection is made. The error returned
  wraps it together with the target.\<close>

datatype proxy_err = DialError string string

definition newPortProxySession ::
  "string option \<Rightarrow> u16 \<Rightarrow> string \<Rightarrow> 'r \<Rightarrow> proxy_err + 'r proxy" where
  "newPortProxySession dial chanID target h =
     (case dial of
        Some e \<Rightarrow> Inl (DialError target e)
      | None \<Rightarrow>
          Inr \<lparr>px_chan = chanID, px_target = target, px_hub = Some h, px_closed = False,
               px_conn = True, px_written = [], px_pc = PxReading\<rparr>)"

definition proxy_attach :: "'r \<Rightarrow> 'r proxy \<Rightarrow> 'r proxy" where
  "proxy_attach h ps = ps\<lparr>px_hub := Some h\<rparr>"

definition proxy_detach :: "'r proxy \<Rightarrow> 'r proxy" where
  "proxy_detach ps = ps\<lparr>px_hub := None\<rparr>"

definition proxy_closeConn :: "'r proxy \<Rightarrow> 'r proxy" where
  "proxy_closeConn ps = (if px_closed ps then ps else ps\<lparr>px_closed := True, px_conn := False\<rparr>)"

definition proxy_close :: "'r proxy \<Rightarrow> 'r proxy" where
  "proxy_close ps = proxy_closeConn ps"

text \<open>\<open>os_ok\<close>: the write succeeds, which it cannot on a closed connection. The flag returned
  says whether there was an error.\<close>

definition proxy_handle_frame :: "bool \<Rightarrow> frame \<Rightarrow> 'r proxy \<Rightarrow> 'r proxy \<times> bool" where
  "proxy_handle_frame os_ok f ps =
     (if f_type f = FrameData \<and> length (f_payload f) > 0 then
        (if px_conn ps \<and> os_ok then (ps\<lparr>px_written := px_written ps @ f_payload f\<rparr>, False)
         else (ps, True))
      else (ps, False))"

definition proxyBufSize :: nat where
  "proxyBufSize = 32 * 1024"

definition proxy_data_frame :: "u16 \<Rightarrow> bytes \<Rightarrow> frame" where
  "proxy_data_frame c data = \<lparr>f_type = FrameData, f_chan = c, f_payload = data\<rparr>"

definition proxy_close_frame :: "u16 \<Rightarrow> frame" where
  "proxy_close_frame c =
     \<lparr>f_type = FrameCloseProxy, f_chan = c,
      f_payload = marshal (JObj [(''channel'', json_nat (unat c))])\<rparr>"

text \<open>
  The read loop. \<open>Read\<close> answers with data and possibly an error; on a closed connection it
  answers with an error alone. Looking up the hub follows at once since no state is read
  in between.
\<close>

definition proxy_read :: "bytes \<Rightarrow> bool \<Rightarrow> 'r proxy \<Rightarrow> 'r proxy" where
  "proxy_read data0 err0 ps =
     (if px_pc ps \<noteq> PxReading then ps
      else
        let data = (if px_conn ps then take proxyBufSize data0 else []);
            err = (err0 \<or> \<not> px_conn ps)
        in if length data > 0 then ps\<lparr>px_pc := PxForward (px_hub ps) data err\<rparr>
           else ps\<lparr>px_pc := (if err then PxAtEnd else PxReading)\<rparr>)"

definition send_opt ::
  "('r \<Rightarrow> frame \<Rightarrow> 'w \<Rightarrow> 'w \<times> bool) \<Rightarrow> 'r option \<Rightarrow> frame \<Rightarrow> 'w \<Rightarrow> 'w" where
  "send_opt send h f w = (case h of None \<Rightarrow> w | Some r \<Rightarrow> fst (send r f w))"

text \<open>The remaining actions of the loop, one at a time.\<close>

definition proxy_loop ::
  "('r \<Rightarrow> frame \<Rightarrow> 'w \<Rightarrow> 'w \<times> bool) \<Rightarrow> 'r proxy \<times> 'w \<Rightarrow> 'r proxy \<times> 'w" where
  "proxy_loop send pw =
     (case pw of (ps, w) \<Rightarrow>
        (case px_pc ps of
           PxForward h data err \<Rightarrow>
             (ps\<lparr>px_pc := (if err then PxAtEnd else PxReading)\<rparr>,
              send_opt send h (proxy_data_frame (px_chan ps) data) w)
         | PxAtEnd \<Rightarrow> (ps\<lparr>px_pc := PxNotify (px_hub ps)\<rparr>, w)
         | PxNotify h \<Rightarrow>
             (ps\<lparr>px_pc := PxClosing\<rparr>, send_opt send h (proxy_close_frame (px_chan ps)) w)
         | PxClosing \<Rightarrow> ((proxy_closeConn ps)\<lparr>px_pc := PxStopped\<rparr>, w)
         | PxReading \<Rightarrow> (ps, w)
         | PxStopped \<Rightarrow> (ps, w)))"

section \<open>Runs of a proxy\<close>

datatype 'r proxy_event =
    PAttach 'r | PDetach | PRead bytes bool | PLoop | PFrame bool frame | PClose

fun proxy_apply ::
  "('r \<Rightarrow> frame \<Rightarrow> 'w \<Rightarrow> 'w \<times> bool) \<Rightarrow> 'r proxy_event \<Rightarrow> 'r proxy \<times> 'w \<Rightarrow> 'r proxy \<times> 'w"
where
  "proxy_apply send (PAttach r) pw = (proxy_attach r (fst pw), snd pw)"
| "proxy_apply send PDetach pw = (proxy_detach (fst pw), snd pw)"
| "proxy_apply send (PRead data err) pw = (proxy_read data err (fst pw), snd pw)"
| "proxy_apply send PLoop pw = proxy_loop send pw"
| "proxy_apply send (PFrame ok f) pw = (fst (proxy_handle_frame ok f (fst pw)), snd pw)"
| "proxy_apply send PClose pw = (proxy_close (fst pw), snd pw)"

fun proxy_run where
  "proxy_run send [] pw = pw"
| "proxy_run send (e # evs) pw = proxy_run send evs (proxy_apply send e pw)"

lemma proxy_run_append:
  "proxy_run send (xs @ ys) pw = proxy_run send ys (proxy_run send xs pw)"
  by (induction xs arbitrary: pw) simp_all

lemmas proxy_op_defs = proxy_attach_def proxy_detach_def proxy_closeConn_def proxy_close_def
  proxy_handle_frame_def proxy_read_def proxy_loop_def

lemma proxy_apply_chan [simp]:
  "px_chan (fst (proxy_apply send e pw)) = px_chan (fst pw)"
  "px_target (fst (proxy_apply send e pw)) = px_target (fst pw)"
  by (cases e; auto simp: proxy_op_defs Let_def split: prod.splits proxy_pc.splits)+

lemma proxy_run_chan [simp]:
  "px_chan (fst (proxy_run send evs pw)) = px_chan (fst pw)"
  "px_target (fst (proxy_run send evs pw)) = px_target (fst pw)"
  by (induction evs arbitrary: pw) simp_all

section \<open>What the loop reads and what an attached client receives\<close>

text \<open>
  The history of a run from the peer's side: the non-empty reads the loop took, in order, and
  the bytes in the frames the connection accepted before it was closed.
\<close>

fun taken :: "'r proxy_event list \<Rightarrow> 'r proxy \<Rightarrow> bytes list" where
  "taken [] ps = []"
| "taken (e # evs) ps =
     (case e of
        PRead data err \<Rightarrow>
          (if px_pc ps = PxReading \<and> px_conn ps \<and> data \<noteq> [] then [take proxyBufSize data] else [])
      | _ \<Rightarrow> []) @ taken evs (fst (proxy_apply (\<lambda>r f w. (w, False)) e (ps, ())))"

text \<open>The client's view of the loop's position: what is still owed to the attached hub.\<close>

fun in_hand :: "'r proxy_pc \<Rightarrow> bytes list" where
  "in_hand (PxForward h data err) = [data]"
| "in_hand _ = []"

fun notified :: "'r proxy_pc \<Rightarrow> bool" where
  "notified PxClosing = True"
| "notified PxStopped = True"
| "notified _ = False"

text \<open>Everything that has been handed to \<open>Send\<close> so far, given what the loop has taken.\<close>

definition proxy_frames :: "u16 \<Rightarrow> bytes list \<Rightarrow> 'r proxy_pc \<Rightarrow> frame list" where
  "proxy_frames c ds pc =
     map (proxy_data_frame c) (take (length ds - length (in_hand pc)) ds)
     @ (if notified pc then [proxy_close_frame c] else [])"

text \<open>The loop's local copy of the hub is the attached one while nobody detaches.\<close>

fun pc_hub_is :: "'r \<Rightarrow> 'r proxy_pc \<Rightarrow> bool" where
  "pc_hub_is r (PxForward h data err) \<longleftrightarrow> h = Some r"
| "pc_hub_is r (PxNotify h) \<longleftrightarrow> h = Some r"
| "pc_hub_is r _ \<longleftrightarrow> True"

fun stays_attached :: "'r \<Rightarrow> 'r proxy_event \<Rightarrow> bool" where
  "stays_attached r (PAttach r') \<longleftrightarrow> r' = r"
| "stays_attached r PDetach \<longleftrightarrow> False"
| "stays_attached r _ \<longleftrightarrow> True"

lemma fst_proxy_apply: "fst (proxy_apply send e (ps, w)) = fst (proxy_apply send' e (ps, w'))"
  by (cases e) (auto simp: proxy_loop_def split: proxy_pc.splits)

lemma taken_Cons:
  "taken (e # evs) ps = taken [e] ps @ taken evs (fst (proxy_apply send e (ps, w)))"
  using fst_proxy_apply[of "\<lambda>r f w. (w, False)" e ps "()" send w] by simp

context frame_sender
begin

text \<open>The invariant of a run during which the hub \<open>r\<close> stays attached.\<close>

definition tunnel_ok :: "'r \<Rightarrow> bytes list \<Rightarrow> nat \<Rightarrow> bytes list \<Rightarrow> 'r proxy \<Rightarrow> 'w \<Rightarrow> bool" where
  "tunnel_ok r out0 room0 ds ps w \<longleftrightarrow>
     px_hub ps = Some r \<and> pc_hub_is r (px_pc ps) \<and>
     (in_hand (px_pc ps) \<noteq> [] \<longrightarrow> ds \<noteq> [] \<and> in_hand (px_pc ps) = [last ds]) \<and>
     outbox r w = out0 @ map encode (take room0 (proxy_frames (px_chan ps) ds (px_pc ps))) \<and>
     room r w = room0 - length (proxy_frames (px_chan ps) ds (px_pc ps))"

lemma send_opt_frames:
  "outbox r w = out0 @ map encode (take room0 fs) \<Longrightarrow> room r w = room0 - length fs \<Longrightarrow>
     outbox r (send_opt send (Some r) f w) = out0 @ map encode (take room0 (fs @ [f]))
     \<and> room r (send_opt send (Some r) f w) = room0 - length (fs @ [f])"
  by (auto simp: send_opt_def send_outbox send_room)

lemma proxy_frames_forward:
  "ds \<noteq> [] \<Longrightarrow> proxy_frames c ds (PxForward h (last ds) e) @ [proxy_data_frame c (last ds)]
     = map (proxy_data_frame c) ds"
  by (cases ds rule: rev_cases) (simp_all add: proxy_frames_def)

lemma tunnel_ok_loop:
  assumes "tunnel_ok r out0 room0 ds ps w"
  shows "tunnel_ok r out0 room0 ds (fst (proxy_loop send (ps, w))) (snd (proxy_loop send (ps, w)))"
proof (cases "px_pc ps")
  case (PxForward h data err)
  then have h: "h = Some r" "ds \<noteq> []" "data = last ds" using assms by (auto simp: tunnel_ok_def)
  let ?fs = "proxy_frames (px_chan ps) ds (px_pc ps)" and ?ds = "map (proxy_data_frame (px_chan ps)) ds"
  have "?fs @ [proxy_data_frame (px_chan ps) data] = ?ds"
    unfolding PxForward h(3) by (rule proxy_frames_forward[OF h(2)])
  then have so: "outbox r (send_opt send (Some r) (proxy_data_frame (px_chan ps) data) w)
        = out0 @ map encode (take room0 ?ds)"
      "room r (send_opt send (Some r) (proxy_data_frame (px_chan ps) data) w) = room0 - length ?ds"
    using assms send_opt_frames[of r w out0 room0 ?fs "proxy_data_frame (px_chan ps) data"]
    unfolding tunnel_ok_def by (metis (no_types))+
  have pf: "proxy_frames (px_chan ps) ds (PxAtEnd :: 'r proxy_pc) = ?ds"
      "proxy_frames (px_chan ps) ds (PxReading :: 'r proxy_pc) = ?ds"
    by (simp_all add: proxy_frames_def)
  show ?thesis
    using assms h(1) so pf by (simp add: tunnel_ok_def proxy_loop_def PxForward)
next
  case (PxNotify h)
  then have h: "h = Some r" using assms by (simp add: tunnel_ok_def)
  have pf: "proxy_frames (px_chan ps) ds (PxClosing :: 'r proxy_pc)
      = proxy_frames (px_chan ps) ds (PxNotify h) @ [proxy_close_frame (px_chan ps)]"
    by (simp add: proxy_frames_def)
  show ?thesis
    using assms h send_opt_frames[of r w out0 room0
        "proxy_frames (px_chan ps) ds (PxNotify h)" "proxy_close_frame (px_chan ps)"]
    by (simp add: tunnel_ok_def proxy_loop_def PxNotify pf del: take_append map_append)
qed (use assms in \<open>auto simp: tunnel_ok_def proxy_loop_def proxy_closeConn_def proxy_frames_def\<close>)

lemma tunnel_ok_read:
  assumes "tunnel_ok r out0 room0 ds ps w"
  shows "tunnel_ok r out0 room0 (ds @ taken [PRead data err] ps) (proxy_read data err ps) w"
proof (cases "px_pc ps = PxReading")
  case True
  have b: "proxyBufSize > 0" by (simp add: proxyBufSize_def)
  show ?thesis
    using assms True b
    by (cases data) (auto simp: tunnel_ok_def proxy_read_def Let_def proxy_frames_def)
next
  case False
  then show ?thesis using assms by (simp add: proxy_read_def)
qed

lemma tunnel_ok_apply:
  assumes "tunnel_ok r out0 room0 ds ps w" "stays_attached r e"
  shows "tunnel_ok r out0 room0 (ds @ taken [e] ps) (fst (proxy_apply send e (ps, w)))
           (snd (proxy_apply send e (ps, w)))"
proof (cases e)
  case (PRead data err)
  then show ?thesis using tunnel_ok_read[OF assms(1), of data err] by simp
next
  case PLoop
  then show ?thesis using tunnel_ok_loop[OF assms(1)] by simp
qed (use assms in \<open>auto simp: tunnel_ok_def proxy_op_defs\<close>)

lemma tunnel_ok_run:
  assumes "tunnel_ok r out0 room0 ds ps w" "list_all (stays_attached r) evs"
  shows "tunnel_ok r out0 room0 (ds @ taken evs ps) (fst (proxy_run send evs (ps, w)))
           (snd (proxy_run send evs (ps, w)))"
  using assms
proof (induction evs arbitrary: ds ps w)
  case (Cons e evs)
  let ?q = "proxy_apply send e (ps, w)"
  have "tunnel_ok r out0 room0 (ds @ taken [e] ps) (fst ?q) (snd ?q)"
    using Cons.prems by (intro tunnel_ok_apply) simp_all
  from Cons.IH[OF this] Cons.prems(2) show ?case
    unfolding taken_Cons[of e evs ps send w] by simp
qed simp

end

section \<open>Input and closing\<close>

definition proxy_flags_ok :: "'r proxy \<Rightarrow> bool" where
  "proxy_flags_ok ps \<longleftrightarrow> px_conn ps = (\<not> px_closed ps) \<and> (px_pc ps = PxStopped \<longrightarrow> px_closed ps)"

lemma proxy_apply_flags: "proxy_flags_ok (fst pw) \<Longrightarrow> proxy_flags_ok (fst (proxy_apply send e pw))"
  by (cases e) (auto simp: proxy_flags_ok_def proxy_op_defs Let_def
      split: prod.splits proxy_pc.splits)

lemma proxy_run_flags: "proxy_flags_ok (fst pw) \<Longrightarrow> proxy_flags_ok (fst (proxy_run send evs pw))"
  by (induction evs arbitrary: pw) (simp_all add: proxy_apply_flags)

lemma proxy_apply_closed:
  assumes "px_closed (fst pw)" "proxy_flags_ok (fst pw)"
  shows "px_closed (fst (proxy_apply send e pw))"
    "px_written (fst (proxy_apply send e pw)) = px_written (fst pw)"
  using assms
  by (cases e; auto simp: proxy_flags_ok_def proxy_op_defs Let_def
      split: prod.splits proxy_pc.splits)+

lemma proxy_run_closed:
  assumes "px_closed (fst pw)" "proxy_flags_ok (fst pw)"
  shows "px_closed (fst (proxy_run send evs pw))
    \<and> px_written (fst (proxy_run send evs pw)) = px_written (fst pw)"
  using assms by (induction evs arbitrary: pw) (simp_all add: proxy_apply_closed proxy_apply_flags)

text \<open>The loop's own actions in a row, whatever the connection answers.\<close>

definition loop_turns :: "bytes \<Rightarrow> bool \<Rightarrow> 'r proxy_event list" where
  "loop_turns data err = [PLoop, PRead data err, PLoop, PLoop, PLoop]"

lemma closed_loop_stops:
  assumes "px_closed ps" "proxy_flags_ok ps"
  shows "px_pc (fst (proxy_run send (loop_turns data err) (ps, w))) = PxStopped"
  using assms
  by (cases "px_pc ps")
    (auto simp: loop_turns_def proxy_flags_ok_def proxy_op_defs Let_def split: prod.splits)
section \<open>Properties\<close>

text \<open>C20. Tunnelling to the client: while a hub stays attached, its connection is handed what the
  TCP connection delivers, in order and without gap or repetition, each read as one data frame
  on the proxy's channel; when the loop has ended, all of it followed by exactly one
  close-proxy frame. What exceeds the room in the hub's channel is dropped at the end.\<close>
theorem proxy_stream:
  assumes "newPortProxySession None c target r = Inr ps0"
    and "list_all (stays_attached r) evs"
    and "proxy_run store_send evs (ps0, hs0) = (ps, hs)"
  shows "hub_outbox (hs r) = hub_outbox (hs0 r)
      @ map encode (take (hub_room (hs0 r)) (proxy_frames c (taken evs ps0) (px_pc ps)))
    \<and> (px_pc ps = PxStopped \<longrightarrow> proxy_frames c (taken evs ps0) (px_pc ps)
         = map (proxy_data_frame c) (taken evs ps0) @ [proxy_close_frame c])"
proof -
  have new: "ps0 = \<lparr>px_chan = c, px_target = target, px_hub = Some r, px_closed = False,
      px_conn = True, px_written = [], px_pc = PxReading\<rparr>"
    using assms(1) by (simp add: newPortProxySession_def)
  have "px_chan ps = px_chan (fst (proxy_run store_send evs (ps0, hs0)))"
    by (simp only: assms(3) fst_conv)
  then have chan: "px_chan ps = c" by (simp add: new)
  have "hub_store.tunnel_ok r (hub_outbox (hs0 r)) (hub_room (hs0 r)) [] ps0 hs0"
    by (simp add: hub_store.tunnel_ok_def new proxy_frames_def)
  from hub_store.tunnel_ok_run[OF this assms(2)]
  show ?thesis using assms(3) chan by (simp add: hub_store.tunnel_ok_def proxy_frames_def)
qed

text \<open>Closing a proxy: after \<open>Close\<close>, whatever follows, the connection stays closed, no
  further byte is written to it and data frames report an error; and wherever the read loop
  was, its own next actions end it.\<close>
theorem proxy_close_final:
  assumes "newPortProxySession None c target r = Inr ps0"
    and "ps = fst (proxy_run send before (ps0, w0))"
    and "t = fst (proxy_run send after (proxy_close ps, w))"
  shows "px_closed t \<and> \<not> px_conn t \<and> px_written t = px_written ps
    \<and> (b \<noteq> [] \<longrightarrow> proxy_handle_frame ok (proxy_data_frame d b) t = (t, True))
    \<and> px_pc (fst (proxy_run send (loop_turns data err) (t, w'))) = PxStopped"
proof -
  have "proxy_flags_ok ps0"
    using assms(1) by (auto simp: newPortProxySession_def proxy_flags_ok_def)
  then have "proxy_flags_ok ps" using assms(2) by (simp add: proxy_run_flags)
  then have c: "proxy_flags_ok (proxy_close ps)" "px_closed (proxy_close ps)"
      "px_written (proxy_close ps) = px_written ps"
    by (auto simp: proxy_close_def proxy_closeConn_def proxy_flags_ok_def)
  then have t: "px_closed t" "proxy_flags_ok t" "px_written t = px_written ps"
    using assms(3) proxy_run_closed[of "(proxy_close ps, w)" send after]
      proxy_run_flags[of "(proxy_close ps, w)" send after] by simp_all
  moreover have "\<not> px_conn t" using t by (simp add: proxy_flags_ok_def)
  ultimately show ?thesis
    using closed_loop_stops[OF t(1,2)] by (simp add: proxy_handle_frame_def proxy_data_frame_def)
qed

section \<open>Witnesses\<close>

definition demo_proxy :: "nat proxy" where
  "demo_proxy = \<lparr>px_chan = 7, px_target = ''127.0.0.1:80'', px_hub = Some 0, px_closed = False,
     px_conn = True, px_written = [], px_pc = PxReading\<rparr>"

lemma demo_proxy_new: "newPortProxySession None 7 ''127.0.0.1:80'' 0 = Inr demo_proxy"
  by (simp add: newPortProxySession_def demo_proxy_def)

theorem proxy_stream_witness:
  "\<exists>hs :: nat \<Rightarrow> nat hub. hub_outbox (hs 0)
     = [encode (proxy_data_frame 7 [1, 2]), encode (proxy_data_frame 7 [3]),
        encode (proxy_close_frame 7)]"
proof -
  let ?evs = "[PRead [1, 2] False, PLoop, PRead [3] True, PLoop, PLoop, PLoop, PLoop]"
  let ?hs0 = "\<lambda>_. hub_new :: nat hub"
  obtain ps hs where run: "proxy_run store_send ?evs (demo_proxy, ?hs0) = (ps, hs)"
    by fastforce
  have "ps = fst (proxy_run store_send ?evs (demo_proxy, ?hs0))" by (simp only: run fst_conv)
  then have pc: "px_pc ps = PxStopped"
    by (simp add: proxy_op_defs demo_proxy_def Let_def proxyBufSize_def)
  have tk: "taken ?evs demo_proxy = [[1, 2], [3]]"
    by (simp add: proxy_op_defs demo_proxy_def Let_def proxyBufSize_def send_opt_def)
  have "list_all (stays_attached 0) ?evs" by simp
  from proxy_stream[OF demo_proxy_new this run] show ?thesis
    unfolding tk by (intro exI[of _ hs]) (simp add: pc hub_outbox_def hub_room_def hub_new_def writeChanSize_def)
qed

theorem proxy_close_final_witness:
  "px_pc (fst (proxy_run store_send (loop_turns [9] False)
     (proxy_close demo_proxy, \<lambda>_. hub_new :: nat hub))) = PxStopped"
proof -
  have "demo_proxy = fst (proxy_run store_send [] (demo_proxy, \<lambda>_. hub_new :: nat hub))"
    "proxy_close demo_proxy
       = fst (proxy_run store_send [] (proxy_close demo_proxy, \<lambda>_. hub_new :: nat hub))"
    by simp_all
  from proxy_close_final[OF demo_proxy_new this] show ?thesis by blast
qed

end
