(* ===== verification/File_System.thy ===== *)
theory File_System
  imports Go_Text "HOL-Library.List_Lexorder" "HOL-Library.Sublist"
begin

text \<open>
  The part of \<open>path/filepath\<close> and \<open>os\<close> that the file operations of
  \<open>internal/server/fileops.go\<close> call, on a tree of directories and files. A directory keeps its
  entries sorted by name, the order in which \<open>os.ReadDir\<close> returns them. Paths are lists of
  components below the root. Symbolic links, permission checks and limits on the length of
  names are outside the model.
\<close>

section \<open>Lexical paths\<close>

fun clean_elems :: "bool \<Rightarrow> string list \<Rightarrow> string list \<Rightarrow> string list" where
  "clean_elems rooted acc [] = rev acc"
| "clean_elems rooted acc (w # ws) =
     (if w = [] \<or> w = ''.'' then clean_elems rooted acc ws
      else if w = ''..'' then
        (case acc of
           [] \<Rightarrow> clean_elems rooted (if rooted then [] else [''..'']) ws
         | a # as \<Rightarrow>
             if \<not> rooted \<and> a = ''..'' then clean_elems rooted (''..'' # acc) ws
             else clean_elems rooted as ws)
      else clean_elems rooted (w # acc) ws)"

definition is_rooted :: "string \<Rightarrow> bool" where
  "is_rooted s \<longleftrightarrow> has_prefix s ''/''"

definition path_clean :: "string \<Rightarrow> string" where
  "path_clean s =
     (let es = clean_elems (is_rooted s) [] (split_on CHR ''/'' s)
      in if is_rooted s then ''/'' @ join ''/'' es
         else if es = [] then ''.'' else join ''/'' es)"

text \<open>Up to and including the last slash.\<close>

definition up_to_slash :: "string \<Rightarrow> string" where
  "up_to_slash s = rev (dropWhile (\<lambda>c. c \<noteq> CHR ''/'') (rev s))"

definition path_dir :: "string \<Rightarrow> string" where
  "path_dir s = path_clean (up_to_slash s)"

definition path_join :: "string list \<Rightarrow> string" where
  "path_join ws =
     (let vs = filter (\<lambda>w. w \<noteq> []) ws in if vs = [] then [] else path_clean (join ''/'' vs))"

section \<open>The tree\<close>

type_synonym path = "string list"

datatype node = File u32 bytes | Dir u32 "(string \<times> node) list"

datatype os_err = ENOENT | ENOTDIR | EISDIR | EEXIST | EINVAL | EBUSY | EIO

fun ins_entry :: "string \<Rightarrow> 'a \<Rightarrow> (string \<times> 'a) list \<Rightarrow> (string \<times> 'a) list" where
  "ins_entry x n [] = [(x, n)]"
| "ins_entry x n ((y, m) # es) =
     (if x = y then (x, n) # es
      else if x < y then (x, n) # (y, m) # es
      else (y, m) # ins_entry x n es)"

definition del_entry :: "string \<Rightarrow> (string \<times> 'a) list \<Rightarrow> (string \<times> 'a) list" where
  "del_entry x es = filter (\<lambda>e. fst e \<noteq> x) es"

fun walk :: "node \<Rightarrow> path \<Rightarrow> os_err + node" where
  "walk n [] = Inr n"
| "walk (File m b) (x # xs) = Inl ENOTDIR"
| "walk (Dir m es) (x # xs) = (case map_of es x of None \<Rightarrow> Inl ENOENT | Some n \<Rightarrow> walk n xs)"

text \<open>
  Change one entry: \<open>f\<close> gets what is there and says what shall be there. The directory that
  holds the entry must exist; the root cannot be removed.
\<close>

fun at_entry :: "(node option \<Rightarrow> os_err + node option) \<Rightarrow> path \<Rightarrow> node \<Rightarrow> os_err + node" where
  "at_entry f [] n =
     (case f (Some n) of
        Inl e \<Rightarrow> Inl e | Inr None \<Rightarrow> Inl EBUSY | Inr (Some n') \<Rightarrow> Inr n')"
| "at_entry f (x # xs) (File m b) = Inl ENOTDIR"
| "at_entry f [x] (Dir m es) =
     (case f (map_of es x) of
        Inl e \<Rightarrow> Inl e
      | Inr None \<Rightarrow> Inr (Dir m (del_entry x es))
      | Inr (Some n) \<Rightarrow> Inr (Dir m (ins_entry x n es)))"
| "at_entry f (x # y # ys) (Dir m es) =
     (case map_of es x of
        None \<Rightarrow> Inl ENOENT
      | Some n \<Rightarrow>
          (case at_entry f (y # ys) n of
             Inl e \<Rightarrow> Inl e | Inr n' \<Rightarrow> Inr (Dir m (ins_entry x n' es))))"

fun fresh_dirs :: "u32 \<Rightarrow> path \<Rightarrow> node" where
  "fresh_dirs m [] = Dir m []"
| "fresh_dirs m (x # xs) = Dir m [(x, fresh_dirs m xs)]"

fun make_dirs :: "u32 \<Rightarrow> path \<Rightarrow> node \<Rightarrow> os_err + node" where
  "make_dirs md xs (File m b) = Inl ENOTDIR"
| "make_dirs md [] (Dir m es) = Inr (Dir m es)"
| "make_dirs md (x # xs) (Dir m es) =
     (case map_of es x of
        None \<Rightarrow> Inr (Dir m (ins_entry x (fresh_dirs md xs) es))
      | Some n \<Rightarrow>
          (case make_dirs md xs n of
             Inl e \<Rightarrow> Inl e | Inr n' \<Rightarrow> Inr (Dir m (ins_entry x n' es))))"

section \<open>System calls and their wrappers in \<open>os\<close>\<close>

record fs =
  fs_root :: node
  fs_cwd :: path
  fs_umask :: u32

definition fs_resolve :: "fs \<Rightarrow> string \<Rightarrow> os_err + path" where
  "fs_resolve s p =
     (if p = [] then Inl ENOENT
      else if CHR 0x00 \<in> set p then Inl EINVAL
      else Inr (clean_elems True (if is_rooted p then [] else rev (fs_cwd s))
                  (split_on CHR ''/'' p)))"

text \<open>Run an operation on the tree at the place a path names.\<close>

definition on_tree :: "(path \<Rightarrow> node \<Rightarrow> os_err + node) \<Rightarrow> string \<Rightarrow> fs \<Rightarrow> os_err + fs" where
  "on_tree f p s =
     (case fs_resolve s p of
        Inl e \<Rightarrow> Inl e
      | Inr q \<Rightarrow>
          (case f q (fs_root s) of Inl e \<Rightarrow> Inl e | Inr t \<Rightarrow> Inr (s\<lparr>fs_root := t\<rparr>)))"

definition os_stat :: "string \<Rightarrow> fs \<Rightarrow> os_err + node" where
  "os_stat p s = (case fs_resolve s p of Inl e \<Rightarrow> Inl e | Inr q \<Rightarrow> walk (fs_root s) q)"

text \<open>Go's \<open>FileMode\<close> to the mode bits of the kernel.\<close>

definition syscall_mode :: "u32 \<Rightarrow> u32" where
  "syscall_mode m =
     or (and m 0x1FF)
       (or (if bit m 23 then 0x800 else 0)
         (or (if bit m 22 then 0x400 else 0) (if bit m 20 then 0x200 else 0)))"

definition masked :: "u32 \<Rightarrow> u32 \<Rightarrow> u32" where
  "masked umask m = and m (not umask)"

definition os_mkdir_all :: "u32 \<Rightarrow> string \<Rightarrow> fs \<Rightarrow> os_err + fs" where
  "os_mkdir_all m p s = on_tree (make_dirs (masked (fs_umask s) (and m 0x3FF))) p s"

text \<open>\<open>OpenFile\<close> for writing with \<open>O_CREATE\<close>, and \<open>O_TRUNC\<close> if \<open>trunc\<close>.\<close>

fun open_entry :: "bool \<Rightarrow> u32 \<Rightarrow> node option \<Rightarrow> os_err + node option" where
  "open_entry trunc m None = Inr (Some (File m []))"
| "open_entry trunc m (Some (File m' b)) = Inr (Some (File m' (if trunc then [] else b)))"
| "open_entry trunc m (Some (Dir m' es)) = Inl EISDIR"

definition os_open_write :: "bool \<Rightarrow> u32 \<Rightarrow> string \<Rightarrow> fs \<Rightarrow> os_err + fs" where
  "os_open_write trunc m p s = on_tree (at_entry (open_entry trunc (masked (fs_umask s) m))) p s"

text \<open>Writing at a position: a gap is filled with zeros; writing nothing changes nothing.\<close>

definition splice :: "nat \<Rightarrow> bytes \<Rightarrow> bytes \<Rightarrow> bytes" where
  "splice off data b =
     (if data = [] then b
      else take off (b @ replicate (off - length b) 0) @ data @ drop (off + length data) b)"

fun write_entry :: "nat \<Rightarrow> bytes \<Rightarrow> node option \<Rightarrow> os_err + node option" where
  "write_entry off data (Some (File m b)) = Inr (Some (File m (splice off data b)))"
| "write_entry off data _ = Inl EIO"

text \<open>The files the sources write stay where they are between \<open>Open\<close> and \<open>Write\<close>, so an open
  file is named by its path.\<close>

definition os_write_at :: "nat \<Rightarrow> bytes \<Rightarrow> string \<Rightarrow> fs \<Rightarrow> os_err + fs" where
  "os_write_at off data p s = on_tree (at_entry (write_entry off data)) p s"

definition os_read_file :: "string \<Rightarrow> fs \<Rightarrow> os_err + bytes" where
  "os_read_file p s =
     (case os_stat p s of
        Inl e \<Rightarrow> Inl e | Inr (File m b) \<Rightarrow> Inr b | Inr (Dir m es) \<Rightarrow> Inl EISDIR)"

definition os_read_dir :: "string \<Rightarrow> fs \<Rightarrow> os_err + (string \<times> node) list" where
  "os_read_dir p s =
     (case os_stat p s of
        Inl e \<Rightarrow> Inl e | Inr (File m b) \<Rightarrow> Inl ENOTDIR | Inr (Dir m es) \<Rightarrow> Inr es)"

text \<open>
  \<open>RemoveAll\<close>: a missing entry is no error, the path \<open>.\<close> is one; of the root and of a parent
  directory reached by \<open>..\<close> the contents go and the final removal fails. The state is
  returned beside the error.
\<close>

fun empty_dir :: "node option \<Rightarrow> os_err + node option" where
  "empty_dir (Some (Dir m es)) = Inr (Some (Dir m []))"
| "empty_dir x = Inr x"

definition with_error :: "fs \<Rightarrow> os_err + fs \<Rightarrow> fs \<times> os_err option" where
  "with_error s r = (case r of Inl e \<Rightarrow> (s, Some e) | Inr s' \<Rightarrow> (s', None))"

definition os_remove_all :: "string \<Rightarrow> fs \<Rightarrow> fs \<times> os_err option" where
  "os_remove_all p s =
     (if p = [] then (s, None)
      else if p = ''.'' then (s, Some EINVAL)
      else if p = ''/'' \<or> last (split_on CHR ''/'' p) = ''..''
        then (fst (with_error s (on_tree (at_entry empty_dir) p s)), Some EBUSY)
      else
        (case os_stat p s of
           Inl ENOENT \<Rightarrow> (s, None)
         | Inl e \<Rightarrow> (s, Some e)
         | Inr n \<Rightarrow> with_error s (on_tree (at_entry (\<lambda>_. Inr None)) p s)))"

text \<open>
  \<open>os.Rename\<close> refuses every existing directory as the new name. Otherwise the kernel moves
  the subtree; a directory cannot replace a file nor move below itself.
\<close>

definition move_entry :: "node \<Rightarrow> node option \<Rightarrow> os_err + node option" where
  "move_entry n old =
     (case (n, old) of
        (_, Some (Dir m es)) \<Rightarrow> Inl EISDIR
      | (Dir m es, Some (File m' b)) \<Rightarrow> Inl ENOTDIR
      | _ \<Rightarrow> Inr (Some n))"

definition os_rename :: "string \<Rightarrow> string \<Rightarrow> fs \<Rightarrow> os_err + fs" where
  "os_rename src dst s =
     (case (fs_resolve s src, fs_resolve s dst) of
        (Inl e, _) \<Rightarrow> Inl e
      | (_, Inl e) \<Rightarrow> Inl e
      | (Inr p, Inr q) \<Rightarrow>
          (case walk (fs_root s) p of
             Inl e \<Rightarrow> Inl e
           | Inr n \<Rightarrow>
               (case walk (fs_root s) q of
                  Inr (Dir m es) \<Rightarrow> if p = q \<and> src \<noteq> dst then Inr s else Inl EEXIST
                | _ \<Rightarrow>
                    if p = q then Inr s
                    else if prefix p q then Inl EINVAL
                    else
                      (case at_entry (move_entry n) q (fs_root s) of
                         Inl e \<Rightarrow> Inl e
                       | Inr t \<Rightarrow>
                           (case at_entry (\<lambda>_. Inr None) p t of
                              Inl e \<Rightarrow> Inl e
                            | Inr t' \<Rightarrow> Inr (s\<lparr>fs_root := t'\<rparr>))))))"

fun chmod_entry :: "u32 \<Rightarrow> node option \<Rightarrow> os_err + node option" where
  "chmod_entry m None = Inl ENOENT"
| "chmod_entry m (Some (File m' b)) = Inr (Some (File m b))"
| "chmod_entry m (Some (Dir m' es)) = Inr (Some (Dir m es))"

definition os_chmod :: "u32 \<Rightarrow> string \<Rightarrow> fs \<Rightarrow> os_err + fs" where
  "os_chmod m p s = on_tree (at_entry (chmod_entry (syscall_mode m))) p s"

section \<open>What the tree operations change\<close>

definition entry :: "node \<Rightarrow> path \<Rightarrow> node option" where
  "entry t p = (case walk t p of Inl e \<Rightarrow> None | Inr n \<Rightarrow> Some n)"

text \<open>Mode and content of the file at a path.\<close>

definition file_at :: "node \<Rightarrow> path \<Rightarrow> (u32 \<times> bytes) option" where
  "file_at t p = (case entry t p of Some (File m b) \<Rightarrow> Some (m, b) | _ \<Rightarrow> None)"

definition is_dir :: "node \<Rightarrow> path \<Rightarrow> bool" where
  "is_dir t p = (case entry t p of Some (Dir m es) \<Rightarrow> True | _ \<Rightarrow> False)"

lemma map_of_ins_entry [simp]: "map_of (ins_entry x n es) = (map_of es)(x \<mapsto> n)"
  by (induction x n es rule: ins_entry.induct) auto

lemma map_of_del_entry [simp]: "map_of (del_entry x es) = (map_of es)(x := None)"
  by (induction es) (auto simp: del_entry_def)

lemma entry_simps [simp]:
  "entry n [] = Some n"
  "entry (File m b) (x # xs) = None"
  "entry (Dir m es) (x # xs) = Option.bind (map_of es x) (\<lambda>n. entry n xs)"
  by (auto simp: entry_def split: option.splits)

lemma file_at_simps [simp]:
  "file_at (File m b) [] = Some (m, b)"
  "file_at (Dir m es) [] = None"
  "file_at (File m b) (x # xs) = None"
  "file_at (Dir m es) (x # xs) = Option.bind (map_of es x) (\<lambda>n. file_at n xs)"
  by (auto simp: file_at_def split: option.splits Option.bind_splits)

lemma is_dir_simps [simp]:
  "is_dir (File m b) p = False"
  "is_dir (Dir m es) [] = True"
  "is_dir (Dir m es) (x # xs) = (case map_of es x of None \<Rightarrow> False | Some n \<Rightarrow> is_dir n xs)"
  by (cases p; auto simp: is_dir_def split: option.splits)+

lemma at_entry_at:
  "at_entry f p t = Inr t' \<Longrightarrow> (\<exists>r. f (entry t p) = Inr r \<and> entry t' p = r)"
  by (induction f p t arbitrary: t' rule: at_entry.induct)
    (auto split: sum.splits option.splits)

lemma at_entry_ok:
  assumes "is_dir t (butlast p)" "p \<noteq> []" "f (entry t p) = Inr r"
  obtains t' where "at_entry f p t = Inr t'"
proof -
  have "\<exists>t'. at_entry f p t = Inr t'"
    using assms
  proof (induction f p t arbitrary: r rule: at_entry.induct)
    case (4 f x y ys m es)
    then obtain n where n: "map_of es x = Some n" by (auto split: option.splits)
    then have "\<exists>n'. at_entry f (y # ys) n = Inr n'" using 4 by auto
    then show ?case using n by auto
  qed (auto split: option.splits)
  then show thesis using that by blast
qed

lemma at_entry_err:
  "f (entry t p) = Inl e \<Longrightarrow> \<exists>e'. at_entry f p t = Inl e'"
  by (induction f p t rule: at_entry.induct) (auto split: sum.splits option.splits)

text \<open>Only files at or below the entry can change; directories elsewhere stay.\<close>

lemma at_entry_other:
  "at_entry f p t = Inr t' \<Longrightarrow> \<not> prefix p q \<Longrightarrow> file_at t' q = file_at t q"
proof (induction f p t arbitrary: q t' rule: at_entry.induct)
  case (3 f x m es)
  then show ?case by (cases q) (auto split: sum.splits option.splits)
next
  case (4 f x y ys m es)
  then show ?case by (cases q) (auto split: sum.splits option.splits)
qed (auto split: sum.splits option.splits)

lemma at_entry_is_dir:
  "at_entry f p t = Inr t' \<Longrightarrow> \<not> prefix p q \<Longrightarrow> is_dir t' q = is_dir t q"
proof (induction f p t arbitrary: q t' rule: at_entry.induct)
  case (3 f x m es)
  then show ?case by (cases q) (auto split: sum.splits option.splits)
next
  case (4 f x y ys m es)
  then show ?case by (cases q) (auto split: sum.splits option.splits if_splits)
qed (auto split: sum.splits option.splits)

lemma fresh_dirs_files [simp]: "file_at (fresh_dirs md xs) q = None"
  by (induction xs arbitrary: q; case_tac q) (auto split: option.splits)

lemma fresh_dirs_dir [simp]: "is_dir (fresh_dirs md xs) xs"
  by (induction xs) auto

text \<open>Making directories touches no file, keeps all directories and makes the one asked for.\<close>

lemma make_dirs_files: "make_dirs md p t = Inr t' \<Longrightarrow> file_at t' q = file_at t q"
proof (induction md p t arbitrary: q t' rule: make_dirs.induct)
  case (3 md x xs m es)
  then show ?case by (cases q) (auto split: option.splits sum.splits)
qed auto

lemma make_dirs_keeps: "make_dirs md p t = Inr t' \<Longrightarrow> is_dir t q \<Longrightarrow> is_dir t' q"
proof (induction md p t arbitrary: q t' rule: make_dirs.induct)
  case (3 md x xs m es)
  then show ?case by (cases q) (auto split: option.splits sum.splits if_splits)
qed auto

lemma make_dirs_dir: "make_dirs md p t = Inr t' \<Longrightarrow> is_dir t' p"
proof (induction md p t arbitrary: t' rule: make_dirs.induct)
  case (3 md x xs m es)
  then show ?case by (auto split: option.splits sum.splits)
qed auto

text \<open>It fails only on a file in the way.\<close>

lemma make_dirs_ok:
  "(\<And>q. prefix q p \<Longrightarrow> file_at t q = None) \<Longrightarrow> \<exists>t'. make_dirs md p t = Inr t'"
proof (induction md p t rule: make_dirs.induct)
  case (1 md xs m b)
  from 1[of "[]"] show ?case by simp
next
  case (3 md x xs m es)
  show ?case
  proof (cases "map_of es x")
    case (Some n)
    have "file_at n q = None" if "prefix q xs" for q
      using 3(2)[of "x # q"] that Some by simp
    then show ?thesis using 3(1)[OF Some] Some by (auto split: sum.splits)
  qed simp
qed auto

lemma make_dirs_idem: "is_dir t p \<Longrightarrow> \<exists>t'. make_dirs md p t = Inr t'"
  by (induction md p t rule: make_dirs.induct) (auto split: option.splits sum.splits)

section \<open>Clean paths\<close>

definition plain_name :: "string \<Rightarrow> bool" where
  "plain_name w \<longleftrightarrow> w \<noteq> [] \<and> w \<noteq> ''.'' \<and> w \<noteq> ''..'' \<and> CHR ''/'' \<notin> set w"

lemma clean_elems_plain:
  "list_all plain_name ws \<Longrightarrow> clean_elems r acc ws = rev acc @ ws"
  by (induction ws arbitrary: acc) (auto simp: plain_name_def)

lemma clean_elems_rooted_plain:
  "list_all plain_name acc \<Longrightarrow> \<forall>w \<in> set ws. CHR ''/'' \<notin> set w \<Longrightarrow>
     list_all plain_name (clean_elems True acc ws)"
  by (induction True acc ws rule: clean_elems.induct)
    (auto simp: plain_name_def split: list.splits)

text \<open>The absolute path of a list of plain names.\<close>

definition abs_path :: "path \<Rightarrow> string" where
  "abs_path es = ''/'' @ join ''/'' es"

lemma is_rooted_abs_path [simp]: "is_rooted (abs_path es)"
  by (simp add: is_rooted_def abs_path_def has_prefix_def)

lemma split_abs_path:
  assumes "list_all plain_name es"
  shows "split_on CHR ''/'' (abs_path es) = [] # (if es = [] then [[]] else es)"
  using assms by (auto simp: abs_path_def split_on_join plain_name_def list_all_iff)

lemma path_clean_rooted:
  assumes "is_rooted s"
  shows "path_clean s = abs_path (clean_elems True [] (split_on CHR ''/'' s))"
  using assms by (simp add: path_clean_def abs_path_def)

lemma clean_elems_abs_path:
  "list_all plain_name es \<Longrightarrow> clean_elems True [] (split_on CHR ''/'' (abs_path es)) = es"
  using clean_elems_plain[of es True "[]"] by (simp add: split_abs_path)

lemma path_clean_abs_path: "list_all plain_name es \<Longrightarrow> path_clean (abs_path es) = abs_path es"
  by (simp add: path_clean_rooted clean_elems_abs_path)

text \<open>Cleaning is idempotent on absolute paths and gives a path of plain names.\<close>

lemma path_clean_abs:
  assumes "is_rooted s"
  obtains es where "list_all plain_name es" "path_clean s = abs_path es"
proof
  show "list_all plain_name (clean_elems True [] (split_on CHR ''/'' s))"
    using split_on_pieces[of _ "CHR ''/''" s] by (intro clean_elems_rooted_plain) auto
qed (rule path_clean_rooted[OF assms])

lemma join_snoc: "ws \<noteq> [] \<Longrightarrow> join sep (ws @ [w]) = join sep ws @ sep @ w"
  by (induction sep ws rule: join.induct) auto

lemma up_to_slash_abs:
  assumes "list_all plain_name es" "es \<noteq> []"
  shows "up_to_slash (abs_path es) = abs_path (butlast es) @ (if butlast es = [] then [] else ''/'')"
proof -
  obtain ds w where es: "es = ds @ [w]" using assms(2) by (cases es rule: rev_cases) auto
  have w: "CHR ''/'' \<notin> set w" using assms(1) by (simp add: es plain_name_def)
  have d: "dropWhile (\<lambda>c. c \<noteq> CHR ''/'') (rev w @ CHR ''/'' # xs) = CHR ''/'' # xs" for xs
    using w by (subst dropWhile_append2) auto
  show ?thesis
  proof (cases "ds = []")
    case True
    then show ?thesis using d[of "[]"] by (simp add: es abs_path_def up_to_slash_def)
  next
    case False
    then show ?thesis
      using d[of "rev (''/'' @ join ''/'' ds)"]
      by (simp add: es abs_path_def up_to_slash_def join_snoc)
  qed
qed

lemma split_on_snoc_sep: "split_on c (s @ [c]) = split_on c s @ [[]]"
  by (induction s) (auto split: list.splits)

lemma path_dir_abs:
  assumes "list_all plain_name es" "es \<noteq> []"
  shows "path_dir (abs_path es) = abs_path (butlast es)"
proof (cases "butlast es = []")
  case True
  then show ?thesis
    using path_clean_abs_path[of "[]"] by (simp add: path_dir_def up_to_slash_abs[OF assms])
next
  case False
  let ?d = "abs_path (butlast es)"
  have p: "list_all plain_name (butlast es)"
    using assms(1) by (auto simp: list_all_iff dest: in_set_butlastD)
  have "is_rooted (?d @ ''/'')" by (simp add: is_rooted_def abs_path_def has_prefix_def)
  then have "path_clean (?d @ ''/'')
      = abs_path (clean_elems True [] ([] # butlast es @ [[]]))"
    using False p by (simp add: path_clean_rooted split_on_snoc_sep split_abs_path)
  also have "clean_elems True [] ([] # butlast es @ [[]]) = butlast es"
  proof -
    have "clean_elems True acc (ws @ [[]]) = clean_elems True acc ws" for acc ws
      by (induction True acc ws rule: clean_elems.induct) (auto split: list.splits)
    then show ?thesis using clean_elems_plain[OF p, of True "[]"] by simp
  qed
  finally show ?thesis using False by (simp add: path_dir_def up_to_slash_abs[OF assms])
qed

definition path_ok :: "path \<Rightarrow> bool" where
  "path_ok es \<longleftrightarrow> list_all plain_name es \<and> (\<forall>w \<in> set es. CHR 0x00 \<notin> set w)"

lemma join_set: "c \<in> set (join sep ws) \<Longrightarrow> c \<in> set sep \<or> (\<exists>w \<in> set ws. c \<in> set w)"
  by (induction sep ws rule: join.induct) auto

lemma fs_resolve_abs:
  assumes "path_ok es"
  shows "fs_resolve s (abs_path es) = Inr es"
proof -
  have "CHR 0x00 \<notin> set (abs_path es)"
    using assms join_set[of "CHR 0x00" "''/''" es] by (auto simp: abs_path_def path_ok_def)
  moreover have "abs_path es \<noteq> []" by (simp add: abs_path_def)
  ultimately show ?thesis
    using assms by (simp add: fs_resolve_def clean_elems_abs_path path_ok_def)
qed

lemma path_ok_butlast: "path_ok es \<Longrightarrow> path_ok (butlast es)"
  by (auto simp: path_ok_def list_all_iff dest: in_set_butlastD)

section \<open>Operations at an absolute path\<close>

lemma on_tree_abs:
  "path_ok es \<Longrightarrow> on_tree f (abs_path es) s =
     (case f es (fs_root s) of Inl e \<Rightarrow> Inl e | Inr t \<Rightarrow> Inr (s\<lparr>fs_root := t\<rparr>))"
  by (simp add: on_tree_def fs_resolve_abs)

lemma os_stat_abs: "path_ok es \<Longrightarrow> os_stat (abs_path es) s = walk (fs_root s) es"
  by (simp add: os_stat_def fs_resolve_abs)

lemma walk_file_at: "walk t p = Inr (File m b) \<longleftrightarrow> file_at t p = Some (m, b)"
  by (auto simp: file_at_def entry_def split: sum.splits node.splits)

lemma walk_is_dir: "is_dir t p \<longleftrightarrow> (\<exists>m es. walk t p = Inr (Dir m es))"
  by (auto simp: is_dir_def entry_def split: sum.splits node.splits option.splits)

lemma fresh_dirs_is_dir: "is_dir (fresh_dirs md xs) q \<longleftrightarrow> prefix q xs"
  by (induction xs arbitrary: q; case_tac q) (auto split: option.splits)

lemma make_dirs_is_dir:
  "make_dirs md p t = Inr t' \<Longrightarrow> is_dir t' q \<longleftrightarrow> is_dir t q \<or> prefix q p"
proof (induction md p t arbitrary: q t' rule: make_dirs.induct)
  case (2 md m es)
  then show ?case by (cases q) auto
next
  case (3 md x xs m es)
  then show ?case
    by (cases q) (auto split: option.splits sum.splits if_splits simp: fresh_dirs_is_dir)
qed auto

text \<open>A place where a file can be written: nothing but directories above it, no directory there.\<close>

definition writable :: "node \<Rightarrow> path \<Rightarrow> bool" where
  "writable t p \<longleftrightarrow>
     p \<noteq> [] \<and> (\<forall>q. strict_prefix q p \<longrightarrow> file_at t q = None) \<and> \<not> is_dir t p"

lemma prefix_butlast_strict: "p \<noteq> [] \<Longrightarrow> prefix q (butlast p) \<longleftrightarrow> strict_prefix q p"
  by (cases p rule: rev_cases) (auto simp: strict_prefix_def)

lemma writable_make_dirs:
  assumes "writable t p"
  obtains t' where "make_dirs md (butlast p) t = Inr t'" "writable t' p"
    "is_dir t' (butlast p)" "\<And>q. file_at t' q = file_at t q"
proof -
  have "\<exists>t'. make_dirs md (butlast p) t = Inr t'"
    using assms by (intro make_dirs_ok) (auto simp: writable_def prefix_butlast_strict)
  then obtain t' where t': "make_dirs md (butlast p) t = Inr t'" by blast
  moreover have "\<not> prefix p (butlast p)"
    using assms by (auto simp: writable_def prefix_butlast_strict)
  ultimately show thesis
    using that[OF t'] assms make_dirs_files[OF t'] make_dirs_is_dir[OF t'] make_dirs_dir[OF t']
    by (simp add: writable_def)
qed

lemma writable_at_entry:
  assumes "writable t p" "is_dir t (butlast p)"
    and "f (map_option (\<lambda>(m, b). File m b) (file_at t p)) = Inr (Some (File m b))"
  obtains t' where "at_entry f p t = Inr t'" "writable t' p" "is_dir t' (butlast p)"
    "file_at t' p = Some (m, b)" "\<And>q. q \<noteq> p \<Longrightarrow> file_at t' q = file_at t q"
proof -
  have e: "entry t p = map_option (\<lambda>(m, b). File m b) (file_at t p)"
    using assms(1)
    by (auto simp: writable_def is_dir_def file_at_def split: option.splits node.splits)
  have p: "p \<noteq> []" using assms(1) by (simp add: writable_def)
  then obtain t' where t': "at_entry f p t = Inr t'"
    using at_entry_ok[of t p f] assms(2,3) e by auto
  have e': "entry t' p = Some (File m b)" using at_entry_at[OF t'] assms(3) e by simp
  have other: "file_at t' q = file_at t q" if "q \<noteq> p" for q
  proof (cases "prefix p q")
    case True
    then obtain ys where ys: "q = p @ ys" by (rule prefixE)
    with that obtain z zs where q: "q = p @ z # zs" by (cases ys) auto
    have "walk u (p @ z # zs) = (case walk u p of Inl e \<Rightarrow> Inl e | Inr n \<Rightarrow> walk n (z # zs))" for u
      by (induction u p rule: walk.induct) (auto split: option.splits)
    moreover have "(\<exists>e. walk t p = Inl e) \<or> (\<exists>m' b'. walk t p = Inr (File m' b'))"
    proof (cases "walk t p")
      case (Inr n)
      then show ?thesis using assms(1) by (cases n) (auto simp: writable_def walk_is_dir)
    qed simp
    moreover have "walk t' p = Inr (File m b)" using e' by (auto simp: entry_def split: sum.splits)
    ultimately have "walk t' q = Inl ENOTDIR" "\<exists>e. walk t q = Inl e"
      unfolding q by auto
    then show ?thesis by (auto simp: file_at_def entry_def)
  next
    case False
    then show ?thesis by (rule at_entry_other[OF t'])
  qed
  have np: "\<not> prefix p (butlast p)" using p by (auto simp: prefix_butlast_strict)
  have "writable t' p"
    using assms(1) other e' by (auto simp: writable_def is_dir_def strict_prefix_def)
  moreover have "is_dir t' (butlast p)" using at_entry_is_dir[OF t' np] assms(2) by simp
  moreover have "file_at t' p = Some (m, b)" using e' by (simp add: file_at_def)
  ultimately show thesis using that t' other by blast
qed

lemma split_on_snoc: "c \<notin> set w \<Longrightarrow> split_on c (s @ c # w) = split_on c s @ [w]"
  by (induction s) (auto simp: split_on_no_sep split: list.splits)

lemma path_join_abs:
  assumes "path_ok es" "plain_name w" "CHR 0x00 \<notin> set w"
  shows "path_join [abs_path es, w] = abs_path (es @ [w])" "path_ok (es @ [w])"
proof -
  have w: "w \<noteq> []" "CHR ''/'' \<notin> set w" using assms(2) by (auto simp: plain_name_def)
  have ne: "abs_path es \<noteq> []" by (simp add: abs_path_def)
  have r: "is_rooted (abs_path es @ CHR ''/'' # w)"
    by (simp add: is_rooted_def abs_path_def has_prefix_def)
  have e: "list_all plain_name es" using assms(1) by (simp add: path_ok_def)
  have "clean_elems True [] ([] # (if es = [] then [[]] else es) @ [w]) = es @ [w]"
    using e assms(2) clean_elems_plain[of "es @ [w]" True "[]"] by (cases "es = []") auto
  then show "path_join [abs_path es, w] = abs_path (es @ [w])"
    using ne w by (simp add: path_join_def Let_def path_clean_rooted[OF r] split_on_snoc
        split_abs_path[OF e])
  show "path_ok (es @ [w])" using assms by (simp add: path_ok_def)
qed

lemma at_entry_abs_cases:
  assumes "path_ok p" "on_tree (at_entry f) (abs_path p) s = Inr s'"
  shows "\<exists>r. f (entry (fs_root s) p) = Inr r \<and> entry (fs_root s') p = r"
    "\<not> prefix p q \<Longrightarrow> file_at (fs_root s') q = file_at (fs_root s) q"
    "\<not> prefix p q \<Longrightarrow> is_dir (fs_root s') q = is_dir (fs_root s) q"
proof -
  obtain t where "at_entry f p (fs_root s) = Inr t" "fs_root s' = t"
    using assms by (auto simp: on_tree_abs split: sum.splits)
  then show "\<exists>r. f (entry (fs_root s) p) = Inr r \<and> entry (fs_root s') p = r"
    "\<not> prefix p q \<Longrightarrow> file_at (fs_root s') q = file_at (fs_root s) q"
    "\<not> prefix p q \<Longrightarrow> is_dir (fs_root s') q = is_dir (fs_root s) q"
    using at_entry_at[of f p "fs_root s" t] at_entry_other[of f p "fs_root s" t q]
      at_entry_is_dir[of f p "fs_root s" t q] by auto
qed

text \<open>Two files in one directory are not below each other.\<close>

lemma siblings: "x \<noteq> y \<Longrightarrow> \<not> prefix (d @ [x]) (d @ [y])"
  by simp

text \<open>Renaming a file onto another place: it arrives there and leaves the old place.\<close>

lemma os_rename_file:
  assumes "path_ok p" "path_ok q" "\<not> prefix p q" "\<not> prefix q p"
    and "file_at (fs_root s) p = Some (m, b)"
    and "os_rename (abs_path p) (abs_path q) s = Inr s'"
  shows "file_at (fs_root s') q = Some (m, b)" "file_at (fs_root s') p = None"
    "\<not> prefix p x \<Longrightarrow> \<not> prefix q x \<Longrightarrow> file_at (fs_root s') x = file_at (fs_root s) x"
    "\<not> prefix p x \<Longrightarrow> \<not> prefix q x \<Longrightarrow> is_dir (fs_root s') x = is_dir (fs_root s) x"
proof -
  have w: "walk (fs_root s) p = Inr (File m b)" using assms(5) by (simp add: walk_file_at)
  have pq: "p \<noteq> q" using assms(3) by auto
  obtain t t' where t: "at_entry (move_entry (File m b)) q (fs_root s) = Inr t"
      "at_entry (\<lambda>_. Inr None) p t = Inr t'" "s' = s\<lparr>fs_root := t'\<rparr>"
    using assms(1-3,6) w pq
    by (auto simp: os_rename_def fs_resolve_abs split: sum.splits node.splits if_splits)
  have e: "entry t q = Some (File m b)"
    using at_entry_at[OF t(1)] by (auto simp: move_entry_def split: option.splits node.splits)
  have e': "entry t' p = None" using at_entry_at[OF t(2)] by auto
  show "file_at (fs_root s') q = Some (m, b)"
    using at_entry_other[OF t(2) assms(3)] e by (simp add: t(3) file_at_def)
  show "file_at (fs_root s') p = None" using e' by (simp add: t(3) file_at_def)
  show "file_at (fs_root s') x = file_at (fs_root s) x"
    if "\<not> prefix p x" "\<not> prefix q x"
    using at_entry_other[OF t(1) that(2)] at_entry_other[OF t(2) that(1)] by (simp add: t(3))
  show "is_dir (fs_root s') x = is_dir (fs_root s) x"
    if "\<not> prefix p x" "\<not> prefix q x"
    using at_entry_is_dir[OF t(1) that(2)] at_entry_is_dir[OF t(2) that(1)] by (simp add: t(3))
qed

text \<open>Above an existing file there are directories, so it can be written.\<close>

lemma walk_append:
  "walk t (p @ q) = (case walk t p of Inl e \<Rightarrow> Inl e | Inr n \<Rightarrow> walk n q)"
proof (induction t p rule: walk.induct)
  case (2 m b x xs)
  then show ?case by simp
qed (auto split: option.splits)

lemma file_parents:
  assumes "file_at t p = Some x" "strict_prefix q p"
  shows "is_dir t q"
proof -
  obtain ys where ys: "p = q @ ys" "ys \<noteq> []"
    using assms(2) by (auto simp: strict_prefix_def prefix_def)
  then obtain z zs where p: "p = q @ z # zs" by (cases ys) auto
  obtain n where n: "walk t q = Inr n"
    using assms(1) by (auto simp: p file_at_def entry_def walk_append split: sum.splits)
  then show ?thesis
    using assms(1) by (cases n) (auto simp: p file_at_def entry_def walk_append is_dir_def)
qed

lemma file_writable:
  assumes "file_at t p = Some (m, b)" "p \<noteq> []"
  shows "writable t p" "is_dir t (butlast p)"
proof -
  have "file_at t q = None" if "strict_prefix q p" for q
    using file_parents[OF assms(1) that]
    by (auto simp: is_dir_def file_at_def split: option.splits node.splits)
  then show "writable t p"
    using assms by (auto simp: writable_def is_dir_def file_at_def split: option.splits node.splits)
  show "is_dir t (butlast p)"
    using assms by (intro file_parents[OF assms(1)]) (simp flip: prefix_butlast_strict)
qed

end
