(* ===== verification/File_Ops.thy ===== *)
theory File_Ops
  imports File_System Frame_Codec Ws_Hub Go_Json
begin

text \<open>
  \<open>internal/server/fileops.go\<close> and the file handlers of \<open>internal/server/server.go\<close>:
  directory listings, chunked downloads and uploads, the file operations and the persisted
  desktop state. Arguments of the operations: what a listing shows of an entry besides its name,
  kind and mode (\<open>meta\<close>), the texts of errors (\<open>err_text\<close>), the random part of a temporary
  name and injected faults of the disk.
\<close>

unbundle bit_operations_syntax

section \<open>Listing a directory\<close>

record file_info =
  fi_name :: string
  fi_size :: int
  fi_isDir :: bool
  fi_mode :: string
  fi_modTime :: string

datatype file_err = ReadDirErr string os_err | OpenErr os_err

fun node_mode :: "node \<Rightarrow> u32" where
  "node_mode (File m b) = m"
| "node_mode (Dir m es) = m"

fun node_is_dir :: "node \<Rightarrow> bool" where
  "node_is_dir (Dir m es) = True"
| "node_is_dir (File m b) = False"

text \<open>\<open>%04o\<close> of the nine permission bits.\<close>

definition octal_perm :: "u32 \<Rightarrow> string" where
  "octal_perm m =
     (let p = unat (m AND 0x1FF)
      in [digit_char 0, digit_char (p div 64), digit_char (p div 8 mod 8), digit_char (p mod 8)])"

text \<open>\<open>meta dir name\<close>: the size the system reports for a directory and the formatted time.\<close>

definition entry_info :: "(string \<Rightarrow> string \<Rightarrow> int \<times> string) \<Rightarrow> string \<Rightarrow> string \<times> node \<Rightarrow> file_info" where
  "entry_info meta dir e =
     (case e of (name, n) \<Rightarrow>
        \<lparr>fi_name = name,
         fi_size = (case n of File m b \<Rightarrow> int (length b) | Dir m es \<Rightarrow> fst (meta dir name)),
         fi_isDir = node_is_dir n, fi_mode = octal_perm (node_mode n),
         fi_modTime = snd (meta dir name)\<rparr>)"

definition listDirectory ::
  "(string \<Rightarrow> string \<Rightarrow> int \<times> string) \<Rightarrow> string \<Rightarrow> fs \<Rightarrow> file_err + file_info list" where
  "listDirectory meta path0 s =
     (let path = path_clean path0
      in case os_read_dir path s of
           Inl e \<Rightarrow> Inl (ReadDirErr path e)
         | Inr es \<Rightarrow> Inr (map (entry_info meta path) es))"

definition json_file_info :: "file_info \<Rightarrow> json" where
  "json_file_info i =
     JObj [(''name'', JStr (fi_name i)), (''size'', json_int (fi_size i)),
           (''isDir'', JBool (fi_isDir i)), (''mode'', JStr (fi_mode i)),
           (''modTime'', JStr (fi_modTime i))]"

definition json_file_list :: "string \<Rightarrow> file_info list \<Rightarrow> string \<Rightarrow> json" where
  "json_file_list path entries err =
     JObj ([(''path'', JStr path)]
           @ (if entries = [] then [] else [(''entries'', JArr (map json_file_info entries))])
           @ (if err = [] then [] else [(''error'', JStr err)]))"

text \<open>The handlers answer over a sender; the flag returned says whether sending failed.\<close>

definition handleFileList where
  "handleFileList meta err_text send r s f w =
     (let path0 = string_of_bytes (f_payload f);
          path = (if path0 = [] then ''/'' else path0);
          resp = (case listDirectory meta path s of
                    Inl e \<Rightarrow> json_file_list path [] (err_text e)
                  | Inr es \<Rightarrow> json_file_list path es [])
      in send r \<lparr>f_type = FrameFileListResp, f_chan = f_chan f, f_payload = marshal resp\<rparr> w)"

section \<open>Downloads\<close>

definition downloadChunkSize :: nat where
  "downloadChunkSize = 64 * 1024"

text \<open>\<open>byte(v >> k)\<close> of a signed number: the shift is arithmetic.\<close>

definition putInt64BE :: "i64 \<Rightarrow> bytes" where
  "putInt64BE v =
     [ucast (signed_drop_bit 56 v), ucast (signed_drop_bit 48 v), ucast (signed_drop_bit 40 v),
      ucast (signed_drop_bit 32 v), ucast (signed_drop_bit 24 v), ucast (signed_drop_bit 16 v),
      ucast (signed_drop_bit 8 v), ucast v]"

text \<open>The download id in 36 bytes: cut, or padded with blanks.\<close>

definition id_bytes :: "string \<Rightarrow> bytes" where
  "id_bytes downloadID =
     (let b = take 36 (bytes_of_string downloadID) in b @ replicate (36 - length b) 32)"

definition download_chunk :: "bytes \<Rightarrow> i64 \<Rightarrow> bytes \<Rightarrow> bytes" where
  "download_chunk idb offset data =
     go_copy (go_copy (go_copy (replicate (36 + 8 + length data) 0) 0 idb) 36 (putInt64BE offset))
       44 data"

definition chunk_frame :: "u16 \<Rightarrow> bytes \<Rightarrow> i64 \<Rightarrow> bytes \<Rightarrow> frame" where
  "chunk_frame c idb offset data =
     \<lparr>f_type = FrameFileDownload, f_chan = c, f_payload = download_chunk idb offset data\<rparr>"

definition download_progress :: "u16 \<Rightarrow> string \<Rightarrow> i64 \<Rightarrow> int \<Rightarrow> frame" where
  "download_progress c downloadID offset tot =
     \<lparr>f_type = FrameProgress, f_chan = c,
      f_payload = marshal (JObj [(''bytesSent'', json_int (sint offset)),
                                 (''id'', JStr downloadID), (''total'', json_int tot)])\<rparr>"

datatype read_end = ReadMore | ReadEOF | ReadFault

datatype download_end = DlDone | DlCancelled | DlSendFailed | DlReadFailed

text \<open>
  The loop, given for each turn whether the context is done and what \<open>Read\<close> returns. When
  the turns run out the download is still under way.
\<close>

fun download_loop ::
  "('r \<Rightarrow> frame \<Rightarrow> 'w \<Rightarrow> 'w \<times> bool) \<Rightarrow> 'r \<Rightarrow> u16 \<Rightarrow> string \<Rightarrow> int \<Rightarrow> i64 \<Rightarrow>
   (bool \<times> bytes \<times> read_end) list \<Rightarrow> 'w \<Rightarrow> 'w \<times> download_end option"
where
  "download_loop send r c downloadID tot offset [] w = (w, None)"
| "download_loop send r c downloadID tot offset ((cancelled, data, re) # turns) w =
     (if cancelled then (w, Some DlCancelled)
      else
        (if length data > 0 then
           (case send r (chunk_frame c (id_bytes downloadID) offset data) w of
              (w1, err) \<Rightarrow>
                if err then (w1, Some DlSendFailed)
                else
                  let offset' = offset + word_of_nat (length data);
                      w2 = fst (send r (download_progress c downloadID offset' tot) w1)
                  in case re of
                       ReadEOF \<Rightarrow> (w2, Some DlDone)
                     | ReadFault \<Rightarrow> (w2, Some DlReadFailed)
                     | ReadMore \<Rightarrow> download_loop send r c downloadID tot offset' turns w2)
         else
           (case re of
              ReadEOF \<Rightarrow> (w, Some DlDone)
            | ReadFault \<Rightarrow> (w, Some DlReadFailed)
            | ReadMore \<Rightarrow> download_loop send r c downloadID tot offset turns w)))"

text \<open>The reads of a file with this content: full buffers, a rest, then the end.\<close>

fun chop :: "nat \<Rightarrow> 'a list \<Rightarrow> 'a list list" where
  "chop n xs = (if xs = [] \<or> n = 0 then [] else take n xs # chop n (drop n xs))"

declare chop.simps [simp del]

definition file_turns :: "bytes \<Rightarrow> (bool \<times> bytes \<times> read_end) list" where
  "file_turns b = map (\<lambda>d. (False, d, ReadMore)) (chop downloadChunkSize b) @ [(False, [], ReadEOF)]"

datatype download_result = DlOpenFailed os_err | DlRead "download_end option"

definition streamFileDownload where
  "streamFileDownload err_text turns_of send r c downloadID path0 s w =
     (let path = path_clean path0
      in case os_stat path s of
           Inl e \<Rightarrow>
             (fst (send r \<lparr>f_type = FrameProgress, f_chan = c,
                           f_payload = marshal (JObj [(''error'', JStr (err_text (OpenErr e))),
                                                      (''id'', JStr downloadID)])\<rparr> w),
              DlOpenFailed e)
         | Inr (File m b) \<Rightarrow>
             (case download_loop send r c downloadID (int (length b)) 0 (turns_of b) w of
                (w', e) \<Rightarrow> (w', DlRead e))
         | Inr (Dir m es) \<Rightarrow> (w, DlRead (Some DlReadFailed)))"

definition unmarshal_download_req :: "bytes \<Rightarrow> (string \<times> string) option" where
  "unmarshal_download_req p =
     Option.bind (unmarshal_fields p) (\<lambda>fs.
     Option.bind (string_field ''id'' fs) (\<lambda>i.
     Option.bind (string_field ''path'' fs) (\<lambda>path. Some (i, path))))"

text \<open>\<open>handleFileDownloadReq\<close> only starts the goroutine, named by its arguments.\<close>

definition handleFileDownloadReq :: "frame \<Rightarrow> (u16 \<times> string \<times> string) option" where
  "handleFileDownloadReq f =
     map_option (\<lambda>(i, path). (f_chan f, i, path)) (unmarshal_download_req (f_payload f))"

section \<open>Uploads\<close>

text \<open>A file operation that is a sequence of system calls stops at the first error.\<close>

fun run_calls :: "(fs \<Rightarrow> os_err + fs) list \<Rightarrow> fs \<Rightarrow> fs \<times> os_err option" where
  "run_calls [] s = (s, None)"
| "run_calls (f # calls) s =
     (case f s of Inl e \<Rightarrow> (s, Some e) | Inr s' \<Rightarrow> run_calls calls s')"

definition writeFileChunk :: "string \<Rightarrow> i64 \<Rightarrow> bytes \<Rightarrow> fs \<Rightarrow> fs \<times> os_err option" where
  "writeFileChunk path0 offset data s =
     (let path = path_clean path0;
          dir = path_dir path;
          trunc = (offset = 0);
          pos = (if sint offset > 0 then nat (sint offset) else 0)
      in run_calls
           [os_mkdir_all 0x1ED dir, os_open_write trunc 0x1A4 path, os_write_at pos data path] s)"

datatype upload_err = UploadTooShort | UploadTruncated

definition get_int64 :: "bytes \<Rightarrow> i64" where
  "get_int64 b =
     push_bit 56 (ucast (b ! 0)) OR push_bit 48 (ucast (b ! 1)) OR push_bit 40 (ucast (b ! 2))
     OR push_bit 32 (ucast (b ! 3)) OR push_bit 24 (ucast (b ! 4)) OR push_bit 16 (ucast (b ! 5))
     OR push_bit 8 (ucast (b ! 6)) OR ucast (b ! 7)"

definition parse_upload :: "bytes \<Rightarrow> upload_err + (string \<times> string \<times> i64 \<times> bytes)" where
  "parse_upload p =
     (if length p < 36 + 2 then Inl UploadTooShort
      else
        let uploadID = string_of_bytes (take 36 p);
            pathLen = unat (push_bit 8 (ucast (p ! 36)) OR ucast (p ! 37) :: i64)
        in if length p < 36 + 2 + pathLen + 8 then Inl UploadTruncated
           else
             let path = string_of_bytes (slice p 38 (38 + pathLen));
                 offsetBytes = slice p (38 + pathLen) (38 + pathLen + 8);
                 offset = get_int64 offsetBytes;
                 data = drop (38 + pathLen + 8) p
             in Inr (uploadID, path, offset, data))"

definition upload_progress :: "u16 \<Rightarrow> string \<Rightarrow> i64 \<Rightarrow> frame" where
  "upload_progress c uploadID sent =
     \<lparr>f_type = FrameProgress, f_chan = c,
      f_payload = marshal (JObj [(''bytesSent'', json_int (sint sent)), (''id'', JStr uploadID)])\<rparr>"

datatype handler_err = BadUpload upload_err | BadPayload | SendFailed

definition handleFileUpload where
  "handleFileUpload send r f sw =
     (case sw of (s, w) \<Rightarrow>
        (case parse_upload (f_payload f) of
           Inl e \<Rightarrow> ((s, w), Some (BadUpload e))
         | Inr (uploadID, path, offset, data) \<Rightarrow>
             (case writeFileChunk path offset data s of
                (s', Some e) \<Rightarrow> ((s', w), None)
              | (s', None) \<Rightarrow>
                  (case send r (upload_progress (f_chan f) uploadID
                                  (offset + word_of_nat (length data))) w of
                     (w', err) \<Rightarrow> ((s', w'), if err then Some SendFailed else None)))))"

section \<open>Rename, delete, make, touch, copy, chmod\<close>

definition renameFile :: "string \<Rightarrow> string \<Rightarrow> fs \<Rightarrow> fs \<times> os_err option" where
  "renameFile src dst s = run_calls [os_rename (path_clean src) (path_clean dst)] s"

definition deleteFile :: "string \<Rightarrow> fs \<Rightarrow> fs \<times> os_err option" where
  "deleteFile path s = os_remove_all (path_clean path) s"

definition mkdirPath :: "string \<Rightarrow> fs \<Rightarrow> fs \<times> os_err option" where
  "mkdirPath path s = run_calls [os_mkdir_all 0x1ED (path_clean path)] s"

definition touchFile :: "string \<Rightarrow> fs \<Rightarrow> fs \<times> os_err option" where
  "touchFile path0 s =
     (let path = path_clean path0
      in run_calls [os_mkdir_all 0x1ED (path_dir path), os_open_write False 0x1A4 path] s)"

definition chmodFile :: "string \<Rightarrow> u32 \<Rightarrow> fs \<Rightarrow> fs \<times> os_err option" where
  "chmodFile path mode s = run_calls [os_chmod mode (path_clean path)] s"

text \<open>\<open>io.Copy\<close> reads the source as it is when the destination is already open.\<close>

definition io_copy :: "string \<Rightarrow> string \<Rightarrow> fs \<Rightarrow> os_err + fs" where
  "io_copy src dst s =
     (case os_read_file src s of Inl e \<Rightarrow> Inl e | Inr b \<Rightarrow> os_write_at 0 b dst s)"

definition copyFile :: "string \<Rightarrow> string \<Rightarrow> fs \<Rightarrow> fs \<times> os_err option" where
  "copyFile src dst s =
     (case os_stat src s of
        Inl e \<Rightarrow> (s, Some e)
      | Inr info \<Rightarrow>
          run_calls [os_mkdir_all 0x1ED (path_dir dst), os_open_write True (node_mode info) dst,
                     io_copy src dst] s)"

text \<open>\<open>copyDir\<close> calls itself on what \<open>ReadDir\<close> listed, on the file system as it is by then. It
  need not end, so it has fuel; \<open>None\<close> says that the fuel ran out.\<close>

fun copyDir :: "nat \<Rightarrow> string \<Rightarrow> string \<Rightarrow> fs \<Rightarrow> (fs \<times> os_err option) option"
and copy_entries ::
  "nat \<Rightarrow> string \<Rightarrow> string \<Rightarrow> (string \<times> node) list \<Rightarrow> fs \<Rightarrow> (fs \<times> os_err option) option"
where
  "copyDir 0 src dst s = None"
| "copyDir (Suc n) src dst s =
     (case os_stat src s of
        Inl e \<Rightarrow> Some (s, Some e)
      | Inr info \<Rightarrow>
          (case os_mkdir_all (node_mode info) dst s of
             Inl e \<Rightarrow> Some (s, Some e)
           | Inr s1 \<Rightarrow>
               (case os_read_dir src s1 of
                  Inl e \<Rightarrow> Some (s1, Some e)
                | Inr entries \<Rightarrow> copy_entries n src dst entries s1)))"
| "copy_entries n src dst [] s = Some (s, None)"
| "copy_entries n src dst ((name, nd) # entries) s =
     (let srcPath = path_join [src, name];
          dstPath = path_join [dst, name]
      in case (if node_is_dir nd then copyDir n srcPath dstPath s
               else Some (copyFile srcPath dstPath s)) of
           None \<Rightarrow> None
         | Some (s', Some e) \<Rightarrow> Some (s', Some e)
         | Some (s', None) \<Rightarrow> copy_entries n src dst entries s')"

definition copyPath :: "nat \<Rightarrow> string \<Rightarrow> string \<Rightarrow> fs \<Rightarrow> (fs \<times> os_err option) option" where
  "copyPath n src0 dst0 s =
     (let src = path_clean src0; dst = path_clean dst0
      in case os_stat src s of
           Inl e \<Rightarrow> Some (s, Some e)
         | Inr info \<Rightarrow>
             if node_is_dir info then copyDir n src dst s else Some (copyFile src dst s))"

record file_op =
  op_op :: string
  op_path :: string
  op_dst :: string
  op_mode :: u32

definition unmarshal_file_op :: "bytes \<Rightarrow> file_op option" where
  "unmarshal_file_op p =
     Option.bind (unmarshal_fields p) (\<lambda>fs.
     Option.bind (string_field ''op'' fs) (\<lambda>op.
     Option.bind (string_field ''path'' fs) (\<lambda>path.
     Option.bind (string_field ''dst'' fs) (\<lambda>dst.
     Option.bind (u32_field ''mode'' fs) (\<lambda>mode.
       Some \<lparr>op_op = op, op_path = path, op_dst = dst, op_mode = mode\<rparr>)))))"

text \<open>The operation behind \<open>handleFileOp\<close>, which only logs errors.\<close>

definition file_op_apply :: "nat \<Rightarrow> file_op \<Rightarrow> fs \<Rightarrow> (fs \<times> os_err option) option" where
  "file_op_apply n op s =
     (if op_op op = ''rename'' then Some (renameFile (op_path op) (op_dst op) s)
      else if op_op op = ''delete'' then Some (deleteFile (op_path op) s)
      else if op_op op = ''chmod'' then Some (chmodFile (op_path op) (op_mode op) s)
      else if op_op op = ''mkdir'' then Some (mkdirPath (op_path op) s)
      else if op_op op = ''touch'' then Some (touchFile (op_path op) s)
      else if op_op op = ''copy'' then copyPath n (op_path op) (op_dst op) s
      else Some (s, None))"

text \<open>\<open>None\<close>: the handler has not returned within the fuel.\<close>

definition handleFileOp :: "nat \<Rightarrow> frame \<Rightarrow> fs \<Rightarrow> (fs \<times> handler_err option) option" where
  "handleFileOp n f s =
     (case unmarshal_file_op (f_payload f) of
        None \<Rightarrow> Some (s, Some BadPayload)
      | Some op \<Rightarrow> map_option (\<lambda>(s', e). (s', None)) (file_op_apply n op s))"

section \<open>The persisted desktop state\<close>

datatype state_err = NoHome | MkdirState os_err | CreateTemp os_err | WriteTemp | CloseTemp
  | RenameTemp os_err | ReadState os_err

definition desktopStatePath :: "string \<Rightarrow> fs \<Rightarrow> (state_err + string) \<times> fs" where
  "desktopStatePath username s =
     (let home0 = path_join [''/home'', username];
          home = (case os_stat home0 s of
                    Inr (Dir m es) \<Rightarrow> Some home0
                  | _ \<Rightarrow> if username = ''root'' then Some ''/root'' else None)
      in case home of
           None \<Rightarrow> (Inl NoHome, s)
         | Some homeDir \<Rightarrow>
             let stateDir = path_join [homeDir, ''.webdesktopd'']
             in case os_mkdir_all 0x1C0 stateDir s of
                  Inl e \<Rightarrow> (Inl (MkdirState e), s)
                | Inr s' \<Rightarrow> (Inr (path_join [stateDir, ''state.json'']), s'))"

text \<open>Faults of the disk while the temporary file is written: after how many bytes the write
  fails, whether \<open>Close\<close> fails, whether the rename fails.\<close>

record save_faults =
  sf_write :: "nat option"
  sf_close :: bool
  sf_rename :: bool

fun create_entry :: "u32 \<Rightarrow> node option \<Rightarrow> os_err + node option" where
  "create_entry m None = Inr (Some (File m []))"
| "create_entry m (Some n) = Inl EEXIST"

definition os_create_excl :: "u32 \<Rightarrow> string \<Rightarrow> fs \<Rightarrow> os_err + fs" where
  "os_create_excl m p s = on_tree (at_entry (create_entry (masked (fs_umask s) m))) p s"

definition remove_entry :: "node option \<Rightarrow> os_err + node option" where
  "remove_entry old = (case old of None \<Rightarrow> Inl ENOENT | Some n \<Rightarrow> Inr None)"

text \<open>\<open>os.Remove\<close> with its error ignored.\<close>

definition os_remove :: "string \<Rightarrow> fs \<Rightarrow> fs" where
  "os_remove p s = fst (with_error s (on_tree (at_entry remove_entry) p s))"

text \<open>
  The result is the list of file systems a crash could leave behind, one after each system
  call, oldest first, and the error; the last file system is the one at return. \<open>rnd\<close> is the
  random part \<open>CreateTemp\<close> ends up with.
\<close>

definition saveDesktopState ::
  "save_faults \<Rightarrow> string \<Rightarrow> string \<Rightarrow> bytes \<Rightarrow> fs \<Rightarrow> fs list \<times> state_err option" where
  "saveDesktopState flt rnd username stateJSON s =
     (case desktopStatePath username s of
        (Inl e, s0) \<Rightarrow> ([s0], Some e)
      | (Inr path, s0) \<Rightarrow>
          let dir = path_dir path;
              tmpName = path_join [dir, ''state-'' @ rnd @ ''.json.tmp'']
          in case os_create_excl 0x180 tmpName s0 of
               Inl e \<Rightarrow> ([s0], Some (CreateTemp e))
             | Inr s1 \<Rightarrow>
                 let written = (case sf_write flt of None \<Rightarrow> stateJSON | Some k \<Rightarrow> take k stateJSON);
                     s2 = fst (with_error s1 (os_write_at 0 written tmpName s1))
                 in if sf_write flt \<noteq> None then
                      ([s0, s1, s2, os_remove tmpName s2], Some WriteTemp)
                    else if sf_close flt then
                      ([s0, s1, s2, os_remove tmpName s2], Some CloseTemp)
                    else
                      (case (if sf_rename flt then Inl EIO else os_rename tmpName path s2) of
                         Inl e \<Rightarrow> ([s0, s1, s2, os_remove tmpName s2], Some (RenameTemp e))
                       | Inr s3 \<Rightarrow> ([s0, s1, s2, s3], None)))"

definition loadDesktopState :: "string \<Rightarrow> fs \<Rightarrow> (state_err + bytes option) \<times> fs" where
  "loadDesktopState username s =
     (case desktopStatePath username s of
        (Inl e, s0) \<Rightarrow> (Inl e, s0)
      | (Inr path, s0) \<Rightarrow>
          (case os_read_file path s0 of
             Inr b \<Rightarrow> (Inr (Some b), s0)
           | Inl ENOENT \<Rightarrow> (Inr None, s0)
           | Inl e \<Rightarrow> (Inl (ReadState e), s0)))"

text \<open>\<open>handleDesktopSave\<close> logs an error and returns none.\<close>

definition handleDesktopSave :: "save_faults \<Rightarrow> string \<Rightarrow> string \<Rightarrow> frame \<Rightarrow> fs \<Rightarrow> fs" where
  "handleDesktopSave flt rnd username f s =
     last (fst (saveDesktopState flt rnd username (f_payload f) s))"

section \<open>Offsets and payloads\<close>

lemma putInt64BE_be: "putInt64BE v = be_bytes 8 v"
proof -
  have "ucast (signed_drop_bit k v) = (ucast (drop_bit k v) :: byte)" if "k \<le> 56" for k
    using that by (intro bit_word_eqI) (auto simp: bit_simps)
  then show ?thesis by (simp add: putInt64BE_def be_bytes_8)
qed

lemma get_int64_be: "length b = 8 \<Longrightarrow> get_int64 b = be_join b"
  by (auto simp: length_Suc_conv eval_nat_numeral get_int64_def be_join_8 simp del: be_join_snoc)

lemma get_int64_put [simp]: "get_int64 (be_bytes 8 v) = v"
  by (simp add: get_int64_be be_join_roundtrip)

lemma be_join_2_i64: "unat (be_join [a, b] :: i64) = unat (be_join [a, b] :: u16)"
proof -
  have "(be_join [a, b] :: i64) = ucast (be_join [a, b] :: u16)"
    by (rule bit_word_eqI) (auto simp: be_join_2 bit_simps dest: bit_imp_le_length)
  moreover have "unat (be_join [a, b] :: u16) < 2 ^ LENGTH(16)" by (rule unsigned_less)
  ultimately show ?thesis by (simp add: unsigned_ucast_eq take_bit_nat_eq_self)
qed

definition upload_payload :: "string \<Rightarrow> string \<Rightarrow> i64 \<Rightarrow> bytes \<Rightarrow> bytes" where
  "upload_payload uploadID path offset data =
     bytes_of_string uploadID @ be_bytes 2 (word_of_nat (length path) :: u16)
     @ bytes_of_string path @ be_bytes 8 offset @ data"

lemma split_upload:
  fixes p :: bytes
  assumes "38 + n + 8 \<le> length p"
  shows "p = take 36 p @ [p ! 36, p ! 37] @ slice p 38 (38 + n)
             @ slice p (38 + n) (38 + n + 8) @ drop (38 + n + 8) p"
proof -
  have "p = take 36 p @ drop 36 p" by simp
  also have "drop 36 p = p ! 36 # p ! 37 # drop 38 p"
    using assms Cons_nth_drop_Suc[of 36 p] Cons_nth_drop_Suc[of 37 p] by simp
  also have "drop 38 p = take n (drop 38 p) @ drop (38 + n) p"
    by (metis append_take_drop_id drop_drop add.commute)
  also have "drop (38 + n) p = take 8 (drop (38 + n) p) @ drop (38 + n + 8) p"
    by (metis append_take_drop_id drop_drop add.commute)
  finally show ?thesis by (simp add: slice_def)
qed

lemma parse_upload_payload:
  assumes "length i = 36" "length path < 65536"
  shows "parse_upload (upload_payload i path off data) = Inr (i, path, off, data)"
proof -
  let ?n = "word_of_nat (length path) :: u16"
  obtain a b where ab: "be_bytes 2 ?n = [a, b]" by (simp add: be_bytes_2)
  let ?p = "upload_payload i path off data"
  have "unat (push_bit 8 (ucast a) OR ucast b :: i64) = unat (be_join [a, b] :: u16)"
    using be_join_2_i64[of a b] by (simp add: be_join_2)
  also have "\<dots> = length path"
    using assms(2) be_join_roundtrip[of 2 ?n] by (simp add: ab unat_of_nat)
  finally have l: "unat (push_bit 8 (ucast a) OR ucast b :: i64) = length path" .
  have ix: "?p ! 36 = a" "?p ! 37 = b"
    using assms(1) by (simp_all add: upload_payload_def ab nth_append)
  have sl: "slice ?p 38 (38 + length path) = bytes_of_string path"
      "slice ?p (38 + length path) (38 + length path + 8) = be_bytes 8 off"
      "take 36 ?p = bytes_of_string i"
    using assms(1) by (simp_all add: upload_payload_def ab slice_def)
  let ?pre = "bytes_of_string i @ [a, b] @ bytes_of_string path @ be_bytes 8 off"
  have "?p = ?pre @ data" "length ?pre = 38 + length path + 8"
    using assms(1) by (simp_all add: upload_payload_def ab)
  then have dr: "drop (38 + length path + 8) ?p = data" by (metis append_eq_conv_conj)
  have "length ?p = 38 + length path + 8 + length data"
    using assms(1) by (simp add: upload_payload_def)
  then show ?thesis
    unfolding parse_upload_def Let_def ix l sl dr by simp
qed

text \<open>C25. The upload frame: a payload is accepted exactly when it is the layout of an upload id
  of 36 bytes, a path of less than 64 KB behind its two-byte length, an eight-byte offset and
  the data; every field is recovered, and shorter payloads are refused.\<close>
theorem upload_layout:
  "parse_upload p = Inr (i, path, off, data) \<longleftrightarrow>
     p = upload_payload i path off data \<and> length i = 36 \<and> length path < 65536"
proof
  assume ok: "parse_upload p = Inr (i, path, off, data)"
  define n where "n = unat (push_bit 8 (ucast (p ! 36)) OR ucast (p ! 37) :: i64)"
  have len: "38 + n + 8 \<le> length p"
    using ok by (auto simp: parse_upload_def n_def Let_def split: if_splits)
  have f: "i = string_of_bytes (take 36 p)" "path = string_of_bytes (slice p 38 (38 + n))"
      "off = get_int64 (slice p (38 + n) (38 + n + 8))" "data = drop (38 + n + 8) p"
    using ok by (auto simp: parse_upload_def n_def Let_def split: if_splits)
  have nu: "n = unat (be_join [p ! 36, p ! 37] :: u16)"
    unfolding n_def using be_join_2_i64[of "p ! 36" "p ! 37"] by (simp add: be_join_2)
  moreover have "unat (be_join [p ! 36, p ! 37] :: u16) < 2 ^ LENGTH(16)" by (rule unsigned_less)
  ultimately have "n < 65536" by simp
  have lp: "length path = n" using f(2) len by (simp add: slice_def)
  have "be_bytes 2 (word_of_nat (length path) :: u16) = [p ! 36, p ! 37]"
    using be_bytes_be_join[of "[p ! 36, p ! 37]", where 'a = 16] lp nu
    by (simp add: numeral_2_eq_2)
  moreover have "be_bytes 8 off = slice p (38 + n) (38 + n + 8)"
  proof -
    have l8: "length (slice p (38 + n) (38 + n + 8)) = 8" using len by (simp add: slice_def)
    have "be_bytes (length (slice p (38 + n) (38 + n + 8)))
        (be_join (slice p (38 + n) (38 + n + 8)) :: i64) = slice p (38 + n) (38 + n + 8)"
      by (rule be_bytes_be_join) (unfold l8, simp)
    then show ?thesis unfolding f(3) get_int64_be[OF l8] l8 .
  qed
  ultimately have "p = upload_payload i path off data"
    using split_upload[OF len] f(1,2,4) by (simp add: upload_payload_def)
  then show "p = upload_payload i path off data \<and> length i = 36 \<and> length path < 65536"
    using lp \<open>n < 65536\<close> f(1) len by simp
qed (simp add: parse_upload_payload)

section \<open>Uploading a file\<close>

lemma sint_of_small: "n < 2 ^ 63 \<Longrightarrow> sint (word_of_nat n :: i64) = int n"
  by (simp add: signed_of_nat signed_take_bit_int_eq_self)

lemma splice_append: "splice (length b) data b = b @ data"
  by (simp add: splice_def)

text \<open>The content a chunk is written over: nothing when the offset is zero.\<close>

definition base_content :: "nat \<Rightarrow> node \<Rightarrow> path \<Rightarrow> bytes" where
  "base_content off t p =
     (if off = 0 then [] else case file_at t p of None \<Rightarrow> [] | Some (m, b) \<Rightarrow> b)"

lemma writeFileChunk_ok:
  assumes p: "path_ok es" "path_clean path = abs_path es" and w: "writable (fs_root s) es"
    and off: "off < 2 ^ 63"
  obtains s' m where "writeFileChunk path (word_of_nat off) data s = (s', None)"
    "writable (fs_root s') es"
    "file_at (fs_root s') es = Some (m, splice off data (base_content off (fs_root s) es))"
    "\<And>q. q \<noteq> es \<Longrightarrow> file_at (fs_root s') q = file_at (fs_root s) q"
proof -
  have ne: "es \<noteq> []" using w by (simp add: writable_def)
  have dir: "path_dir (abs_path es) = abs_path (butlast es)"
    using p(1) ne by (intro path_dir_abs) (simp_all add: path_ok_def)
  let ?md = "masked (fs_umask s) (0x1ED AND 0x3FF)" and ?fm = "masked (fs_umask s) 0x1A4"
  have z: "(word_of_nat off :: i64) = 0 \<longleftrightarrow> off = 0"
  proof -
    have "unat (word_of_nat off :: i64) = off" using off by (simp add: unat_of_nat)
    then show ?thesis by (metis unat_eq_zero)
  qed
  obtain t1 where t1: "make_dirs ?md (butlast es) (fs_root s) = Inr t1" "writable t1 es"
      "is_dir t1 (butlast es)" and f1: "\<And>q. file_at t1 q = file_at (fs_root s) q"
    using writable_make_dirs[OF w] by metis
  let ?b = "base_content off (fs_root s) es"
  define m where "m = (case file_at t1 es of None \<Rightarrow> ?fm | Some (m, b) \<Rightarrow> m)"
  have "open_entry (off = 0) ?fm (map_option (\<lambda>(m, b). File m b) (file_at t1 es)) = Inr (Some (File m ?b))"
    by (auto simp: m_def base_content_def f1 split: option.splits)
  then obtain t2 where t2: "at_entry (open_entry (off = 0) ?fm) es t1 = Inr t2" "writable t2 es"
      "is_dir t2 (butlast es)" "file_at t2 es = Some (m, ?b)"
      and f2: "\<And>q. q \<noteq> es \<Longrightarrow> file_at t2 q = file_at t1 q"
    using writable_at_entry[OF t1(2,3)] by metis
  have "write_entry off data (map_option (\<lambda>(m, b). File m b) (file_at t2 es))
          = Inr (Some (File m (splice off data ?b)))"
    using t2(4) by simp
  then obtain t3 where t3: "at_entry (write_entry off data) es t2 = Inr t3" "writable t3 es"
      "file_at t3 es = Some (m, splice off data ?b)"
      and f3: "\<And>q. q \<noteq> es \<Longrightarrow> file_at t3 q = file_at t2 q"
    using writable_at_entry[OF t2(2,3)] by metis
  have pos: "(if sint (word_of_nat off :: i64) > 0 then nat (sint (word_of_nat off :: i64)) else 0) = off"
    using off by (auto simp: sint_of_small)
  have "writeFileChunk path (word_of_nat off) data s = (s\<lparr>fs_root := t3\<rparr>, None)"
    using t1(1) t2(1) t3(1) p(1)
    by (simp add: writeFileChunk_def p(2) dir pos z os_mkdir_all_def os_open_write_def
        os_write_at_def on_tree_abs path_ok_butlast Let_def)
  then show thesis using that[of "s\<lparr>fs_root := t3\<rparr>" m] t3(2,3) f1 f2 f3 by simp
qed

fun upload_frames :: "u16 \<Rightarrow> string \<Rightarrow> string \<Rightarrow> nat \<Rightarrow> bytes list \<Rightarrow> frame list" where
  "upload_frames c i path off [] = []"
| "upload_frames c i path off (d # ds) =
     \<lparr>f_type = FrameFileUpload, f_chan = c,
      f_payload = upload_payload i path (word_of_nat off) d\<rparr>
     # upload_frames c i path (off + length d) ds"

fun upload_acks :: "u16 \<Rightarrow> string \<Rightarrow> nat \<Rightarrow> bytes list \<Rightarrow> frame list" where
  "upload_acks c i off [] = []"
| "upload_acks c i off (d # ds) =
     upload_progress c i (word_of_nat (off + length d)) # upload_acks c i (off + length d) ds"

definition upload_run where
  "upload_run send r fs sw = fold (\<lambda>f sw. fst (handleFileUpload send r f sw)) fs sw"

context frame_sender
begin

lemma upload_run_ok:
  assumes "path_ok es" "path_clean path = abs_path es" "length path < 65536" "length i = 36"
    and "writable (fs_root s) es" "off + length (concat ds) < 2 ^ 63"
    and "length (base_content off (fs_root s) es) = off"
    and "upload_run send r (upload_frames c i path off ds) (s, w) = (s', w')"
  shows "(ds \<noteq> [] \<longrightarrow> (\<exists>m. file_at (fs_root s') es
            = Some (m, base_content off (fs_root s) es @ concat ds)))
    \<and> (\<forall>q. q \<noteq> es \<longrightarrow> file_at (fs_root s') q = file_at (fs_root s) q)
    \<and> outbox r w' = outbox r w @ map encode (take (room r w) (upload_acks c i off ds))"
  using assms(5-)
proof (induction ds arbitrary: s w off)
  case (Cons d ds)
  let ?f = "\<lparr>f_type = FrameFileUpload, f_chan = c,
      f_payload = upload_payload i path (word_of_nat off) d\<rparr>"
  obtain s1 m where s1: "writeFileChunk path (word_of_nat off) d s = (s1, None)"
      "writable (fs_root s1) es"
      "file_at (fs_root s1) es = Some (m, splice off d (base_content off (fs_root s) es))"
      and o1: "\<And>q. q \<noteq> es \<Longrightarrow> file_at (fs_root s1) q = file_at (fs_root s) q"
    using writeFileChunk_ok[OF assms(1,2) Cons.prems(1), of off d] Cons.prems(2) by (metis (no_types)
        add_lessD1)
  have c1: "file_at (fs_root s1) es = Some (m, base_content off (fs_root s) es @ d)"
    using s1(3) splice_append[of "base_content off (fs_root s) es" d] Cons.prems(3) by simp
  define w1 where "w1 = fst (send r (upload_progress c i (word_of_nat (off + length d))) w)"
  have st: "fst (handleFileUpload send r ?f (s, w)) = (s1, w1)"
    by (simp add: handleFileUpload_def parse_upload_payload[OF assms(4,3)] s1(1) w1_def
        split: prod.splits)
  have run: "upload_run send r (upload_frames c i path (off + length d) ds) (s1, w1) = (s', w')"
    using Cons.prems(4) by (simp add: upload_run_def st)
  have b1: "base_content (off + length d) (fs_root s1) es = base_content off (fs_root s) es @ d"
    using c1 Cons.prems(3) by (auto simp: base_content_def)
  have IH: "(ds \<noteq> [] \<longrightarrow> (\<exists>m. file_at (fs_root s') es
        = Some (m, base_content (off + length d) (fs_root s1) es @ concat ds)))
    \<and> (\<forall>q. q \<noteq> es \<longrightarrow> file_at (fs_root s') q = file_at (fs_root s1) q)
    \<and> outbox r w' = outbox r w1 @ map encode (take (room r w1) (upload_acks c i (off + length d) ds))"
    using Cons.prems(2,3) by (intro Cons.IH[OF s1(2) _ _ run]) (simp_all add: b1)
  have "outbox r w' = outbox r w @ map encode (take (room r w) (upload_acks c i off (d # ds)))"
    using IH by (cases "room r w") (simp_all add: w1_def send_outbox send_room)
  moreover have "\<exists>m. file_at (fs_root s') es
      = Some (m, base_content off (fs_root s) es @ concat (d # ds))"
  proof (cases "ds = []")
    case True
    then show ?thesis using run c1 by (simp add: upload_run_def)
  next
    case False
    then show ?thesis using IH b1 by simp
  qed
  ultimately show ?case using IH o1 by simp
qed (simp add: upload_run_def)

end

text \<open>C12. Uploading: frames that carry the chunks of a file at running offsets from zero leave
  exactly the concatenation of the chunks at the path, whatever was there before, create the
  directories above it and change no other file. The chunks are acknowledged in order, each with
  the number of bytes received so far, but only as many of them as the hub's queue has room for:
  the rest go unacknowledged, and on a closed hub all of them do.\<close>
theorem upload_file:
  assumes "path_ok es" "path_clean path = abs_path es" "length path < 65536" "length i = 36"
    and "writable (fs_root s) es" "ds \<noteq> []" "length (concat ds) < 2 ^ 63"
    and "upload_run store_send r (upload_frames c i path 0 ds) (s, hs) = (s', hs')"
  shows "(\<exists>m. file_at (fs_root s') es = Some (m, concat ds))
    \<and> (\<forall>q. q \<noteq> es \<longrightarrow> file_at (fs_root s') q = file_at (fs_root s) q)
    \<and> hub_outbox (hs' r) = hub_outbox (hs r)
        @ map encode (take (hub_room (hs r)) (upload_acks c i 0 ds))"
  using hub_store.upload_run_ok[OF assms(1-5), of 0 ds r c hs s' hs'] assms(6-)
  by (simp add: base_content_def)

section \<open>Downloading a file\<close>

lemma length_id_bytes [simp]: "length (id_bytes i) = 36"
  by (simp add: id_bytes_def Let_def)

lemma download_chunk_layout:
  assumes "length idb = 36"
  shows "download_chunk idb off data = idb @ putInt64BE off @ data"
proof -
  have r: "replicate (36 + 8 + length data) (0::byte)
      = replicate 36 0 @ replicate 8 0 @ replicate (length data) 0"
    by (simp only: replicate_add append_assoc)
  have l: "length (putInt64BE off) = 8" by (simp add: putInt64BE_def)
  have "go_copy (replicate (36 + 8 + length data) 0) 0 idb
      = idb @ replicate 8 0 @ replicate (length data) 0"
    unfolding r using go_copy_over[of idb "replicate 36 0" 0 "[]"] assms by simp
  moreover have "go_copy (idb @ replicate 8 0 @ replicate (length data) 0) 36 (putInt64BE off)
      = idb @ putInt64BE off @ replicate (length data) 0"
    using assms l by (intro go_copy_over) simp_all
  moreover have "go_copy (idb @ putInt64BE off @ replicate (length data) 0) 44 data
      = idb @ putInt64BE off @ data"
    using assms l go_copy_over[of data "replicate (length data) 0" 44 "idb @ putInt64BE off" "[]"]
    by simp
  ultimately show ?thesis by (simp add: download_chunk_def)
qed

fun download_frames :: "u16 \<Rightarrow> string \<Rightarrow> int \<Rightarrow> nat \<Rightarrow> bytes list \<Rightarrow> frame list" where
  "download_frames c i tot off [] = []"
| "download_frames c i tot off (d # ds) =
     chunk_frame c (id_bytes i) (word_of_nat off) d
     # download_progress c i (word_of_nat (off + length d)) tot
     # download_frames c i tot (off + length d) ds"

text \<open>What a client makes of the chunks it receives: it writes each at its offset.\<close>

definition reassemble :: "frame list \<Rightarrow> bytes \<Rightarrow> bytes" where
  "reassemble fs b =
     fold (\<lambda>f b. splice (unat (get_int64 (slice (f_payload f) 36 44))) (drop 44 (f_payload f)) b)
       (filter (\<lambda>f. f_type f = FrameFileDownload) fs) b"

lemma reassemble_download:
  "length b + length (concat ds) < 2 ^ 63 \<Longrightarrow>
     reassemble (download_frames c i tot (length b) ds) b = b @ concat ds"
proof (induction ds arbitrary: b)
  case (Cons d ds)
  let ?p = "f_payload (chunk_frame c (id_bytes i) (word_of_nat (length b)) d)"
  have p: "?p = id_bytes i @ be_bytes 8 (word_of_nat (length b) :: i64) @ d"
    by (simp add: chunk_frame_def download_chunk_layout putInt64BE_be)
  have "slice ?p 36 44 = be_bytes 8 (word_of_nat (length b) :: i64)" "drop 44 ?p = d"
    unfolding p by (simp_all add: slice_def)
  moreover have "unat (word_of_nat (length b) :: i64) = length b"
    using Cons.prems by (simp add: unat_of_nat)
  ultimately show ?case
    using Cons.IH[of "b @ d"] Cons.prems
    by (simp add: reassemble_def splice_append chunk_frame_def download_progress_def)
qed (simp add: reassemble_def)

lemma concat_chop: "0 < n \<Longrightarrow> concat (chop n xs) = xs"
proof (induction n xs rule: chop.induct)
  case (1 n xs)
  show ?case
  proof (cases "xs = []")
    case False
    then have "chop n xs = take n xs # chop n (drop n xs)"
      using 1(2) by (subst chop.simps) simp
    then show ?thesis using 1 False by simp
  qed (simp add: chop.simps)
qed

lemma chop_pieces: "d \<in> set (chop n xs) \<Longrightarrow> d \<noteq> [] \<and> length d \<le> n"
proof (induction n xs rule: chop.induct)
  case (1 n xs)
  then show ?case by (subst (asm) (2) chop.simps) (auto split: if_splits)
qed

context frame_sender
begin

lemma download_loop_ok:
  assumes "\<not> closed r w" "\<forall>d \<in> set ds. d \<noteq> []"
    and "download_loop send r c i tot (word_of_nat off)
           (map (\<lambda>d. (False, d, ReadMore)) ds @ [(False, [], ReadEOF)]) w = (w', res)"
  shows "res = Some DlDone
    \<and> outbox r w' = outbox r w @ map encode (take (room r w) (download_frames c i tot off ds))"
  using assms
proof (induction ds arbitrary: w off)
  case (Cons d ds)
  define w1 where "w1 = fst (send r (chunk_frame c (id_bytes i) (word_of_nat off) d) w)"
  define w2 where "w2 = fst (send r (download_progress c i (word_of_nat (off + length d)) tot) w1)"
  have s: "send r (chunk_frame c (id_bytes i) (word_of_nat off) d) w = (w1, False)"
    using Cons.prems(1) send_error by (simp add: w1_def prod_eq_iff)
  have "\<not> closed r w2" using Cons.prems(1) by (simp add: w1_def w2_def send_closed)
  moreover have "download_loop send r c i tot (word_of_nat (off + length d))
      (map (\<lambda>d. (False, d, ReadMore)) ds @ [(False, [], ReadEOF)]) w2 = (w', res)"
    using Cons.prems(2,3) s by (simp add: Let_def w2_def)
  ultimately have IH: "res = Some DlDone \<and> outbox r w'
      = outbox r w2 @ map encode (take (room r w2) (download_frames c i tot (off + length d) ds))"
    using Cons.prems(2) by (intro Cons.IH) simp_all
  have "outbox r w2 = outbox r w @ map encode (take (room r w)
      [chunk_frame c (id_bytes i) (word_of_nat off) d,
       download_progress c i (word_of_nat (off + length d)) tot])"
    by (simp add: w1_def w2_def send_outbox send_room take_Cons')
  moreover have "room r w2 = room r w - 2" by (simp add: w1_def w2_def send_room)
  ultimately show ?case
    using IH by (auto simp: take_Cons' numeral_2_eq_2)
qed (simp add: prod_eq_iff)

end

text \<open>C19. Downloading: on an open connection the transfer of a file always ends as done. The frames
  handed over are its 64 KB chunks in order, each followed by the number of bytes sent; a
  client that gets all of them and writes every chunk at its offset has the file. The
  connection takes as many of them as its channel has room for and loses the others without
  the transfer noticing.\<close>
theorem download_file:
  assumes "path_ok es" "path_clean path = abs_path es" "file_at (fs_root s) es = Some (m, b)"
    and "length b < 2 ^ 63" "\<not> hb_done (hs r)"
    and "streamFileDownload err_text file_turns store_send r c i path s hs = (hs', res)"
  shows "res = DlRead (Some DlDone)
    \<and> hub_outbox (hs' r) = hub_outbox (hs r) @ map encode (take (hub_room (hs r))
        (download_frames c i (int (length b)) 0 (chop downloadChunkSize b)))
    \<and> reassemble (download_frames c i (int (length b)) 0 (chop downloadChunkSize b)) [] = b"
proof -
  let ?ds = "chop downloadChunkSize b"
  have cat: "concat ?ds = b" by (rule concat_chop) (simp add: downloadChunkSize_def)
  have st: "os_stat (path_clean path) s = Inr (File m b)"
    using assms(1,3) by (simp add: assms(2) os_stat_abs walk_file_at)
  obtain e where run: "download_loop store_send r c i (int (length b)) (word_of_nat 0)
      (map (\<lambda>d. (False, d, ReadMore)) ?ds @ [(False, [], ReadEOF)]) hs = (hs', e)"
    and res: "res = DlRead e"
    using assms(6) st by (auto simp: streamFileDownload_def file_turns_def split: prod.splits)
  have "\<forall>d \<in> set ?ds. d \<noteq> []" using chop_pieces by blast
  from hub_store.download_loop_ok[OF assms(5) this run] show ?thesis
    using res reassemble_download[of "[]" ?ds c i "int (length b)"] assms(4) cat by simp
qed

section \<open>Saving the desktop state\<close>

definition user_ok :: "string \<Rightarrow> bool" where
  "user_ok u \<longleftrightarrow> plain_name u \<and> CHR 0x00 \<notin> set u"

definition home_of :: "string \<Rightarrow> path" where
  "home_of u = [''home'', u]"

definition state_dir :: "string \<Rightarrow> path" where
  "state_dir u = home_of u @ [''.webdesktopd'']"

definition state_file :: "string \<Rightarrow> path" where
  "state_file u = state_dir u @ [''state.json'']"

definition temp_file :: "string \<Rightarrow> string \<Rightarrow> path" where
  "temp_file u rnd = state_dir u @ [''state-'' @ rnd @ ''.json.tmp'']"

lemma state_paths:
  assumes "user_ok u"
  shows "path_join [''/home'', u] = abs_path (home_of u)"
    "path_join [abs_path (home_of u), ''.webdesktopd''] = abs_path (state_dir u)"
    "path_join [abs_path (state_dir u), ''state.json''] = abs_path (state_file u)"
    "path_dir (abs_path (state_file u)) = abs_path (state_dir u)"
    "path_ok (home_of u)" "path_ok (state_dir u)" "path_ok (state_file u)"
proof -
  have h: "''/home'' = abs_path [''home'']" "path_ok [''home'']"
    by (simp_all add: abs_path_def path_ok_def plain_name_def)
  have u: "plain_name u" "CHR 0x00 \<notin> set u" using assms by (simp_all add: user_ok_def)
  show "path_join [''/home'', u] = abs_path (home_of u)" and ph: "path_ok (home_of u)"
    using path_join_abs[OF h(2) u] unfolding h(1) home_of_def by simp_all
  have w: "plain_name ''.webdesktopd''" "plain_name ''state.json''" by (simp_all add: plain_name_def)
  show "path_join [abs_path (home_of u), ''.webdesktopd''] = abs_path (state_dir u)"
    and pd: "path_ok (state_dir u)"
    using path_join_abs[OF ph w(1)] unfolding state_dir_def by simp_all
  show "path_join [abs_path (state_dir u), ''state.json''] = abs_path (state_file u)"
    and pf: "path_ok (state_file u)"
    using path_join_abs[OF pd w(2)] unfolding state_file_def by simp_all
  show "path_dir (abs_path (state_file u)) = abs_path (state_dir u)"
    using path_dir_abs[of "state_file u"] pf by (simp add: path_ok_def state_file_def)
qed

lemma temp_path:
  assumes "user_ok u" "list_all is_digit rnd"
  shows "path_join [abs_path (state_dir u), ''state-'' @ rnd @ ''.json.tmp''] = abs_path (temp_file u rnd)"
    "path_ok (temp_file u rnd)"
proof -
  have d: "c \<noteq> CHR ''/'' \<and> c \<noteq> CHR 0x00" if "c \<in> set rnd" for c
    using assms(2) that by (auto simp: list_all_iff is_digit_def less_eq_char_def)
  have "plain_name (''state-'' @ rnd @ ''.json.tmp'')" "CHR 0x00 \<notin> set (''state-'' @ rnd @ ''.json.tmp'')"
    using d by (auto simp: plain_name_def)
  from path_join_abs[OF state_paths(6)[OF assms(1)] this]
  show "path_join [abs_path (state_dir u), ''state-'' @ rnd @ ''.json.tmp''] = abs_path (temp_file u rnd)"
    "path_ok (temp_file u rnd)" by (simp_all add: temp_file_def)
qed

lemma state_temp_siblings:
  "\<not> prefix (temp_file u rnd) (state_file u)" "\<not> prefix (state_file u) (temp_file u rnd)"
  by (auto simp: temp_file_def state_file_def)

lemma desktopStatePath_home:
  assumes "user_ok u" "is_dir (fs_root s) (home_of u)" "desktopStatePath u s = (r, s0)"
  obtains (failed) e where "r = Inl (MkdirState e)" "s0 = s"
  | (ok) "r = Inr (abs_path (state_file u))" "\<And>q. file_at (fs_root s0) q = file_at (fs_root s) q"
      "is_dir (fs_root s0) (state_dir u)" "\<And>q. is_dir (fs_root s) q \<Longrightarrow> is_dir (fs_root s0) q"
proof -
  note p = state_paths[OF assms(1)]
  obtain m es where h: "walk (fs_root s) (home_of u) = Inr (Dir m es)"
    using assms(2) walk_is_dir by blast
  show thesis
  proof (cases "make_dirs (masked (fs_umask s) (0x1C0 AND 0x3FF)) (state_dir u) (fs_root s)")
    case (Inl e)
    then have "r = Inl (MkdirState e)" "s0 = s"
      using assms(3) p h
      by (simp_all add: desktopStatePath_def Let_def os_stat_abs os_mkdir_all_def on_tree_abs)
    then show thesis by (rule that(1))
  next
    case (Inr t)
    then have "r = Inr (abs_path (state_file u))" "s0 = s\<lparr>fs_root := t\<rparr>"
      using assms(3) p h
      by (simp_all add: desktopStatePath_def Let_def os_stat_abs os_mkdir_all_def on_tree_abs)
    then show thesis
      using that(2) make_dirs_files[OF Inr] make_dirs_dir[OF Inr] make_dirs_keeps[OF Inr] by simp
  qed
qed

text \<open>Once the state directory exists, loading reads the file.\<close>

lemma loadDesktopState_file:
  assumes "user_ok u" "is_dir (fs_root s) (home_of u)" "is_dir (fs_root s) (state_dir u)"
    and "file_at (fs_root s) (state_file u) = Some (m, b)"
  shows "fst (loadDesktopState u s) = Inr (Some b)"
proof -
  obtain t where t: "make_dirs (masked (fs_umask s) (0x1C0 AND 0x3FF)) (state_dir u) (fs_root s) = Inr t"
    using make_dirs_idem[OF assms(3)] by blast
  obtain r s0 where p: "desktopStatePath u s = (r, s0)" by fastforce
  show ?thesis
    using assms(1,2) p
  proof (cases rule: desktopStatePath_home)
    case (failed e)
    then show ?thesis
      using p t assms(2) state_paths[OF assms(1)]
      by (auto simp: desktopStatePath_def Let_def os_stat_abs os_mkdir_all_def on_tree_abs
          walk_is_dir)
  next
    case ok
    then have "walk (fs_root s0) (state_file u) = Inr (File m b)"
      using assms(4) by (simp add: walk_file_at)
    then show ?thesis
      using p ok(1) state_paths(7)[OF assms(1)]
      by (simp add: loadDesktopState_def os_read_file_def os_stat_abs)
  qed
qed

lemma os_remove_temp:
  assumes "path_ok p" "\<not> prefix p q"
  shows "file_at (fs_root (os_remove (abs_path p) s)) q = file_at (fs_root s) q"
proof (cases "on_tree (at_entry remove_entry) (abs_path p) s")
  case (Inr s')
  then show ?thesis
    using at_entry_abs_cases(2)[OF assms(1) Inr assms(2)] by (simp add: os_remove_def with_error_def)
qed (simp add: os_remove_def with_error_def)

lemma os_write_file:
  assumes "path_ok p" "p \<noteq> []" "file_at (fs_root s) p = Some (m, b)"
  obtains s' where "os_write_at off data (abs_path p) s = Inr s'"
    "file_at (fs_root s') p = Some (m, splice off data b)"
    "\<And>q. q \<noteq> p \<Longrightarrow> file_at (fs_root s') q = file_at (fs_root s) q"
    "\<And>q. \<not> prefix p q \<Longrightarrow> is_dir (fs_root s') q = is_dir (fs_root s) q"
proof -
  note w = file_writable[OF assms(3,2)]
  have "write_entry off data (map_option (\<lambda>(m, b). File m b) (file_at (fs_root s) p))
          = Inr (Some (File m (splice off data b)))"
    using assms(3) by simp
  then obtain t where t: "at_entry (write_entry off data) p (fs_root s) = Inr t"
      "file_at t p = Some (m, splice off data b)"
      "\<And>q. q \<noteq> p \<Longrightarrow> file_at t q = file_at (fs_root s) q"
    using writable_at_entry[OF w] by metis
  then show thesis
    using that[of "s\<lparr>fs_root := t\<rparr>"] at_entry_is_dir[OF t(1)] assms(1)
    by (simp add: os_write_at_def on_tree_abs)
qed

lemma os_create_file:
  assumes "path_ok p" "os_create_excl m (abs_path p) s = Inr s'"
  shows "\<exists>m'. file_at (fs_root s') p = Some (m', [])"
    "\<not> prefix p q \<Longrightarrow> file_at (fs_root s') q = file_at (fs_root s) q"
    "\<not> prefix p q \<Longrightarrow> is_dir (fs_root s') q = is_dir (fs_root s) q"
proof -
  note c = at_entry_abs_cases[OF assms(1) assms(2)[unfolded os_create_excl_def]]
  from c(1) have "\<exists>m'. entry (fs_root s') p = Some (File m' [])"
    by (cases "entry (fs_root s) p") auto
  then show "\<exists>m'. file_at (fs_root s') p = Some (m', [])" by (auto simp: file_at_def)
  show "\<not> prefix p q \<Longrightarrow> file_at (fs_root s') q = file_at (fs_root s) q"
    "\<not> prefix p q \<Longrightarrow> is_dir (fs_root s') q = is_dir (fs_root s) q"
    using c(2,3) by simp_all
qed

text \<open>What the save does, case by case; \<open>s0\<close> is the file system once the directory exists.\<close>

lemma saveDesktopState_cases:
  assumes "user_ok u" "list_all is_digit rnd" "is_dir (fs_root s) (home_of u)"
    and "saveDesktopState flt rnd u json s = (trace, err)"
  obtains (no_dir) "trace = [s]" "err \<noteq> None"
  | (no_temp) s0 where "trace = [s0]" "err \<noteq> None" "\<And>q. file_at (fs_root s0) q = file_at (fs_root s) q"
  | (aborted) s0 s1 s2 where "trace = [s0, s1, s2, os_remove (abs_path (temp_file u rnd)) s2]"
      "err \<noteq> None" "\<And>q. file_at (fs_root s0) q = file_at (fs_root s) q"
      "\<And>s' q. s' \<in> {s1, s2} \<Longrightarrow> \<not> prefix (temp_file u rnd) q \<Longrightarrow> file_at (fs_root s') q = file_at (fs_root s) q"
  | (saved) s0 s1 s2 s3 m where "trace = [s0, s1, s2, s3]" "err = None"
      "\<And>q. file_at (fs_root s0) q = file_at (fs_root s) q"
      "\<And>s' q. s' \<in> {s1, s2} \<Longrightarrow> \<not> prefix (temp_file u rnd) q \<Longrightarrow> file_at (fs_root s') q = file_at (fs_root s) q"
      "file_at (fs_root s2) (temp_file u rnd) = Some (m, json)"
      "is_dir (fs_root s2) (home_of u)" "is_dir (fs_root s2) (state_dir u)"
      "os_rename (abs_path (temp_file u rnd)) (abs_path (state_file u)) s2 = Inr s3"
proof -
  note p = state_paths[OF assms(1)] temp_path[OF assms(1,2)]
  obtain r s0 where path: "desktopStatePath u s = (r, s0)" by fastforce
  show thesis
    using assms(1,3) path
  proof (cases rule: desktopStatePath_home)
    case (failed e)
    then have "trace = [s]" "err \<noteq> None"
      using assms(4) path by (auto simp: saveDesktopState_def)
    then show thesis by (rule that(1))
  next
    case ok
    show thesis
    proof (cases "os_create_excl 0x180 (abs_path (temp_file u rnd)) s0")
      case (Inl e)
      then have "trace = [s0]" "err \<noteq> None"
        using assms(4) path ok(1) p by (auto simp: saveDesktopState_def Let_def)
      then show thesis using ok(2) by (rule that(2))
    next
      case (Inr s1)
      note c = os_create_file[OF p(9) Inr]
      obtain m where m: "file_at (fs_root s1) (temp_file u rnd) = Some (m, [])" using c(1) by blast
      define written where "written = (case sf_write flt of None \<Rightarrow> json | Some k \<Rightarrow> take k json)"
      have ne: "temp_file u rnd \<noteq> []" by (simp add: temp_file_def)
      obtain s2 where s2: "os_write_at 0 written (abs_path (temp_file u rnd)) s1 = Inr s2"
          "file_at (fs_root s2) (temp_file u rnd) = Some (m, splice 0 written [])"
          "\<And>q. q \<noteq> temp_file u rnd \<Longrightarrow> file_at (fs_root s2) q = file_at (fs_root s1) q"
          "\<And>q. \<not> prefix (temp_file u rnd) q \<Longrightarrow> is_dir (fs_root s2) q = is_dir (fs_root s1) q"
        using os_write_file[OF p(9) ne m] by metis
      have o: "file_at (fs_root s') q = file_at (fs_root s) q"
        if "s' \<in> {s1, s2}" "\<not> prefix (temp_file u rnd) q" for s' q
        using that c(2)[of q] s2(3)[of q] ok(2)[of q] by auto
      have d: "is_dir (fs_root s2) (home_of u)" "is_dir (fs_root s2) (state_dir u)"
        using s2(4) c(3) ok(3) ok(4)[OF assms(3)]
        by (simp_all add: temp_file_def state_dir_def)
      note sv = assms(4)[unfolded saveDesktopState_def path prod.case ok(1) sum.case p(4) p(8) Inr Let_def
          written_def[symmetric] s2(1) with_error_def fst_conv]
      show thesis
      proof (cases "sf_write flt \<noteq> None \<or> sf_close flt")
        case True
        then show thesis using sv that(3)[OF _ _ ok(2) o] by (auto split: if_splits)
      next
        case False
        then have w: "splice 0 written [] = json" by (simp add: written_def splice_def)
        show thesis
          using sv False that(3)[OF _ _ ok(2) o] that(4)[OF _ _ ok(2) o s2(2)[unfolded w] d]
          by (auto split: if_splits sum.splits)
      qed
    qed
  qed
qed

text \<open>C11. Saving the desktop state is atomic: whatever fails on the way, every file system a crash
  could leave behind before the last one still has the old state file; when the save reports
  success the file holds the new state and loading returns it; when it reports an error the
  old file is untouched. No file but the state file and the temporary one ever changes.\<close>
theorem save_is_atomic:
  assumes "user_ok u" "list_all is_digit rnd" "is_dir (fs_root s) (home_of u)"
    and "saveDesktopState flt rnd u json s = (trace, err)"
  shows "(\<forall>s' \<in> set (butlast trace).
        file_at (fs_root s') (state_file u) = file_at (fs_root s) (state_file u))
    \<and> (err = None \<longrightarrow> (\<exists>m. file_at (fs_root (last trace)) (state_file u) = Some (m, json))
        \<and> fst (loadDesktopState u (last trace)) = Inr (Some json))
    \<and> (err \<noteq> None \<longrightarrow> file_at (fs_root (last trace)) (state_file u)
        = file_at (fs_root s) (state_file u))
    \<and> (\<forall>s' \<in> set trace. \<forall>q. \<not> prefix (state_file u) q \<and> \<not> prefix (temp_file u rnd) q
        \<longrightarrow> file_at (fs_root s') q = file_at (fs_root s) q)"
  using assms
proof (cases rule: saveDesktopState_cases)
  case (aborted s0 s1 s2)
  note r = os_remove_temp[OF temp_path(2)[OF assms(1,2)]]
  show ?thesis using aborted state_temp_siblings[of u rnd] r by auto
next
  case (saved s0 s1 s2 s3 m)
  note ok = temp_path(2)[OF assms(1,2)] state_paths(7)[OF assms(1)] state_temp_siblings
  note mv = os_rename_file[OF ok saved(5) saved(8)]
  have h: "is_dir (fs_root s3) (home_of u)" "is_dir (fs_root s3) (state_dir u)"
    using mv(4) saved(6,7) by (simp_all add: state_file_def temp_file_def state_dir_def)
  show ?thesis
    using saved mv(1,3) loadDesktopState_file[OF assms(1) h mv(1)] state_temp_siblings[of u rnd]
    by auto
qed auto

section \<open>Copying and renaming a file\<close>

text \<open>Copying a file to a place that can be written makes it hold the source's content, keeps
  the source and changes no other file.\<close>
theorem copy_file_correct:
  assumes "path_ok p" "path_ok q" "path_clean src = abs_path p" "path_clean dst = abs_path q"
    and "p \<noteq> q" "file_at (fs_root s) p = Some (m, b)" "writable (fs_root s) q"
  shows "\<exists>s' m'. copyPath n src dst s = Some (s', None) \<and> file_at (fs_root s') q = Some (m', b)
    \<and> (\<forall>x. x \<noteq> q \<longrightarrow> file_at (fs_root s') x = file_at (fs_root s) x)"
proof -
  have ne: "q \<noteq> []" using assms(7) by (simp add: writable_def)
  have dir: "path_dir (abs_path q) = abs_path (butlast q)"
    using assms(2) ne by (intro path_dir_abs) (simp_all add: path_ok_def)
  have w: "walk (fs_root s) p = Inr (File m b)" using assms(6) by (simp add: walk_file_at)
  obtain t1 where t1: "make_dirs (masked (fs_umask s) (0x1ED AND 0x3FF)) (butlast q) (fs_root s) = Inr t1"
      "writable t1 q" "is_dir t1 (butlast q)" and f1: "\<And>x. file_at t1 x = file_at (fs_root s) x"
    using writable_make_dirs[OF assms(7)] by metis
  define md where "md = (case file_at t1 q of None \<Rightarrow> masked (fs_umask s) m | Some (m', b') \<Rightarrow> m')"
  have "open_entry True (masked (fs_umask s) m) (map_option (\<lambda>(m, b). File m b) (file_at t1 q))
          = Inr (Some (File md []))"
    by (auto simp: md_def split: option.splits)
  then obtain t2 where t2: "at_entry (open_entry True (masked (fs_umask s) m)) q t1 = Inr t2"
      "file_at t2 q = Some (md, [])" and f2: "\<And>x. x \<noteq> q \<Longrightarrow> file_at t2 x = file_at t1 x"
    using writable_at_entry[OF t1(2,3)] by metis
  let ?s2 = "s\<lparr>fs_root := t2\<rparr>"
  have r: "os_read_file (abs_path p) ?s2 = Inr b"
    using f1 f2 assms(1,5,6) walk_file_at[of t2 p m b] by (simp add: os_read_file_def os_stat_abs)
  have e: "file_at (fs_root ?s2) q = Some (md, [])" using t2(2) by simp
  obtain s3 where s3: "os_write_at 0 b (abs_path q) ?s2 = Inr s3"
      "file_at (fs_root s3) q = Some (md, splice 0 b [])"
      "\<And>x. x \<noteq> q \<Longrightarrow> file_at (fs_root s3) x = file_at t2 x"
    by (rule os_write_file[OF assms(2) ne e, of 0 b]) simp
  have "copyPath n src dst s = Some (s3, None)"
    using w t1(1) t2(1) s3(1) assms(1,2)
    by (simp add: copyPath_def Let_def assms(3,4) os_stat_abs copyFile_def dir os_mkdir_all_def
        os_open_write_def on_tree_abs path_ok_butlast io_copy_def r)
  then show ?thesis using s3(2,3) f1 f2 by (intro exI[of _ s3] exI[of _ md]) (simp add: splice_def)
qed

text \<open>Copying a file onto itself reports success and leaves the file empty: opening the
  destination truncates it before the source is read.\<close>
theorem copy_onto_itself_empties:
  assumes "path_ok p" "path_clean src = abs_path p" "path_clean dst = abs_path p"
    and "file_at (fs_root s) p = Some (m, b)" "p \<noteq> []"
  shows "\<exists>s'. copyPath n src dst s = Some (s', None) \<and> file_at (fs_root s') p = Some (m, [])"
proof -
  have dir: "path_dir (abs_path p) = abs_path (butlast p)"
    using assms(1,5) by (intro path_dir_abs) (simp_all add: path_ok_def)
  have w: "walk (fs_root s) p = Inr (File m b)" using assms(4) by (simp add: walk_file_at)
  obtain t1 where t1: "make_dirs (masked (fs_umask s) (0x1ED AND 0x3FF)) (butlast p) (fs_root s) = Inr t1"
      "writable t1 p" "is_dir t1 (butlast p)" and f1: "file_at t1 p = Some (m, b)"
    using writable_make_dirs[OF file_writable(1)[OF assms(4,5)]] assms(4) by metis
  obtain t2 where t2: "at_entry (open_entry True (masked (fs_umask s) m)) p t1 = Inr t2"
      "file_at t2 p = Some (m, [])"
    using writable_at_entry[OF t1(2,3), of "open_entry True (masked (fs_umask s) m)" m "[]"] f1 by auto
  let ?s2 = "s\<lparr>fs_root := t2\<rparr>"
  have r: "os_read_file (abs_path p) ?s2 = Inr []"
    using t2(2) assms(1) walk_file_at[of t2 p m "[]"] by (simp add: os_read_file_def os_stat_abs)
  have e: "file_at (fs_root ?s2) p = Some (m, [])" using t2(2) by simp
  obtain s3 where s3: "os_write_at 0 [] (abs_path p) ?s2 = Inr s3"
      "file_at (fs_root s3) p = Some (m, splice 0 [] [])"
    by (rule os_write_file[OF assms(1,5) e, of 0 "[]"])
  have "copyPath n src dst s = Some (s3, None)"
    using w t1(1) t2(1) s3(1) assms(1)
    by (simp add: copyPath_def Let_def assms(2,3) os_stat_abs copyFile_def dir os_mkdir_all_def
        os_open_write_def on_tree_abs path_ok_butlast io_copy_def r)
  then show ?thesis using s3(2) by (auto simp: splice_def)
qed

section \<open>Witnesses\<close>

definition demo_fs :: fs where
  "demo_fs = \<lparr>fs_root = Dir 0x1ED [(''home'', Dir 0x1ED [(''a'', Dir 0x1ED [(''f'', File 0x1A4 [1, 2])])])],
              fs_cwd = [], fs_umask = 0x12\<rparr>"

lemma demo_paths:
  "path_ok [''home'', ''a'', ''f'']" "path_ok [''home'', ''a'', ''g'']"
  "path_clean ''/home/a/f'' = abs_path [''home'', ''a'', ''f'']"
  "path_clean ''/home/a/./g'' = abs_path [''home'', ''a'', ''g'']"
  by (simp_all add: path_ok_def plain_name_def path_clean_def abs_path_def is_rooted_def has_prefix_def)

lemma demo_writable:
  "writable (fs_root demo_fs) [''home'', ''a'', ''f'']" "writable (fs_root demo_fs) [''home'', ''a'', ''g'']"
  by (auto simp: writable_def demo_fs_def strict_prefix_def prefix_Cons)

theorem upload_file_witness:
  "\<exists>(s' :: fs) hs'. (\<exists>m. file_at (fs_root s') [''home'', ''a'', ''f''] = Some (m, [7, 8, 9]))
     \<and> hub_outbox (hs' (0 :: nat) :: nat hub)
       = map encode (upload_acks 0 (replicate 36 CHR ''x'') 0 [[7, 8], [9]])"
proof -
  let ?id = "replicate 36 CHR ''x''" and ?hs = "\<lambda>_. hub_new :: nat hub"
  obtain s' hs' where run: "upload_run store_send (0 :: nat)
      (upload_frames 0 ?id ''/home/a/f'' 0 [[7, 8], [9]]) (demo_fs, ?hs) = (s', hs')"
    by fastforce
  have h: "hub_outbox (?hs 0) = []" "hub_room (?hs 0) = 256"
    by (simp_all add: hub_new_def hub_outbox_def hub_room_def writeChanSize_def)
  have "(\<exists>m. file_at (fs_root s') [''home'', ''a'', ''f''] = Some (m, concat [[7, 8], [9]]))
     \<and> hub_outbox (hs' 0) = hub_outbox (?hs 0)
         @ map encode (take (hub_room (?hs 0)) (upload_acks 0 ?id 0 [[7, 8], [9]]))"
    using upload_file[OF demo_paths(1,3) _ _ demo_writable(1) _ _ run] by simp
  then show ?thesis unfolding h by (intro exI[of _ s'] exI[of _ hs']) simp
qed

theorem download_file_witness:
  "\<exists>fs. reassemble fs [] = [1, 2] \<and> length fs = 2"
proof -
  let ?hs = "\<lambda>_. hub_new :: nat hub"
  obtain hs' res where run: "streamFileDownload (\<lambda>_. []) file_turns store_send (0 :: nat) 0 ''id''
      ''/home/a/f'' demo_fs ?hs = (hs', res)"
    by fastforce
  have f: "file_at (fs_root demo_fs) [''home'', ''a'', ''f''] = Some (0x1A4, [1, 2])"
    by (simp add: demo_fs_def)
  have "chop downloadChunkSize [1, 2 :: byte] = [[1, 2]]"
    by (simp add: chop.simps downloadChunkSize_def)
  moreover have "reassemble (download_frames 0 ''id'' (int (length [1, 2 :: byte])) 0
      (chop downloadChunkSize [1, 2])) [] = [1, 2]"
    using download_file[OF demo_paths(1,3) f _ _ run] by (simp add: hub_new_def)
  ultimately have "reassemble (download_frames 0 ''id'' 2 0 [[1, 2]]) [] = [1, 2]" by simp
  then show ?thesis
    by (intro exI[of _ "download_frames 0 ''id'' 2 0 [[1, 2]]"]) simp
qed

theorem save_is_atomic_witness:
  "\<exists>trace. fst (loadDesktopState ''a'' (last trace)) = Inr (Some [123, 125])"
proof -
  let ?flt = "\<lparr>sf_write = None, sf_close = False, sf_rename = False\<rparr>"
  have u: "user_ok ''a''" "list_all is_digit ''17''" "is_dir (fs_root demo_fs) (home_of ''a'')"
    by (simp_all add: user_ok_def plain_name_def is_digit_def less_eq_char_def home_of_def demo_fs_def)
  obtain trace err where run: "saveDesktopState ?flt ''17'' ''a'' [123, 125] demo_fs = (trace, err)"
    by fastforce
  have "err = None"
  proof -
    note p = state_paths[OF u(1)] temp_path[OF u(1,2)]
    note q = p[unfolded home_of_def state_dir_def state_file_def temp_file_def, simplified]
    have "snd (saveDesktopState ?flt ''17'' ''a'' [123, 125] demo_fs) = None"
      by (simp add: saveDesktopState_def desktopStatePath_def Let_def q os_stat_abs os_mkdir_all_def
          os_create_excl_def os_write_at_def os_rename_def on_tree_abs fs_resolve_abs demo_fs_def
          with_error_def move_entry_def
          splice_def less_char_def)
    then show ?thesis by (simp add: run)
  qed
  then show ?thesis using save_is_atomic[OF u run] by blast
qed

theorem copy_file_correct_witness:
  "\<exists>s' m'. copyPath 1 ''/home/a/f'' ''/home/a/./g'' demo_fs = Some (s', None)
     \<and> file_at (fs_root s') [''home'', ''a'', ''g''] = Some (m', [1, 2])"
proof -
  have f: "file_at (fs_root demo_fs) [''home'', ''a'', ''f''] = Some (0x1A4, [1, 2])"
    by (simp add: demo_fs_def)
  show ?thesis
    using copy_file_correct[OF demo_paths(1,2,3,4) _ f demo_writable(2), of 1] by auto
qed

theorem copy_onto_itself_empties_witness:
  "\<exists>s'. copyPath 1 ''/home/a/f'' ''/home/a/f'' demo_fs = Some (s', None)
     \<and> file_at (fs_root s') [''home'', ''a'', ''f''] = Some (0x1A4, [])"
proof -
  have f: "file_at (fs_root demo_fs) [''home'', ''a'', ''f''] = Some (0x1A4, [1, 2])"
    by (simp add: demo_fs_def)
  show ?thesis using copy_onto_itself_empties[OF demo_paths(1,3,3) f, of 1] by simp
qed

end
