(* ===== verification/Proc_Stats.thy ===== *)
theory Proc_Stats
  imports Complex_Main Go_Text
begin

text \<open>
  The sampling half of \<open>internal/stats/collector.go\<close>: parsing of the \<open>/proc\<close> files, the rates
  between two samples and \<open>collect\<close>. Counters are 64-bit words and wrap as in Go. A \<open>float64\<close>
  is an exact rational, so rounding is outside the model; \<open>strconv.ParseFloat\<close> is an
  argument. The content of a file is \<open>None\<close> when it cannot be opened.
\<close>

section \<open>CPU\<close>

record cpu_sample =
  cpu_total :: u64
  cpu_idle :: u64

definition cpu_zero :: cpu_sample where
  "cpu_zero = \<lparr>cpu_total = 0, cpu_idle = 0\<rparr>"

text \<open>\<open>vals[i]\<close> after the loop over the fields: what \<open>ParseUint\<close> returned, error or not.\<close>

definition cpu_val :: "string list \<Rightarrow> nat \<Rightarrow> u64" where
  "cpu_val fs i = (if i + 1 < length fs then word_of_nat (fst (parse_uint 64 (fs ! (i + 1)))) else 0)"

fun cpu_lines :: "string list \<Rightarrow> cpu_sample option" where
  "cpu_lines [] = None"
| "cpu_lines (line # lines) =
     (if \<not> has_prefix line ''cpu '' then cpu_lines lines
      else
        let fs = Go_Text.fields line; v = cpu_val fs
        in if length fs < 5 then None
           else Some \<lparr>cpu_total = v 0 + v 1 + v 2 + v 3 + v 4 + v 5 + v 6 + v 7,
                      cpu_idle = v 3 + v 4\<rparr>)"

definition readCPU :: "string option \<Rightarrow> cpu_sample option" where
  "readCPU proc_stat = Option.bind proc_stat (\<lambda>content. cpu_lines (scan_lines content))"

definition cpuPercent :: "cpu_sample \<Rightarrow> cpu_sample \<Rightarrow> rat" where
  "cpuPercent prev cur =
     (let totalDelta = cpu_total cur - cpu_total prev;
          idleDelta = cpu_idle cur - cpu_idle prev
      in if totalDelta = 0 then 0
         else
           let used = totalDelta - idleDelta
           in of_nat (unat used) / of_nat (unat totalDelta) * 100)"

section \<open>Memory and disk\<close>

fun mem_lines :: "u64 \<Rightarrow> u64 \<Rightarrow> string list \<Rightarrow> u64 \<times> u64" where
  "mem_lines memTotal memAvail [] = (memTotal, memAvail)"
| "mem_lines memTotal memAvail (line # lines) =
     (let fs = Go_Text.fields line
      in if length fs < 2 then mem_lines memTotal memAvail lines
         else
           let val = word_of_nat (fst (parse_uint 64 (fs ! 1))) :: u64
           in if fs ! 0 = ''MemTotal:'' then mem_lines (val * 1024) memAvail lines
              else if fs ! 0 = ''MemAvailable:'' then mem_lines memTotal (val * 1024) lines
              else mem_lines memTotal memAvail lines)"

text \<open>Used and total bytes.\<close>

definition readMem :: "string option \<Rightarrow> (u64 \<times> u64) option" where
  "readMem meminfo =
     map_option
       (\<lambda>content. case mem_lines 0 0 (scan_lines content) of (memTotal, memAvail) \<Rightarrow>
          (memTotal - memAvail, memTotal)) meminfo"

text \<open>The three fields of \<open>Statfs\<close> that are read: block size, blocks, available blocks.\<close>

definition readDisk :: "(u64 \<times> u64 \<times> u64) option \<Rightarrow> (u64 \<times> u64) option" where
  "readDisk statfs =
     map_option
       (\<lambda>(blockSize, blocks, bavail).
          let tot = blocks * blockSize; avail = bavail * blockSize in (tot - avail, tot)) statfs"

section \<open>Network\<close>

record net_sample =
  net_rx :: u64
  net_tx :: u64

definition net_zero :: net_sample where
  "net_zero = \<lparr>net_rx = 0, net_tx = 0\<rparr>"

definition net_line :: "string \<Rightarrow> net_sample \<Rightarrow> net_sample" where
  "net_line line acc =
     (case index_of line '':'' of
        None \<Rightarrow> acc
      | Some colon \<Rightarrow>
          if trim_space (take colon line) = ''lo'' then acc
          else
            let fs = Go_Text.fields (drop (colon + 1) line)
            in if length fs < 9 then acc
               else acc\<lparr>net_rx := net_rx acc + word_of_nat (fst (parse_uint 64 (fs ! 0))),
                        net_tx := net_tx acc + word_of_nat (fst (parse_uint 64 (fs ! 8)))\<rparr>)"

definition readNet :: "string option \<Rightarrow> net_sample option" where
  "readNet net_dev =
     map_option (\<lambda>content. fold net_line (drop 2 (scan_lines content)) net_zero) net_dev"

definition netRates :: "net_sample \<Rightarrow> net_sample \<Rightarrow> u64 \<times> u64" where
  "netRates prev cur =
     (if net_rx prev \<le> net_rx cur then net_rx cur - net_rx prev else 0,
      if net_tx prev \<le> net_tx cur then net_tx cur - net_tx prev else 0)"

section \<open>Uptime and load\<close>

text \<open>\<open>parse_float\<close>: the value and whether an error came with it.\<close>

definition readUptime :: "(string \<Rightarrow> rat \<times> bool) \<Rightarrow> string option \<Rightarrow> rat option" where
  "readUptime parse_float uptime =
     Option.bind uptime (\<lambda>data.
       case Go_Text.fields data of
         [] \<Rightarrow> None
       | f # _ \<Rightarrow> (case parse_float f of (v, err) \<Rightarrow> if err then None else Some v))"

definition readLoadAvg :: "(string \<Rightarrow> rat \<times> bool) \<Rightarrow> string option \<Rightarrow> rat list option" where
  "readLoadAvg parse_float loadavg =
     Option.bind loadavg (\<lambda>data.
       let fs = Go_Text.fields data
       in if length fs < 3 then None else Some (map (\<lambda>f. fst (parse_float f)) (take 3 fs)))"

text \<open>The bytes of the release name up to the first zero.\<close>

definition readKernel :: "bytes option \<Rightarrow> string" where
  "readKernel uname =
     (case uname of None \<Rightarrow> [] | Some release \<Rightarrow> string_of_bytes (takeWhile (\<lambda>c. c \<noteq> 0) release))"

section \<open>A snapshot\<close>

record snapshot =
  sn_CPU :: rat
  sn_RAMUsed :: u64
  sn_RAMTotal :: u64
  sn_DiskUsed :: u64
  sn_DiskTotal :: u64
  sn_NetRxRate :: u64
  sn_NetTxRate :: u64
  sn_Uptime :: rat
  sn_LoadAvg :: "rat list"
  sn_Kernel :: string
  sn_Hostname :: string

definition snapshot_zero :: snapshot where
  "snapshot_zero = \<lparr>sn_CPU = 0, sn_RAMUsed = 0, sn_RAMTotal = 0, sn_DiskUsed = 0, sn_DiskTotal = 0,
     sn_NetRxRate = 0, sn_NetTxRate = 0, sn_Uptime = 0, sn_LoadAvg = [], sn_Kernel = [],
     sn_Hostname = []\<rparr>"

text \<open>What the system shows at one moment.\<close>

record proc_env =
  pe_stat :: "string option"
  pe_net_dev :: "string option"
  pe_meminfo :: "string option"
  pe_statfs :: "(u64 \<times> u64 \<times> u64) option"
  pe_uptime :: "string option"
  pe_loadavg :: "string option"
  pe_float :: "string \<Rightarrow> rat \<times> bool"

text \<open>\<open>collect\<close>, with the samples it leaves behind; on an error a prefix of the reads has
  already replaced its sample.\<close>

definition collect ::
  "proc_env \<Rightarrow> string \<Rightarrow> string \<Rightarrow> cpu_sample \<Rightarrow> net_sample \<Rightarrow>
   snapshot option \<times> cpu_sample \<times> net_sample"
where
  "collect env kern hostname prevCPU prevNet =
     (case readCPU (pe_stat env) of
        None \<Rightarrow> (None, prevCPU, prevNet)
      | Some curCPU \<Rightarrow>
          (case readNet (pe_net_dev env) of
             None \<Rightarrow> (None, curCPU, prevNet)
           | Some curNet \<Rightarrow>
               (case (readMem (pe_meminfo env), readDisk (pe_statfs env),
                      readUptime (pe_float env) (pe_uptime env),
                      readLoadAvg (pe_float env) (pe_loadavg env)) of
                  (Some (ramUsed, ramTotal), Some (diskUsed, diskTotal), Some up, Some loadAvg) \<Rightarrow>
                    (case netRates prevNet curNet of (rxRate, txRate) \<Rightarrow>
                       (Some \<lparr>sn_CPU = cpuPercent prevCPU curCPU, sn_RAMUsed = ramUsed,
                              sn_RAMTotal = ramTotal, sn_DiskUsed = diskUsed,
                              sn_DiskTotal = diskTotal, sn_NetRxRate = rxRate,
                              sn_NetTxRate = txRate, sn_Uptime = up, sn_LoadAvg = loadAvg,
                              sn_Kernel = kern, sn_Hostname = hostname\<rparr>, curCPU, curNet))
                | _ \<Rightarrow> (None, curCPU, curNet))))"

section \<open>The aggregate line\<close>

text \<open>The aggregate line of \<open>/proc/stat\<close>: the word \<open>cpu\<close>, two blanks, numbers.\<close>

definition cpu_line :: "nat list \<Rightarrow> string" where
  "cpu_line ns = ''cpu  '' @ join [CHR 0x20] (map dec_of_nat ns)"

lemma cpu_line_fields: "Go_Text.fields (cpu_line ns) = ''cpu'' # map dec_of_nat ns"
proof -
  have d: "list_all (\<lambda>w. list_all plain_char w \<and> w \<noteq> []) (map dec_of_nat ns)"
    using dec_of_nat_digits digit_plain by (auto simp: list_all_iff)
  have c: "list_all plain_char ''cpu''" by (simp add: plain_char_def space_encodings_def)
  show ?thesis
    using fields_word(1)[OF c, of "CHR 0x20 # join [CHR 0x20] (map dec_of_nat ns)"] fields_join[OF d]
    by (simp add: cpu_line_def fields_blank)
qed

lemma cpu_line_chars: "CHR 0x0A \<notin> set (cpu_line ns) \<and> CHR 0x0D \<notin> set (cpu_line ns)"
proof -
  have j: "set (join sep ws) \<subseteq> set sep \<union> \<Union> (set ` set ws)" for sep and ws :: "string list"
    by (induction sep ws rule: join.induct) auto
  have "set (join [CHR 0x20] (map dec_of_nat ns)) \<subseteq> {CHR 0x20} \<union> Collect is_digit"
    using j[of "[CHR 0x20]" "map dec_of_nat ns"] dec_of_nat_digits by (fastforce simp: list_all_iff)
  then show ?thesis by (auto simp: cpu_line_def is_digit_def less_eq_char_def)
qed

section \<open>Properties\<close>

text \<open>Parsing \<open>/proc/stat\<close>: the aggregate line is found wherever it stands; the total is the sum
  of its first eight counters and the idle time the sum of the fourth and fifth, both modulo
  the 64 bits of the counters; missing counters count as zero.\<close>
theorem read_cpu_line:
  assumes "4 \<le> length ns" "list_all (\<lambda>n. n < 2 ^ 64) ns"
    and "\<forall>l \<in> set (before @ [cpu_line ns] @ after).
           CHR 0x0A \<notin> set l \<and> CHR 0x0D \<notin> set l \<and> length l < 65536"
    and "\<forall>l \<in> set before. \<not> has_prefix l ''cpu ''"
  shows "\<exists>c. readCPU (Some (concat (map (\<lambda>l. l @ [CHR 0x0A]) (before @ [cpu_line ns] @ after)))) = Some c
    \<and> unat (cpu_total c) = sum_list (take 8 ns) mod 2 ^ 64
    \<and> unat (cpu_idle c) = (ns ! 3 + (if 5 \<le> length ns then ns ! 4 else 0)) mod 2 ^ 64"
proof -
  define v where "v = cpu_val (''cpu'' # map dec_of_nat ns)"
  define n where "n i = (if i < length ns then ns ! i else 0)" for i
  have v: "v i = word_of_nat (n i)" for i
    using assms(2) parse_uint_dec_of_nat[of "ns ! i" 64]
    by (auto simp: v_def cpu_val_def n_def list_all_length)
  have lines: "cpu_lines (before @ cpu_line ns # after)
      = Some \<lparr>cpu_total = v 0 + v 1 + v 2 + v 3 + v 4 + v 5 + v 6 + v 7, cpu_idle = v 3 + v 4\<rparr>"
    using assms(4)
  proof (induction before)
    case Nil
    have "has_prefix (cpu_line ns) ''cpu ''" by (simp add: cpu_line_def has_prefix_def)
    then show ?case using assms(1) by (simp add: cpu_line_fields v_def Let_def)
  qed simp
  have "take 8 ns = map n [0..<min 8 (length ns)]"
    by (rule nth_equalityI) (auto simp: n_def)
  then have "sum_list (take 8 ns) = (\<Sum>i<min 8 (length ns). n i)"
    by (simp add: sum_list_sum_nth atLeast0LessThan)
  also have "\<dots> = (\<Sum>i<8. n i)"
    by (rule sum.mono_neutral_left) (auto simp: n_def)
  finally have s: "sum_list (take 8 ns) = n 0 + n 1 + n 2 + n 3 + n 4 + n 5 + n 6 + n 7"
    by (simp add: eval_nat_numeral)
  have i: "ns ! 3 + (if 5 \<le> length ns then ns ! 4 else 0) = n 3 + n 4"
    using assms(1) by (auto simp: n_def)
  have "scan_lines (concat (map (\<lambda>l. l @ [CHR 0x0A]) (before @ [cpu_line ns] @ after)))
      = before @ cpu_line ns # after"
    using scan_lines_written[OF assms(3)] by simp
  then have r: "readCPU (Some (concat (map (\<lambda>l. l @ [CHR 0x0A]) (before @ [cpu_line ns] @ after))))
      = Some \<lparr>cpu_total = v 0 + v 1 + v 2 + v 3 + v 4 + v 5 + v 6 + v 7, cpu_idle = v 3 + v 4\<rparr>"
    unfolding readCPU_def bind.simps using lines by simp
  show ?thesis
    unfolding r s i by (simp add: v unat_of_nat flip: of_nat_add)
qed

text \<open>The CPU percentage of two samples whose counters have advanced, the idle one by no more
  than the total, is the exact share of busy time, between 0 and 100.\<close>
theorem cpu_percent_share:
  assumes "unat (cpu_total prev) < unat (cpu_total cur)" "unat (cpu_idle prev) \<le> unat (cpu_idle cur)"
    and "unat (cpu_idle cur) - unat (cpu_idle prev) \<le> unat (cpu_total cur) - unat (cpu_total prev)"
  shows "cpuPercent prev cur = 100 *
      (1 - of_nat (unat (cpu_idle cur) - unat (cpu_idle prev))
             / of_nat (unat (cpu_total cur) - unat (cpu_total prev)))
    \<and> 0 \<le> cpuPercent prev cur \<and> cpuPercent prev cur \<le> 100"
proof -
  let ?t = "unat (cpu_total cur) - unat (cpu_total prev)"
    and ?i = "unat (cpu_idle cur) - unat (cpu_idle prev)"
  have t: "unat (cpu_total cur - cpu_total prev) = ?t"
    using assms(1) by (intro unat_sub) (simp add: word_le_nat_alt)
  have i: "unat (cpu_idle cur - cpu_idle prev) = ?i"
    using assms(2) by (intro unat_sub) (simp add: word_le_nat_alt)
  have u: "unat ((cpu_total cur - cpu_total prev) - (cpu_idle cur - cpu_idle prev)) = ?t - ?i"
    using assms(3) t i unat_sub[of "cpu_idle cur - cpu_idle prev" "cpu_total cur - cpu_total prev"]
    by (simp add: word_le_nat_alt)
  have nz: "cpu_total cur - cpu_total prev \<noteq> 0" using assms(1) by auto
  have pos: "(0::rat) < of_nat ?t" by (simp only: of_nat_0_less_iff zero_less_diff assms(1))
  have d: "(of_nat (?t - ?i) :: rat) = of_nat ?t - of_nat ?i" using assms(3) by (rule of_nat_diff)
  have p: "cpuPercent prev cur = (of_nat ?t - of_nat ?i) / of_nat ?t * 100"
    using nz by (simp only: cpuPercent_def Let_def u t d if_False)
  have le: "(of_nat ?i :: rat) \<le> of_nat ?t" using assms(3) by (simp only: of_nat_le_iff)
  have "(a - b) / a * 100 = 100 * (1 - b / a)" if "0 < a" for a b :: rat
    using that by (simp add: field_simps)
  from this[OF pos, of "of_nat ?i"] have "cpuPercent prev cur = 100 * (1 - of_nat ?i / of_nat ?t)"
    unfolding p .
  moreover have "0 \<le> of_nat ?i / (of_nat ?t :: rat)" "of_nat ?i / (of_nat ?t :: rat) \<le> 1"
    using pos le by (simp_all only: divide_nonneg_pos of_nat_0_le_iff divide_le_eq_1_pos)
  ultimately show ?thesis by simp
qed

text \<open>When the idle counter goes back, as the kernel's I/O wait time may, the idle difference
  wraps around and the percentage exceeds 100.\<close>
theorem cpu_percent_exceeds:
  assumes "unat (cpu_total cur) = unat (cpu_total prev) + t" "0 < t"
    and "unat (cpu_idle prev) = unat (cpu_idle cur) + k" "0 < k" "t + k < 2 ^ 64"
  shows "cpuPercent prev cur = 100 * of_nat (t + k) / of_nat t \<and> 100 < cpuPercent prev cur"
proof -
  have td: "cpu_total cur - cpu_total prev = word_of_nat t"
    using arg_cong[OF assms(1), of "word_of_nat :: nat \<Rightarrow> u64"] by simp
  have "cpu_idle cur - cpu_idle prev = - word_of_nat k"
    using arg_cong[OF assms(3), of "word_of_nat :: nat \<Rightarrow> u64"] by simp
  then have u: "unat ((cpu_total cur - cpu_total prev) - (cpu_idle cur - cpu_idle prev)) = t + k"
    using assms(5) by (simp add: td unat_of_nat flip: of_nat_add)
  have n: "unat (cpu_total cur - cpu_total prev) = t" using assms(5) by (simp add: td unat_of_nat)
  then have nz: "cpu_total cur - cpu_total prev \<noteq> 0" using assms(2) by auto
  have p: "cpuPercent prev cur = of_nat (t + k) / of_nat t * 100"
    using nz by (simp only: cpuPercent_def Let_def u n if_False)
  have "(1::rat) < of_nat (t + k) / of_nat t" using assms(2,4) by (simp add: field_simps)
  moreover have "100 * x / y = x / y * 100" for x y :: rat by simp
  moreover have "1 < z \<Longrightarrow> 100 < z * 100" for z :: rat by simp
  ultimately show ?thesis unfolding p by metis
qed

section \<open>Witnesses\<close>

theorem read_cpu_line_witness:
  "\<exists>c. readCPU (Some (concat (map (\<lambda>l. l @ [CHR 0x0A]) [cpu_line [10, 2, 3, 80, 5], ''cpu0 1'']))) = Some c
     \<and> unat (cpu_total c) = 100 \<and> unat (cpu_idle c) = 85"
proof -
  have "length (cpu_line [10, 2, 3, 80, 5]) < 65536"
    by (simp add: cpu_line_def dec_of_nat.simps)
  then have "\<forall>l \<in> set ([] @ [cpu_line [10, 2, 3, 80, 5]] @ [''cpu0 1'']).
      CHR 0x0A \<notin> set l \<and> CHR 0x0D \<notin> set l \<and> length l < 65536"
    using cpu_line_chars by simp
  from read_cpu_line[OF _ _ this] show ?thesis by simp
qed

theorem cpu_percent_share_witness:
  "cpuPercent \<lparr>cpu_total = 100, cpu_idle = 80\<rparr> \<lparr>cpu_total = 200, cpu_idle = 130\<rparr> \<le> 100"
  using cpu_percent_share[of "\<lparr>cpu_total = 100, cpu_idle = 80\<rparr>" "\<lparr>cpu_total = 200, cpu_idle = 130\<rparr>"]
  by simp

theorem cpu_percent_exceeds_witness:
  "100 < cpuPercent \<lparr>cpu_total = 100, cpu_idle = 80\<rparr> \<lparr>cpu_total = 200, cpu_idle = 75\<rparr>"
  using cpu_percent_exceeds[of "\<lparr>cpu_total = 200, cpu_idle = 75\<rparr>"
      "\<lparr>cpu_total = 100, cpu_idle = 80\<rparr>" 100 5]
  by simp

end
