(* ===== verification/Stats_Collector.thy ===== *)
theory Stats_Collector
  imports Proc_Stats Ws_Hub Go_Json
begin

text \<open>
  The broadcasting half of \<open>internal/stats/collector.go\<close>: the registry of senders with its
  reference count, the background loops and the delta frames they send. A loop is started by
  \<open>Add\<close> and named by a number; \<open>cl_cancel\<close> is the loop whose context the stored cancel
  function belongs to. Senders are references \<open>'r\<close> for an operation \<open>send\<close> on a world \<open>'w\<close>. The
  decimal text of a \<open>float64\<close> is an argument.
\<close>

section \<open>Delta frames\<close>

record stats_delta =
  sd_CPU :: "rat option"
  sd_RAMUsed :: "u64 option"
  sd_RAMTotal :: "u64 option"
  sd_DiskUsed :: "u64 option"
  sd_DiskTotal :: "u64 option"
  sd_NetRxRate :: "u64 option"
  sd_NetTxRate :: "u64 option"
  sd_Uptime :: "rat option"
  sd_LoadAvg :: "rat list"
  sd_Kernel :: "string option"
  sd_Hostname :: "string option"

definition snapshotToDelta :: "snapshot \<Rightarrow> snapshot \<Rightarrow> stats_delta" where
  "snapshotToDelta cur prev =
     \<lparr>sd_CPU = Some (sn_CPU cur), sd_RAMUsed = Some (sn_RAMUsed cur),
      sd_RAMTotal = Some (sn_RAMTotal cur), sd_DiskUsed = Some (sn_DiskUsed cur),
      sd_DiskTotal = Some (sn_DiskTotal cur), sd_NetRxRate = Some (sn_NetRxRate cur),
      sd_NetTxRate = Some (sn_NetTxRate cur), sd_Uptime = Some (sn_Uptime cur),
      sd_LoadAvg = sn_LoadAvg cur,
      sd_Kernel = (if sn_Kernel cur \<noteq> sn_Kernel prev then Some (sn_Kernel cur) else None),
      sd_Hostname = (if sn_Hostname cur \<noteq> sn_Hostname prev then Some (sn_Hostname cur) else None)\<rparr>"

text \<open>\<open>omitempty\<close>: an absent pointer and an empty slice leave no field.\<close>

definition opt_field :: "string \<Rightarrow> ('a \<Rightarrow> json) \<Rightarrow> 'a option \<Rightarrow> (string \<times> json) list" where
  "opt_field name f x = (case x of None \<Rightarrow> [] | Some v \<Rightarrow> [(name, f v)])"

definition json_delta :: "(rat \<Rightarrow> string) \<Rightarrow> stats_delta \<Rightarrow> json" where
  "json_delta float_text d =
     (let flt = (\<lambda>x. JNum (float_text x)); num = (\<lambda>w :: u64. json_nat (unat w))
      in JObj (opt_field ''cpu'' flt (sd_CPU d)
           @ opt_field ''ramUsed'' num (sd_RAMUsed d)
           @ opt_field ''ramTotal'' num (sd_RAMTotal d)
           @ opt_field ''diskUsed'' num (sd_DiskUsed d)
           @ opt_field ''diskTotal'' num (sd_DiskTotal d)
           @ opt_field ''netRxRate'' num (sd_NetRxRate d)
           @ opt_field ''netTxRate'' num (sd_NetTxRate d)
           @ opt_field ''uptime'' flt (sd_Uptime d)
           @ (if sd_LoadAvg d = [] then [] else [(''loadAvg'', JArr (map flt (sd_LoadAvg d)))])
           @ opt_field ''kernel'' JStr (sd_Kernel d)
           @ opt_field ''hostname'' JStr (sd_Hostname d)))"

definition stats_frame :: "(rat \<Rightarrow> string) \<Rightarrow> stats_delta \<Rightarrow> frame" where
  "stats_frame float_text d =
     \<lparr>f_type = FrameStats, f_chan = 0, f_payload = marshal (json_delta float_text d)\<rparr>"

section \<open>The collector\<close>

datatype loop_pc = LoopWaiting | LoopSending stats_delta

record stats_loop =
  lp_cancelled :: bool
  lp_cpu :: cpu_sample
  lp_net :: net_sample
  lp_pc :: loop_pc

record 'r collector =
  cl_senders :: "u64 \<rightharpoonup> 'r"
  cl_cancel :: "nat option"
  cl_refs :: int
  cl_last :: snapshot
  cl_kernel :: string
  cl_hostname :: string
  cl_idGen :: u64
  cl_loops :: "nat \<rightharpoonup> stats_loop"    \<comment> \<open>the goroutines that have not returned\<close>
  cl_started :: nat                        \<comment> \<open>how many have been started\<close>

definition collector_new :: "bytes option \<Rightarrow> string option \<Rightarrow> 'r collector" where
  "collector_new uname hostname =
     \<lparr>cl_senders = Map.empty, cl_cancel = None, cl_refs = 0, cl_last = snapshot_zero,
      cl_kernel = readKernel uname,
      cl_hostname = (case hostname of None \<Rightarrow> [] | Some h \<Rightarrow> h),
      cl_idGen = 0, cl_loops = Map.empty, cl_started = 0\<rparr>"

text \<open>The loop's first statements read the samples it starts from; errors leave zero samples.\<close>

definition loop_start :: "proc_env \<Rightarrow> stats_loop" where
  "loop_start env =
     \<lparr>lp_cancelled = False,
      lp_cpu = (case readCPU (pe_stat env) of None \<Rightarrow> cpu_zero | Some c \<Rightarrow> c),
      lp_net = (case readNet (pe_net_dev env) of None \<Rightarrow> net_zero | Some n \<Rightarrow> n),
      lp_pc = LoopWaiting\<rparr>"

definition collector_add where
  "collector_add float_text send env r cw =
     (case cw of (c0, w) \<Rightarrow>
        let sid = cl_idGen c0 + 1;
            c = c0\<lparr>cl_idGen := sid, cl_senders := (cl_senders c0)(sid \<mapsto> r),
                   cl_refs := cl_refs c0 + 1\<rparr>
        in if cl_refs c = 1 then
             (sid, (c\<lparr>cl_cancel := Some (cl_started c),
                      cl_loops := (cl_loops c)(cl_started c \<mapsto> loop_start env),
                      cl_started := cl_started c + 1\<rparr>, w))
           else if sn_RAMTotal (cl_last c) > 0 then
             (sid, (c, fst (send r (stats_frame float_text
                                      (snapshotToDelta (cl_last c) snapshot_zero)) w)))
           else (sid, (c, w)))"

definition cancel_loop :: "nat \<Rightarrow> 'r collector \<Rightarrow> 'r collector" where
  "cancel_loop l c =
     (case cl_loops c l of
        None \<Rightarrow> c
      | Some lp \<Rightarrow> c\<lparr>cl_loops := (cl_loops c)(l \<mapsto> lp\<lparr>lp_cancelled := True\<rparr>)\<rparr>)"

definition collector_remove :: "u64 \<Rightarrow> 'r collector \<Rightarrow> 'r collector" where
  "collector_remove sid c0 =
     (if cl_senders c0 sid = None then c0
      else
        let c = c0\<lparr>cl_senders := (cl_senders c0)(sid := None), cl_refs := cl_refs c0 - 1\<rparr>
        in if cl_refs c = 0 then
             (case cl_cancel c of
                None \<Rightarrow> c
              | Some l \<Rightarrow> (cancel_loop l c)\<lparr>cl_cancel := None\<rparr>)
           else c)"

text \<open>
  One turn of the loop \<open>l\<close>, in two critical sections. A cancelled loop may still take a turn
  when its ticker has fired, since \<open>select\<close> chooses among ready cases.
\<close>

definition loop_collect :: "proc_env \<Rightarrow> nat \<Rightarrow> 'r collector \<Rightarrow> 'r collector" where
  "loop_collect env l c =
     (case cl_loops c l of
        None \<Rightarrow> c
      | Some lp \<Rightarrow>
          (case collect env (cl_kernel c) (cl_hostname c) (lp_cpu lp) (lp_net lp) of
             (None, cpu, net) \<Rightarrow>
               c\<lparr>cl_loops := (cl_loops c)(l \<mapsto> lp\<lparr>lp_cpu := cpu, lp_net := net\<rparr>)\<rparr>
           | (Some snap, cpu, net) \<Rightarrow>
               c\<lparr>cl_last := snap,
                 cl_loops := (cl_loops c)(l \<mapsto> lp\<lparr>lp_cpu := cpu, lp_net := net,
                   lp_pc := LoopSending (snapshotToDelta snap (cl_last c))\<rparr>)\<rparr>))"

text \<open>\<open>ids\<close>: the keys of the map in the order in which the range statement visits them.\<close>

fun broadcast ::
  "('r \<Rightarrow> frame \<Rightarrow> 'w \<Rightarrow> 'w \<times> bool) \<Rightarrow> frame \<Rightarrow> u64 list \<Rightarrow> 'r collector \<times> 'w \<Rightarrow> 'r collector \<times> 'w"
where
  "broadcast send f [] cw = cw"
| "broadcast send f (sid # ids) (c, w) =
     (case cl_senders c sid of
        None \<Rightarrow> broadcast send f ids (c, w)
      | Some r \<Rightarrow>
          (case send r f w of
             (w', err) \<Rightarrow>
               broadcast send f ids
                 (if err then c\<lparr>cl_senders := (cl_senders c)(sid := None), cl_refs := cl_refs c - 1\<rparr>
                  else c, w')))"

definition loop_send where
  "loop_send float_text send ids l cw =
     (case cw of (c, w) \<Rightarrow>
        (case cl_loops c l of
           None \<Rightarrow> (c, w)
         | Some lp \<Rightarrow>
             (case lp_pc lp of
                LoopWaiting \<Rightarrow> (c, w)
              | LoopSending d \<Rightarrow>
                  broadcast send (stats_frame float_text d) ids
                    (c\<lparr>cl_loops := (cl_loops c)(l \<mapsto> lp\<lparr>lp_pc := LoopWaiting\<rparr>)\<rparr>, w))))"

text \<open>A waiting loop that sees its context done returns.\<close>

definition loop_exit :: "nat \<Rightarrow> 'r collector \<Rightarrow> 'r collector" where
  "loop_exit l c =
     (case cl_loops c l of
        None \<Rightarrow> c
      | Some lp \<Rightarrow>
          if lp_cancelled lp \<and> lp_pc lp = LoopWaiting
          then c\<lparr>cl_loops := (cl_loops c)(l := None)\<rparr> else c)"

section \<open>Runs\<close>

datatype 'r stats_event =
    StAdd proc_env 'r | StRemove u64 | StCollect proc_env nat | StSend "u64 list" nat | StExit nat

text \<open>A range statement visits every key once; what it visits is part of the event, so an
  event with another order stands for a step that cannot happen and is skipped.\<close>

definition visits_all :: "u64 list \<Rightarrow> (u64 \<rightharpoonup> 'r) \<Rightarrow> bool" where
  "visits_all ids m \<longleftrightarrow> distinct ids \<and> set ids = dom m"

fun stats_apply where
  "stats_apply float_text send (StAdd env r) cw = snd (collector_add float_text send env r cw)"
| "stats_apply float_text send (StRemove sid) cw = (collector_remove sid (fst cw), snd cw)"
| "stats_apply float_text send (StCollect env l) cw =
     (case cl_loops (fst cw) l of
        Some lp \<Rightarrow> if lp_pc lp = LoopWaiting then (loop_collect env l (fst cw), snd cw) else cw
      | None \<Rightarrow> cw)"
| "stats_apply float_text send (StSend ids l) cw =
     (if visits_all ids (cl_senders (fst cw)) then loop_send float_text send ids l cw else cw)"
| "stats_apply float_text send (StExit l) cw = (loop_exit l (fst cw), snd cw)"

definition stats_run where
  "stats_run float_text send evs cw = fold (stats_apply float_text send) evs cw"

section \<open>The reference count\<close>

definition refs_ok :: "'r collector \<Rightarrow> bool" where
  "refs_ok c \<longleftrightarrow> cl_refs c = int (card (dom (cl_senders c)))
     \<and> (\<forall>sid \<in> dom (cl_senders c). sid \<le> cl_idGen c)"

text \<open>The loops whose context is not done.\<close>

definition live_loops :: "'r collector \<Rightarrow> nat set" where
  "live_loops c = {l. \<exists>lp. cl_loops c l = Some lp \<and> \<not> lp_cancelled lp}"

definition loops_ok :: "'r collector \<Rightarrow> bool" where
  "loops_ok c \<longleftrightarrow>
     (if cl_refs c = 0 then live_loops c = {} \<and> cl_cancel c = None
      else \<exists>l. cl_cancel c = Some l \<and> live_loops c = {l}) \<and>
     (\<forall>l \<in> dom (cl_loops c). l < cl_started c)"

lemma card_dom_delete:
  fixes m :: "'a::finite \<rightharpoonup> 'b"
  shows "m x \<noteq> None \<Longrightarrow> int (card (dom (m(x := None)))) = int (card (dom m)) - 1"
proof -
  assume "m x \<noteq> None"
  then have "x \<in> dom m" by (simp add: domIff)
  then have "0 < card (dom m)" "card (dom m - {x}) = card (dom m) - 1"
    by (auto simp: card_gt_0_iff)
  then show ?thesis by simp
qed

lemma card_dom_insert:
  fixes m :: "'a::finite \<rightharpoonup> 'b"
  shows "m x = None \<Longrightarrow> int (card (dom (m(x \<mapsto> y)))) = int (card (dom m)) + 1"
  by (simp add: card_insert_if domIff)

lemma refs_ok_cong:
  "cl_refs c' = cl_refs c \<Longrightarrow> cl_senders c' = cl_senders c \<Longrightarrow> cl_idGen c' = cl_idGen c \<Longrightarrow>
     refs_ok c' = refs_ok c"
  by (simp add: refs_ok_def)

lemma collector_add_fields:
  "cl_senders (fst (snd (collector_add ft send env r (c, w)))) = (cl_senders c)(cl_idGen c + 1 \<mapsto> r)"
  "cl_refs (fst (snd (collector_add ft send env r (c, w)))) = cl_refs c + 1"
  "cl_idGen (fst (snd (collector_add ft send env r (c, w)))) = cl_idGen c + 1"
  "cl_last (fst (snd (collector_add ft send env r (c, w)))) = cl_last c"
  "fst (collector_add ft send env r (c, w)) = cl_idGen c + 1"
  by (auto simp: collector_add_def Let_def)

lemma refs_ok_add:
  assumes "refs_ok c" "cl_idGen c < cl_idGen c + 1"
  shows "refs_ok (fst (snd (collector_add ft send env r (c, w))))"
proof -
  have "cl_senders c (cl_idGen c + 1) = None"
    using assms by (force simp: refs_ok_def domIff)
  then show ?thesis
    using assms card_dom_insert[of "cl_senders c" "cl_idGen c + 1" r]
    by (force simp: refs_ok_def collector_add_fields)
qed

lemma refs_ok_remove: "refs_ok c \<Longrightarrow> refs_ok (collector_remove sid c)"
  using card_dom_delete[of "cl_senders c" sid]
  by (auto simp: refs_ok_def collector_remove_def cancel_loop_def Let_def split: option.splits)

lemma refs_ok_broadcast: "refs_ok (fst cw) \<Longrightarrow> refs_ok (fst (broadcast send f ids cw))"
proof (induction send f ids cw rule: broadcast.induct)
  case (2 send f sid ids c w)
  have "refs_ok (c\<lparr>cl_senders := (cl_senders c)(sid := None), cl_refs := cl_refs c - 1\<rparr>)"
    if "cl_senders c sid \<noteq> None"
    using 2(3) card_dom_delete[of "cl_senders c" sid] that by (auto simp: refs_ok_def)
  then show ?case using 2 by (auto split: option.splits prod.splits)
qed simp

lemma broadcast_loops:
  "cl_loops (fst (broadcast send f ids cw)) = cl_loops (fst cw)
   \<and> cl_cancel (fst (broadcast send f ids cw)) = cl_cancel (fst cw)
   \<and> cl_started (fst (broadcast send f ids cw)) = cl_started (fst cw)
   \<and> cl_idGen (fst (broadcast send f ids cw)) = cl_idGen (fst cw)
   \<and> cl_last (fst (broadcast send f ids cw)) = cl_last (fst cw)"
  by (induction send f ids cw rule: broadcast.induct) (auto split: option.splits prod.splits)

lemma refs_ok_loops:
  "refs_ok (loop_collect env l c) = refs_ok c" "refs_ok (loop_exit l c) = refs_ok c"
  by (auto simp: loop_collect_def loop_exit_def refs_ok_def split: option.splits prod.splits)

lemma refs_ok_send: "refs_ok (fst cw) \<Longrightarrow> refs_ok (fst (loop_send ft send ids l cw))"
  by (cases cw) (auto simp: loop_send_def refs_ok_def split: option.splits loop_pc.splits
      intro!: refs_ok_broadcast[unfolded refs_ok_def])

lemma idGen_apply:
  "cl_idGen (fst (stats_apply ft send e cw))
     = (case e of StAdd env r \<Rightarrow> cl_idGen (fst cw) + 1 | _ \<Rightarrow> cl_idGen (fst cw))"
  by (cases cw; cases e) (auto simp: collector_add_fields collector_remove_def cancel_loop_def Let_def
      loop_collect_def loop_send_def loop_exit_def broadcast_loops
      split: option.splits prod.splits loop_pc.splits)

lemma refs_ok_apply:
  assumes "refs_ok (fst cw)" "\<And>env r. e = StAdd env r \<Longrightarrow> cl_idGen (fst cw) < cl_idGen (fst cw) + 1"
  shows "refs_ok (fst (stats_apply ft send e cw))"
  using assms
  by (cases cw; cases e)
    (auto simp: refs_ok_add refs_ok_remove refs_ok_loops refs_ok_send split: option.splits)

fun adds :: "'r stats_event list \<Rightarrow> nat" where
  "adds [] = 0"
| "adds (StAdd env r # evs) = Suc (adds evs)"
| "adds (_ # evs) = adds evs"

text \<open>As long as the identifiers do not wrap around, the count is the number of senders.\<close>

lemma stats_run_refs:
  assumes "refs_ok (fst cw)" "unat (cl_idGen (fst cw)) + adds evs < 2 ^ 64"
  shows "refs_ok (fst (stats_run ft send evs cw))"
  using assms
proof (induction evs arbitrary: cw)
  case (Cons e evs)
  have up: "unat (cl_idGen (fst cw) + 1) = unat (cl_idGen (fst cw)) + 1"
    if "e = StAdd env r" for env r
    using Cons.prems(2) that by (simp add: unat_word_ariths)
  have "refs_ok (fst (stats_apply ft send e cw))"
    using Cons.prems(1) up by (intro refs_ok_apply) (auto simp: word_less_nat_alt)
  moreover have "unat (cl_idGen (fst (stats_apply ft send e cw))) + adds evs < 2 ^ 64"
    unfolding idGen_apply using Cons.prems(2) up by (cases e) simp_all
  ultimately show ?case using Cons.IH by (simp add: stats_run_def)
qed (simp add: stats_run_def)

section \<open>The loops while no sender fails\<close>

context frame_sender
begin

lemma broadcast_open:
  "\<forall>r. \<not> closed r w \<Longrightarrow> fst (broadcast send f ids (c, w)) = c
     \<and> (\<forall>r. \<not> closed r (snd (broadcast send f ids (c, w))))"
proof (induction ids arbitrary: w)
  case (Cons sid ids)
  show ?case
  proof (cases "cl_senders c sid")
    case (Some r)
    obtain w' where s: "send r f w = (w', False)"
      using Cons.prems send_error[of r f w] by (metis prod.collapse)
    have "\<forall>r. \<not> closed r w'" using Cons.prems send_closed[of _ r f w] by (simp add: s)
    then show ?thesis using Cons.IH Some by (simp add: s)
  qed (use Cons in simp)
qed simp

lemma add_open:
  assumes "\<forall>r. \<not> closed r (snd cw)"
  shows "\<forall>r. \<not> closed r (snd (snd (collector_add ft send env r0 cw)))"
  using assms by (cases cw) (auto simp: collector_add_def Let_def send_closed)

lemma loop_send_open:
  assumes "\<forall>r. \<not> closed r (snd cw)"
  shows "\<forall>r. \<not> closed r (snd (loop_send ft send ids l cw))"
    "live_loops (fst (loop_send ft send ids l cw)) = live_loops (fst cw)"
    "dom (cl_loops (fst (loop_send ft send ids l cw))) = dom (cl_loops (fst cw))"
    "cl_refs (fst (loop_send ft send ids l cw)) = cl_refs (fst cw)"
    "cl_cancel (fst (loop_send ft send ids l cw)) = cl_cancel (fst cw)"
    "cl_started (fst (loop_send ft send ids l cw)) = cl_started (fst cw)"
  using assms
  by (cases cw; auto simp: loop_send_def broadcast_open live_loops_def split: option.splits
      loop_pc.splits)+

lemma stats_apply_open:
  "\<forall>r. \<not> closed r (snd cw) \<Longrightarrow> \<forall>r. \<not> closed r (snd (stats_apply ft send e cw))"
  by (cases e) (auto simp: add_open loop_send_open split: option.splits)

lemma loops_ok_add:
  assumes "loops_ok c" "0 \<le> cl_refs c"
  shows "loops_ok (fst (snd (collector_add ft send env r (c, w))))"
proof (cases "cl_refs c = 0")
  case True
  then have "live_loops (fst (snd (collector_add ft send env r (c, w)))) = {cl_started c}"
    using assms(1)
    by (auto simp: collector_add_def Let_def live_loops_def loops_ok_def loop_start_def split: if_splits)
  then show ?thesis
    using True assms(1) by (auto simp: collector_add_def Let_def loops_ok_def less_SucI)
next
  case False
  then show ?thesis
    using assms by (auto simp: collector_add_def Let_def loops_ok_def live_loops_def)
qed

lemma loops_ok_remove:
  assumes "loops_ok c" "cl_senders c sid \<noteq> None \<Longrightarrow> 0 < cl_refs c"
  shows "loops_ok (collector_remove sid c)"
proof (cases "cl_senders c sid = None \<or> cl_refs c \<noteq> 1")
  case True
  then show ?thesis
    using assms by (auto simp: collector_remove_def Let_def loops_ok_def live_loops_def)
next
  case False
  then obtain l where l': "cl_cancel c = Some l" "live_loops c = {l}"
    using assms(1) by (auto simp: loops_ok_def)
  then have "l \<in> live_loops c" by simp
  then obtain lp where l: "cl_cancel c = Some l" "live_loops c = {l}" "cl_loops c l = Some lp"
    using l' by (auto simp: live_loops_def)
  then have "live_loops (cancel_loop l c) = {}"
    by (auto simp: live_loops_def cancel_loop_def split: if_splits)
  then show ?thesis
    using False l assms(1)
    by (auto simp: collector_remove_def Let_def loops_ok_def live_loops_def cancel_loop_def
        split: if_splits)
qed

lemma loops_ok_turn:
  "loops_ok c \<Longrightarrow> loops_ok (loop_collect env l c)" "loops_ok c \<Longrightarrow> loops_ok (loop_exit l c)"
proof -
  have "live_loops (loop_collect env l c) = live_loops c"
    "live_loops (loop_exit l c) = live_loops c"
    by (auto simp: live_loops_def loop_collect_def loop_exit_def split: option.splits prod.splits)
  then show "loops_ok c \<Longrightarrow> loops_ok (loop_collect env l c)" "loops_ok c \<Longrightarrow> loops_ok (loop_exit l c)"
    by (auto simp: loops_ok_def loop_collect_def loop_exit_def
        split: option.splits prod.splits if_splits)
qed

lemma refs_positive:
  assumes "refs_ok c"
  shows "0 \<le> cl_refs c" "cl_senders c sid \<noteq> None \<Longrightarrow> 0 < cl_refs c"
proof -
  show "0 \<le> cl_refs c" using assms by (simp add: refs_ok_def)
  assume "cl_senders c sid \<noteq> None"
  then have "sid \<in> dom (cl_senders c)" by blast
  then have "0 < card (dom (cl_senders c))" by (auto simp: card_gt_0_iff)
  then show "0 < cl_refs c" using assms by (simp add: refs_ok_def)
qed

lemma loops_ok_apply:
  assumes "\<forall>r. \<not> closed r (snd cw)" "loops_ok (fst cw)" "refs_ok (fst cw)"
  shows "loops_ok (fst (stats_apply ft send e cw))"
proof (cases e)
  case (StAdd env r)
  then show ?thesis
    using loops_ok_add[OF assms(2) refs_positive(1)[OF assms(3)], of ft env r "snd cw"] by simp
next
  case (StRemove sid)
  then show ?thesis
    using loops_ok_remove[OF assms(2) refs_positive(2)[OF assms(3)]] by simp
next
  case (StSend ids l)
  then show ?thesis using assms by (simp add: loops_ok_def loop_send_open)
qed (use assms in \<open>auto simp: loops_ok_turn split: option.splits\<close>)

lemma stats_run_loops:
  assumes "\<forall>r. \<not> closed r (snd cw)" "loops_ok (fst cw)" "refs_ok (fst cw)"
    and "unat (cl_idGen (fst cw)) + adds evs < 2 ^ 64"
  shows "loops_ok (fst (stats_run ft send evs cw))"
  using assms
proof (induction evs rule: rev_induct)
  case (snoc e evs)
  have a: "adds (evs @ es) = adds evs + adds es" for es :: "'r stats_event list"
    by (induction evs rule: adds.induct) simp_all
  have op: "\<forall>r. \<not> closed r (snd (stats_run ft send evs cw))"
    using snoc.prems(1) by (induction evs arbitrary: cw) (simp_all add: stats_run_def stats_apply_open)
  have "refs_ok (fst (stats_run ft send evs cw))"
    using snoc.prems by (intro stats_run_refs) (simp_all add: a)
  moreover have "loops_ok (fst (stats_run ft send evs cw))" using snoc by (simp add: a)
  ultimately show ?case using loops_ok_apply[OF op] by (simp add: stats_run_def)
qed (simp add: stats_run_def)

end

section \<open>What a client is sent\<close>

text \<open>A client keeps a snapshot and overwrites the fields a frame carries.\<close>

definition apply_delta :: "stats_delta \<Rightarrow> snapshot \<Rightarrow> snapshot" where
  "apply_delta d v =
     (let upd = (\<lambda>x old. case x of None \<Rightarrow> old | Some y \<Rightarrow> y);
          num = (\<lambda>x old. case x of None \<Rightarrow> old | Some y \<Rightarrow> y);
          str = (\<lambda>x old. case x of None \<Rightarrow> old | Some y \<Rightarrow> y)
      in \<lparr>sn_CPU = upd (sd_CPU d) (sn_CPU v), sn_RAMUsed = num (sd_RAMUsed d) (sn_RAMUsed v),
          sn_RAMTotal = num (sd_RAMTotal d) (sn_RAMTotal v),
          sn_DiskUsed = num (sd_DiskUsed d) (sn_DiskUsed v),
          sn_DiskTotal = num (sd_DiskTotal d) (sn_DiskTotal v),
          sn_NetRxRate = num (sd_NetRxRate d) (sn_NetRxRate v),
          sn_NetTxRate = num (sd_NetTxRate d) (sn_NetTxRate v),
          sn_Uptime = upd (sd_Uptime d) (sn_Uptime v),
          sn_LoadAvg = (if sd_LoadAvg d = [] then sn_LoadAvg v else sd_LoadAvg d),
          sn_Kernel = str (sd_Kernel d) (sn_Kernel v),
          sn_Hostname = str (sd_Hostname d) (sn_Hostname v)\<rparr>)"

lemma apply_delta_snapshot:
  assumes "sn_Kernel v = sn_Kernel prev" "sn_Hostname v = sn_Hostname prev" "sn_LoadAvg cur \<noteq> []"
  shows "apply_delta (snapshotToDelta cur prev) v = cur"
  using assms by (cases cur) (auto simp: apply_delta_def snapshotToDelta_def Let_def)

text \<open>The deltas between consecutive snapshots.\<close>

fun deltas :: "snapshot \<Rightarrow> snapshot list \<Rightarrow> stats_delta list" where
  "deltas s [] = []"
| "deltas s (t # ts) = snapshotToDelta t s # deltas t ts"

lemma apply_deltas:
  "\<forall>t \<in> set ts. sn_LoadAvg t \<noteq> [] \<Longrightarrow> fold apply_delta (deltas s ts) s = last (s # ts)"
  by (induction ts arbitrary: s) (simp_all add: apply_delta_snapshot)

text \<open>Turns of a loop, each with what the system shows and the order of the range statement.\<close>

definition turns :: "nat \<Rightarrow> (proc_env \<times> u64 list) list \<Rightarrow> 'r stats_event list" where
  "turns l ts = concat (map (\<lambda>(env, ids). [StCollect env l, StSend ids l]) ts)"

lemma turns_simps [simp]:
  "turns l [] = []" "turns l ((env, ids) # ts) = StCollect env l # StSend ids l # turns l ts"
  by (simp_all add: turns_def)

text \<open>The loop \<open>l\<close> waits for its tick, and the sender \<open>r\<close> is registered exactly once.\<close>

definition waiting :: "nat \<Rightarrow> 'r collector \<Rightarrow> bool" where
  "waiting l c \<longleftrightarrow> (\<exists>lp. cl_loops c l = Some lp \<and> lp_pc lp = LoopWaiting)"

definition once :: "u64 \<Rightarrow> 'r \<Rightarrow> (u64 \<rightharpoonup> 'r) \<Rightarrow> bool" where
  "once sid r m \<longleftrightarrow> m sid = Some r \<and> (\<forall>k. m k = Some r \<longrightarrow> k = sid)"

lemma collect_snapshot:
  "fst (collect env k h cpu net) = Some t \<Longrightarrow> sn_LoadAvg t \<noteq> [] \<and> sn_Kernel t = k \<and> sn_Hostname t = h"
  by (auto simp: collect_def readLoadAvg_def Let_def split: option.splits prod.splits if_splits
      Option.bind_splits)

context frame_sender
begin

lemma broadcast_misses:
  assumes "\<forall>r. \<not> closed r w" "\<forall>k \<in> set ids. cl_senders c k \<noteq> Some r"
  shows "outbox r (snd (broadcast send f ids (c, w))) = outbox r w
    \<and> room r (snd (broadcast send f ids (c, w))) = room r w"
  using assms
proof (induction ids arbitrary: w)
  case (Cons k ids)
  show ?case
  proof (cases "cl_senders c k")
    case (Some r')
    obtain w' where s: "send r' f w = (w', False)"
      using Cons.prems(1) send_error[of r' f w] by (metis prod.collapse)
    have "\<forall>r. \<not> closed r w'" using Cons.prems(1) send_closed[of _ r' f w] by (simp add: s)
    moreover have "r \<noteq> r'" using Cons.prems(2) Some by auto
    then have "outbox r w' = outbox r w" "room r w' = room r w"
      using send_other[of r r' f w] send_other_room[of r r' f w] by (simp_all add: s)
    ultimately show ?thesis using Cons.IH[of w'] Cons.prems(2) Some by (simp add: s)
  qed (use Cons in simp)
qed simp

lemma broadcast_append:
  "broadcast send f (xs @ ys) cw = broadcast send f ys (broadcast send f xs cw)"
  by (induction send f xs cw rule: broadcast.induct) (auto split: option.splits prod.splits)

lemma broadcast_once:
  assumes "\<forall>r. \<not> closed r w" "visits_all ids (cl_senders c)" "once sid r (cl_senders c)" "0 < room r w"
  shows "outbox r (snd (broadcast send f ids (c, w))) = outbox r w @ [encode f]"
    "room r (snd (broadcast send f ids (c, w))) = room r w - 1"
proof -
  have "sid \<in> set ids" using assms(2,3) by (auto simp: visits_all_def once_def)
  then obtain xs ys where ids: "ids = xs @ sid # ys" by (auto simp: in_set_conv_decomp)
  have no: "\<forall>k \<in> set xs. cl_senders c k \<noteq> Some r" "\<forall>k \<in> set ys. cl_senders c k \<noteq> Some r"
    using assms(2,3) ids by (auto simp: visits_all_def once_def)
  obtain w1 where w1: "broadcast send f xs (c, w) = (c, w1)" "\<forall>r. \<not> closed r w1"
    using broadcast_open[OF assms(1), of f xs c] by (metis prod.collapse)
  have o1: "outbox r w1 = outbox r w" "room r w1 = room r w"
    using broadcast_misses[OF assms(1) no(1), of f] w1(1) by simp_all
  obtain w2 where w2: "send r f w1 = (w2, False)"
    using w1(2) send_error[of r f w1] by (metis prod.collapse)
  have o2: "outbox r w2 = outbox r w @ [encode f]" "room r w2 = room r w - 1"
    using send_outbox[of r f w1] send_room[of r f w1] o1 assms(4) by (simp_all add: w2)
  have op: "\<forall>r. \<not> closed r w2" using w1(2) send_closed[of _ r f w1] by (simp add: w2)
  have "broadcast send f ids (c, w) = broadcast send f ys (c, w2)"
    using assms(3) by (simp add: ids broadcast_append w1(1) w2 once_def)
  then show "outbox r (snd (broadcast send f ids (c, w))) = outbox r w @ [encode f]"
    "room r (snd (broadcast send f ids (c, w))) = room r w - 1"
    using broadcast_misses[OF op no(2), of f] o2 by simp_all
qed

lemma turns_outbox:
  assumes "\<forall>r. \<not> closed r w" "waiting l c" "once sid r (cl_senders c)"
    and "\<forall>(env, ids) \<in> set ts. visits_all ids (cl_senders c)" "length ts \<le> room r w"
    and "stats_run ft send (turns l ts) (c, w) = (c', w')"
  shows "\<exists>snaps. outbox r w' = outbox r w @ map (encode \<circ> stats_frame ft) (deltas (cl_last c) snaps)
    \<and> cl_last c' = last (cl_last c # snaps)
    \<and> (\<forall>t \<in> set snaps. sn_LoadAvg t \<noteq> [] \<and> sn_Kernel t = cl_kernel c \<and> sn_Hostname t = cl_hostname c)"
  using assms
proof (induction ts arbitrary: c w)
  case (Cons turn ts)
  obtain env ids where turn: "turn = (env, ids)" by (cases turn)
  obtain lp where lp: "cl_loops c l = Some lp" "lp_pc lp = LoopWaiting"
    using Cons.prems(2) by (auto simp: waiting_def)
  obtain res cpu net where col:
    "collect env (cl_kernel c) (cl_hostname c) (lp_cpu lp) (lp_net lp) = (res, cpu, net)"
    by (metis prod.exhaust)
  have v: "visits_all ids (cl_senders c)" using Cons.prems(4) by (simp add: turn)
  show ?case
  proof (cases res)
    case None
    let ?c1 = "c\<lparr>cl_loops := (cl_loops c)(l \<mapsto> lp\<lparr>lp_cpu := cpu, lp_net := net\<rparr>)\<rparr>"
    have "stats_run ft send (turns l ts) (?c1, w) = (c', w')"
      using Cons.prems(6) lp col None v
      by (simp add: turn stats_run_def loop_collect_def loop_send_def)
    moreover have "waiting l ?c1" using lp by (simp add: waiting_def)
    ultimately show ?thesis
      using Cons.IH[OF Cons.prems(1), of ?c1] Cons.prems(3-5) by simp
  next
    case (Some t)
    let ?d = "snapshotToDelta t (cl_last c)"
    let ?c1 = "c\<lparr>cl_last := t, cl_loops := (cl_loops c)(l \<mapsto> lp\<lparr>lp_cpu := cpu, lp_net := net,
        lp_pc := LoopSending ?d\<rparr>)\<rparr>"
    let ?c2 = "?c1\<lparr>cl_loops := (cl_loops ?c1)(l \<mapsto> lp\<lparr>lp_cpu := cpu, lp_net := net,
        lp_pc := LoopWaiting\<rparr>)\<rparr>"
    define w2 where "w2 = snd (broadcast send (stats_frame ft ?d) ids (?c2, w))"
    have b: "broadcast send (stats_frame ft ?d) ids (?c2, w) = (?c2, w2)" "\<forall>r. \<not> closed r w2"
      using broadcast_open[OF Cons.prems(1), of "stats_frame ft ?d" ids ?c2]
      by (simp_all add: w2_def prod_eq_iff)
    have o: "outbox r w2 = outbox r w @ [encode (stats_frame ft ?d)]" "room r w2 = room r w - 1"
      using broadcast_once[OF Cons.prems(1), of ids ?c2 sid r "stats_frame ft ?d"]
        v Cons.prems(3,5) by (simp_all add: w2_def)
    have run2: "stats_run ft send (turns l ts) (?c2, w2) = (c', w')"
      using Cons.prems(6) lp col Some v b(1)
      by (simp add: turn stats_run_def loop_collect_def loop_send_def)
    have wait2: "waiting l ?c2" by (simp add: waiting_def)
    have "once sid r (cl_senders ?c2)" "\<forall>(env, ids) \<in> set ts. visits_all ids (cl_senders ?c2)"
      "length ts \<le> room r w2"
      using Cons.prems(3-5) o(2) by simp_all
    from Cons.IH[OF b(2) wait2 this run2] obtain snaps where s:
      "outbox r w' = outbox r w2 @ map (encode \<circ> stats_frame ft) (deltas (cl_last ?c2) snaps)"
      "cl_last c' = last (cl_last ?c2 # snaps)"
      "\<forall>t \<in> set snaps. sn_LoadAvg t \<noteq> [] \<and> sn_Kernel t = cl_kernel ?c2 \<and> sn_Hostname t = cl_hostname ?c2"
      by blast
    have "sn_LoadAvg t \<noteq> [] \<and> sn_Kernel t = cl_kernel c \<and> sn_Hostname t = cl_hostname c"
      using collect_snapshot[of env "cl_kernel c" "cl_hostname c" "lp_cpu lp" "lp_net lp" t] col Some
      by simp
    then show ?thesis using s o(1) by (intro exI[of _ "t # snaps"]) simp
  qed
qed (auto simp: stats_run_def intro: exI[of _ "[]"])

end

text \<open>A loop that no cancel function refers to stays.\<close>

definition orphaned :: "nat \<Rightarrow> 'r collector \<Rightarrow> bool" where
  "orphaned l c \<longleftrightarrow> l \<in> live_loops c \<and> cl_cancel c \<noteq> Some l \<and> l < cl_started c"

lemma orphaned_loop_fields:
  "cl_loops c l = Some lp \<Longrightarrow> orphaned k c \<Longrightarrow> lp_cancelled lp' = lp_cancelled lp \<Longrightarrow>
     orphaned k (c\<lparr>cl_loops := (cl_loops c)(l \<mapsto> lp')\<rparr>)"
  by (auto simp: orphaned_def live_loops_def)

lemma orphaned_apply: "orphaned l (fst cw) \<Longrightarrow> orphaned l (fst (stats_apply ft send e cw))"
proof (cases e)
  case (StAdd env r)
  assume "orphaned l (fst cw)"
  then show ?thesis
    by (cases cw) (auto simp: StAdd collector_add_def Let_def orphaned_def live_loops_def)
next
  case (StRemove sid)
  assume "orphaned l (fst cw)"
  then show ?thesis
    by (auto simp: StRemove collector_remove_def Let_def cancel_loop_def orphaned_def live_loops_def
        split: option.splits)
next
  case (StCollect env k)
  assume "orphaned l (fst cw)"
  then show ?thesis
    by (auto simp: StCollect loop_collect_def orphaned_def live_loops_def
        split: option.splits prod.splits)
next
  case (StSend ids k)
  assume o: "orphaned l (fst cw)"
  obtain c w where cw: "cw = (c, w)" by fastforce
  have b: "orphaned l (fst (broadcast send f js (c1, w1))) = orphaned l c1" for f js c1 w1
    using broadcast_loops[of send f js "(c1, w1)"] by (simp add: orphaned_def live_loops_def)
  show ?thesis
    using o by (auto simp: StSend cw loop_send_def b orphaned_loop_fields
        split: option.splits loop_pc.splits)
next
  case (StExit k)
  assume "orphaned l (fst cw)"
  then show ?thesis
    by (auto simp: StExit loop_exit_def orphaned_def live_loops_def split: option.splits)
qed

lemma orphaned_run: "orphaned l (fst cw) \<Longrightarrow> orphaned l (fst (stats_run ft send evs cw))"
  by (induction evs arbitrary: cw) (simp_all add: stats_run_def orphaned_apply)

section \<open>Properties\<close>

text \<open>C14. Reference counting: from the start on, whatever clients join, leave, are sent to and fail, the
  count is the number of registered senders (until 2^64 clients have joined); and while no
  registered connection is closed, exactly one loop runs when there are clients, the one
  whose cancel function is stored, and none when there are no clients.\<close>
theorem stats_refcount:
  assumes "adds evs < 2 ^ 64"
    and "stats_run ft store_send evs (collector_new u h, hs0) = (c, hs)"
  shows "cl_refs c = int (card (dom (cl_senders c)))
    \<and> ((\<forall>i. \<not> hb_done (hs0 i)) \<longrightarrow>
         (if dom (cl_senders c) = {} then live_loops c = {} \<and> cl_cancel c = None
          else \<exists>l. cl_cancel c = Some l \<and> live_loops c = {l}))"
proof -
  let ?c0 = "collector_new u h :: nat collector"
  have i: "refs_ok ?c0" "loops_ok ?c0" "cl_idGen ?c0 = 0"
    by (simp_all add: refs_ok_def loops_ok_def collector_new_def live_loops_def)
  have r: "refs_ok c"
    using stats_run_refs[of "(?c0, hs0)" evs ft store_send] i assms by simp
  have z: "cl_refs c = 0 \<longleftrightarrow> dom (cl_senders c) = {}"
    using r by (simp add: refs_ok_def)
  have "loops_ok c" if "\<forall>i. \<not> hb_done (hs0 i)"
    using hub_store.stats_run_loops[of "(?c0, hs0)" evs ft] i assms that by simp
  then show ?thesis using r z by (auto simp: refs_ok_def loops_ok_def)
qed

text \<open>C26. A client that joins while the loop waits between two turns, with a snapshot already taken
  and no connection closed, sees everything as long as no other client joins or leaves and its
  queue has room for one frame more than there are turns: it is sent the last snapshot at once
  and in every turn that collects a snapshot a delta, and applying them gives the collector's
  last snapshot, host and kernel names included.\<close>
theorem stats_late_joiner:
  assumes "\<forall>i. \<not> hb_done (hs i)" "0 < cl_refs c" "0 < sn_RAMTotal (cl_last c)"
    and "sn_LoadAvg (cl_last c) \<noteq> []" "\<forall>k. cl_senders c k \<noteq> Some r" "waiting l c"
    and "collector_add ft store_send env r (c, hs) = (sid, c1, hs1)"
    and "\<forall>(env, ids) \<in> set ts. visits_all ids (cl_senders c1)" "length ts < hub_room (hs r)"
    and "stats_run ft store_send (turns l ts) (c1, hs1) = (c', hs')"
  shows "\<exists>ds. hub_outbox (hs' r) = hub_outbox (hs r) @ map (encode \<circ> stats_frame ft) ds
    \<and> fold apply_delta ds snapshot_zero = cl_last c'"
proof -
  let ?d = "snapshotToDelta (cl_last c) snapshot_zero"
  have c1: "c1 = c\<lparr>cl_idGen := cl_idGen c + 1, cl_senders := (cl_senders c)(cl_idGen c + 1 \<mapsto> r),
      cl_refs := cl_refs c + 1\<rparr>" "hs1 = fst (store_send r (stats_frame ft ?d) hs)"
    using assms(2,3,7) by (auto simp: collector_add_def Let_def)
  have op: "\<forall>i. \<not> hb_done (hs1 i)" using assms(1) by (simp add: c1(2) hub_store.send_closed)
  have o1: "hub_outbox (hs1 r) = hub_outbox (hs r) @ [encode (stats_frame ft ?d)]"
      "hub_room (hs1 r) = hub_room (hs r) - 1"
    using assms(9) by (simp_all add: c1(2) hub_store.send_outbox hub_store.send_room)
  have w1: "waiting l c1" using assms(6) by (simp add: c1(1) waiting_def)
  have on: "once (cl_idGen c + 1) r (cl_senders c1)"
    using assms(5) by (simp add: c1(1) once_def)
  have "length ts \<le> hub_room (hs1 r)" using assms(9) o1(2) by simp
  from hub_store.turns_outbox[OF op w1 on assms(8) this assms(10)] obtain snaps where s:
    "hub_outbox (hs' r) = hub_outbox (hs1 r) @ map (encode \<circ> stats_frame ft) (deltas (cl_last c1) snaps)"
    "cl_last c' = last (cl_last c1 # snaps)" "\<forall>t \<in> set snaps. sn_LoadAvg t \<noteq> []"
    by blast
  have l: "cl_last c1 = cl_last c" by (simp add: c1(1))
  have "fold apply_delta (?d # deltas (cl_last c) snaps) snapshot_zero = cl_last c'"
    using apply_delta_snapshot[of snapshot_zero snapshot_zero "cl_last c"] assms(4)
      apply_deltas[OF s(3), of "cl_last c"] s(2) l by simp
  then show ?thesis using s(1) o1(1) l by (intro exI[of _ "?d # deltas (cl_last c) snaps"]) simp
qed

text \<open>A client that joins after the last one has left never learns the host and kernel names: the
  collector still has its last snapshot, sends no full one to a first client, and the deltas
  leave out names that have not changed.\<close>
theorem stats_first_after_idle:
  assumes "\<forall>i. \<not> hb_done (hs i)" "cl_refs c = 0" "cl_senders c = Map.empty"
    and "sn_Kernel (cl_last c) = cl_kernel c" "sn_Hostname (cl_last c) = cl_hostname c"
    and "collector_add ft store_send env r (c, hs) = (sid, c1, hs1)"
    and "\<forall>(env, ids) \<in> set ts. visits_all ids (cl_senders c1)" "length ts \<le> hub_room (hs r)"
    and "stats_run ft store_send (turns (cl_started c) ts) (c1, hs1) = (c', hs')"
  shows "\<exists>ds. hub_outbox (hs' r) = hub_outbox (hs r) @ map (encode \<circ> stats_frame ft) ds
    \<and> (\<forall>d \<in> set ds. sd_Kernel d = None \<and> sd_Hostname d = None)
    \<and> sn_Kernel (fold apply_delta ds snapshot_zero) = []"
proof -
  have c1: "waiting (cl_started c) c1" "cl_senders c1 = [cl_idGen c + 1 \<mapsto> r]" "hs1 = hs"
      "cl_last c1 = cl_last c" "cl_kernel c1 = cl_kernel c" "cl_hostname c1 = cl_hostname c"
    using assms(2,3,6) by (auto simp: collector_add_def Let_def waiting_def loop_start_def)
  have on: "once (cl_idGen c + 1) r (cl_senders c1)" by (simp add: c1(2) once_def)
  obtain snaps where s:
    "hub_outbox (hs' r) = hub_outbox (hs r) @ map (encode \<circ> stats_frame ft) (deltas (cl_last c) snaps)"
    "\<forall>t \<in> set snaps. sn_Kernel t = cl_kernel c \<and> sn_Hostname t = cl_hostname c"
    using hub_store.turns_outbox[OF assms(1) c1(1) on assms(7,8) assms(9)[unfolded c1(3)]]
    unfolding c1(4-6) by blast
  have no: "\<forall>d \<in> set (deltas t ts). sd_Kernel d = None \<and> sd_Hostname d = None"
    if "\<forall>u \<in> set ts. sn_Kernel u = sn_Kernel t \<and> sn_Hostname u = sn_Hostname t" for t ts
    using that
  proof (induction ts arbitrary: t)
    case (Cons u us)
    have "\<forall>v \<in> set us. sn_Kernel v = sn_Kernel u \<and> sn_Hostname v = sn_Hostname u"
      using Cons.prems by simp
    from Cons.IH[OF this] show ?case using Cons.prems by (simp add: snapshotToDelta_def)
  qed simp
  have d: "\<forall>d \<in> set (deltas (cl_last c) snaps). sd_Kernel d = None \<and> sd_Hostname d = None"
    using s(2) assms(4,5) by (intro no) simp
  have "sn_Kernel (fold apply_delta ds v) = sn_Kernel v" if "\<forall>d \<in> set ds. sd_Kernel d = None" for ds v
    using that by (induction ds arbitrary: v) (simp_all add: apply_delta_def Let_def)
  from this[of "deltas (cl_last c) snaps" snapshot_zero] show ?thesis
    using s(1) d by (intro exI[of _ "deltas (cl_last c) snaps"]) (simp add: snapshot_zero_def)
qed

text \<open>C35. A loop that drops its last client because the send failed is never cancelled: the count
  reaches zero without the cancel function being called, the client's own \<open>Remove\<close> finds
  nothing to remove, the next \<open>Add\<close> starts a second loop and forgets the first, and whatever
  happens afterwards the first loop keeps running.\<close>
theorem stats_loop_leak:
  assumes "cl_senders c = [sid \<mapsto> r]" "cl_refs c = 1" "cl_idGen c = sid"
    and "cl_loops c l = Some lp" "\<not> lp_cancelled lp" "lp_pc lp = LoopSending d" "l < cl_started c"
    and "hb_done (hs r)"
    and "loop_send ft store_send [sid] l (c, hs) = (c1, hs1)"
    and "collector_add ft store_send env r' (collector_remove sid c1, hs1) = (sid', c2, hs2)"
    and "c3 = collector_remove sid' c2"
  shows "cl_refs c1 = 0 \<and> collector_remove sid c1 = c1 \<and> {l, cl_started c} \<subseteq> live_loops c2
    \<and> cl_refs c3 = 0 \<and> cl_senders c3 = Map.empty
    \<and> l \<in> live_loops (fst (stats_run ft send evs (c3, w)))"
proof -
  have c1: "c1 = c\<lparr>cl_loops := (cl_loops c)(l \<mapsto> lp\<lparr>lp_pc := LoopWaiting\<rparr>), cl_senders := Map.empty,
      cl_refs := 0\<rparr>"
    using assms(1,2,4,6,8,9)
    by (auto simp: loop_send_def hub_store.send_error split: prod.splits)
      (simp_all add: store_send_def hub_send_def send_error_def)
  then have rm: "collector_remove sid c1 = c1" by (simp add: collector_remove_def)
  have sid: "sid' = sid + 1" and c2: "c2 = c1\<lparr>cl_idGen := sid + 1, cl_senders := [sid + 1 \<mapsto> r'], cl_refs := 1,
      cl_cancel := Some (cl_started c), cl_loops := (cl_loops c1)(cl_started c \<mapsto> loop_start env),
      cl_started := cl_started c + 1\<rparr>"
    using assms(3,10) unfolding rm by (auto simp: collector_add_def Let_def c1)
  have live: "{l, cl_started c} \<subseteq> live_loops c2"
    using assms(5,7) by (auto simp: c2 c1 live_loops_def loop_start_def)
  have c3: "cl_refs c3 = 0" "cl_senders c3 = Map.empty" "orphaned l c3"
    using assms(5,7,11)
    by (auto simp: sid c2 c1 collector_remove_def cancel_loop_def orphaned_def live_loops_def Let_def)
  have "orphaned l (fst (stats_run ft send evs (c3, w)))"
    using c3(3) by (intro orphaned_run) simp
  then show ?thesis using c3 rm live by (simp add: orphaned_def c1)
qed

section \<open>Witnesses\<close>

definition demo_env :: proc_env where
  "demo_env = \<lparr>pe_stat = None, pe_net_dev = None, pe_meminfo = None, pe_statfs = None,
     pe_uptime = None, pe_loadavg = None, pe_float = (\<lambda>s. (0, True))\<rparr>"

definition demo_snapshot :: snapshot where
  "demo_snapshot = snapshot_zero\<lparr>sn_RAMTotal := 1024, sn_LoadAvg := [0, 0, 0], sn_Kernel := ''6.1'',
     sn_Hostname := ''host''\<rparr>"

definition demo_loop :: stats_loop where
  "demo_loop = \<lparr>lp_cancelled = False, lp_cpu = cpu_zero, lp_net = net_zero, lp_pc = LoopWaiting\<rparr>"

text \<open>One client on hub 0, one loop, one snapshot taken.\<close>

definition demo_collector :: "nat collector" where
  "demo_collector = \<lparr>cl_senders = [1 \<mapsto> 0], cl_cancel = Some 0, cl_refs = 1, cl_last = demo_snapshot,
     cl_kernel = ''6.1'', cl_hostname = ''host'', cl_idGen = 1, cl_loops = [0 \<mapsto> demo_loop],
     cl_started = 1\<rparr>"

theorem stats_refcount_witness:
  "\<exists>c :: nat collector. cl_refs c = 1 \<and> (\<exists>l. live_loops c = {l})"
proof -
  let ?hs = "\<lambda>_. hub_new :: nat hub"
  obtain c hs where run: "stats_run (\<lambda>_. []) store_send [StAdd demo_env (0::nat)]
      (collector_new None None, ?hs) = (c, hs)" by fastforce
  have c: "dom (cl_senders c) = {1}"
    using run by (auto simp: stats_run_def collector_add_def collector_new_def Let_def split: if_splits)
  show ?thesis
    using stats_refcount[OF _ run] by (intro exI[of _ c]) (auto simp: c hub_new_def)
qed

text \<open>What the system shows at the next turn.\<close>

definition demo_env1 :: proc_env where
  "demo_env1 = \<lparr>pe_stat = Some (concat (map (\<lambda>l. l @ [CHR 0x0A]) ([] @ [cpu_line [1, 2, 3, 4]] @ []))),
     pe_net_dev = Some [], pe_meminfo = Some [], pe_statfs = Some (1, 2, 1), pe_uptime = Some ''1'',
     pe_loadavg = Some ''1 1 1'', pe_float = (\<lambda>s. (0, False))\<rparr>"

lemma demo_collected:
  "\<exists>snap cpu net. collect demo_env1 k h pc pn = (Some snap, cpu, net) \<and> sn_DiskTotal snap = 2"
proof -
  have "length (cpu_line [1, 2, 3, 4]) < 65536" by (simp add: cpu_line_def dec_of_nat.simps)
  then have "\<forall>l \<in> set ([] @ [cpu_line [1, 2, 3, 4]] @ []). CHR 0x0A \<notin> set l \<and> CHR 0x0D \<notin> set l \<and> length l < 65536"
    using cpu_line_chars by simp
  from read_cpu_line[OF _ _ this] obtain c where c: "readCPU (pe_stat demo_env1) = Some c"
    by (auto simp: demo_env1_def)
  have l: "scan_lines [] = []" by (simp add: scan_lines_def raw_lines_def)
  have "list_all plain_char ''1''" by (simp add: plain_char_def space_encodings_def)
  then have f: "Go_Text.fields ''1'' = [''1'']" "Go_Text.fields ''1 1 1'' = [''1'', ''1'', ''1'']"
    using fields_join[of "[''1'']"] fields_join[of "[''1'', ''1'', ''1'']"] by simp_all
  have "readNet (pe_net_dev demo_env1) = Some net_zero" "readMem (pe_meminfo demo_env1) = Some (0, 0)"
    "readDisk (pe_statfs demo_env1) = Some (1, 2)" "readUptime (pe_float demo_env1) (pe_uptime demo_env1) = Some 0"
    "readLoadAvg (pe_float demo_env1) (pe_loadavg demo_env1) = Some [0, 0, 0]"
    by (simp_all add: demo_env1_def readNet_def readMem_def readDisk_def readUptime_def readLoadAvg_def l f Let_def)
  then show ?thesis using c by (simp add: collect_def split: prod.split)
qed

text \<open>A second client joins, and the loop takes one turn.\<close>

definition demo_joined :: "nat collector" where
  "demo_joined = demo_collector\<lparr>cl_idGen := 2, cl_senders := [1 \<mapsto> 0, 2 \<mapsto> 1], cl_refs := 2\<rparr>"

lemma demo_join:
  assumes "collector_add ft send demo_env 1 (demo_collector, w) = (sid, c1, w1)"
  shows "c1 = demo_joined"
  using assms by (simp add: collector_add_def Let_def demo_joined_def demo_collector_def demo_snapshot_def)

lemma broadcast_last: "cl_last (fst (broadcast send f ids cw)) = cl_last (fst cw)"
proof (induction ids arbitrary: cw)
  case (Cons sid ids)
  then show ?case by (cases cw) (simp split: option.split prod.split)
qed simp

lemma demo_turn:
  assumes "stats_run ft send (turns 0 [(demo_env1, ids)]) (demo_joined, w) = (c', w')"
  shows "sn_DiskTotal (cl_last c') = 2"
proof -
  obtain snap cpu net where s: "collect demo_env1 ''6.1'' ''host'' cpu_zero net_zero = (Some snap, cpu, net)"
    "sn_DiskTotal snap = 2" using demo_collected by blast
  have send: "cl_last (fst (stats_apply ft send (StSend ids 0) cw)) = cl_last (fst cw)" for cw
    by (cases cw) (simp add: loop_send_def broadcast_last split: option.split loop_pc.split)
  have "cl_last (fst (stats_apply ft send (StCollect demo_env1 0) (demo_joined, w))) = snap"
    by (simp add: demo_joined_def demo_collector_def demo_loop_def loop_collect_def s(1))
  then show ?thesis
    using send arg_cong[OF assms, of "\<lambda>r. cl_last (fst r)"] s(2) by (simp add: stats_run_def del: stats_apply.simps)
qed

theorem stats_late_joiner_witness:
  "\<exists>ds hs c' hs'. stats_run (\<lambda>_. []) store_send (turns 0 [(demo_env1, [1, 2])]) (demo_joined, hs) = (c', hs' :: _ \<Rightarrow> nat hub)
     \<and> hub_outbox (hs' 1) = map (encode \<circ> stats_frame (\<lambda>_. [])) ds
     \<and> fold apply_delta ds snapshot_zero = cl_last c' \<and> cl_last c' \<noteq> cl_last demo_joined"
proof -
  let ?hs = "\<lambda>_. hub_new :: nat hub"
  obtain sid c1 hs1 where "collector_add (\<lambda>_. []) store_send demo_env 1 (demo_collector, ?hs) = (sid, c1, hs1)"
    by (metis prod.exhaust)
  then have add: "collector_add (\<lambda>_. []) store_send demo_env 1 (demo_collector, ?hs) = (sid, demo_joined, hs1)"
    using demo_join by metis
  have w: "waiting 0 demo_collector" by (simp add: waiting_def demo_collector_def demo_loop_def)
  obtain c' hs' where run: "stats_run (\<lambda>_. []) store_send (turns 0 [(demo_env1, [1, 2])]) (demo_joined, hs1) = (c', hs')"
    by fastforce
  have v: "visits_all [1, 2] (cl_senders demo_joined)" by (auto simp: visits_all_def demo_joined_def)
  have room: "length [(demo_env1, [1, 2] :: u64 list)] < hub_room (?hs 1)"
    by (simp add: hub_new_def hub_room_def writeChanSize_def)
  have "\<exists>ds. hub_outbox (hs' 1) = hub_outbox (?hs 1) @ map (encode \<circ> stats_frame (\<lambda>_. [])) ds
      \<and> fold apply_delta ds snapshot_zero = cl_last c'"
    by (rule stats_late_joiner[OF _ _ _ _ _ w add _ room run])
      (use v in \<open>simp_all add: hub_new_def demo_collector_def demo_snapshot_def\<close>)
  then obtain ds where "hub_outbox (hs' 1) = hub_outbox (?hs 1) @ map (encode \<circ> stats_frame (\<lambda>_. [])) ds"
    "fold apply_delta ds snapshot_zero = cl_last c'" by blast
  moreover have "hub_outbox (?hs 1) = []" by (simp add: hub_new_def hub_outbox_def)
  moreover have "cl_last c' \<noteq> cl_last demo_joined"
    using demo_turn[OF run] by (auto simp: demo_joined_def demo_collector_def demo_snapshot_def snapshot_zero_def)
  ultimately have "stats_run (\<lambda>_. []) store_send (turns 0 [(demo_env1, [1, 2])]) (demo_joined, hs1) = (c', hs')
     \<and> hub_outbox (hs' 1) = map (encode \<circ> stats_frame (\<lambda>_. [])) ds
     \<and> fold apply_delta ds snapshot_zero = cl_last c' \<and> cl_last c' \<noteq> cl_last demo_joined"
    using run by simp
  then show ?thesis by blast
qed

theorem stats_first_after_idle_witness:
  "\<exists>ds. sn_Kernel (fold apply_delta ds snapshot_zero) = []"
proof -
  let ?hs = "\<lambda>_. hub_new :: nat hub"
  let ?c = "demo_collector\<lparr>cl_senders := Map.empty, cl_refs := 0, cl_cancel := None, cl_loops := Map.empty\<rparr>"
  obtain sid c1 hs1 where add: "collector_add (\<lambda>_. []) store_send demo_env 1 (?c, ?hs) = (sid, c1, hs1)"
    by (metis prod.exhaust)
  have run: "stats_run (\<lambda>_. []) store_send (turns (cl_started ?c) []) (c1, hs1) = (c1, hs1)"
    by (simp add: stats_run_def)
  have "\<exists>ds. hub_outbox (hs1 1) = hub_outbox (?hs 1) @ map (encode \<circ> stats_frame (\<lambda>_. [])) ds
      \<and> (\<forall>d \<in> set ds. sd_Kernel d = None \<and> sd_Hostname d = None)
      \<and> sn_Kernel (fold apply_delta ds snapshot_zero) = []"
    by (rule stats_first_after_idle[OF _ _ _ _ _ add _ _ run])
      (simp_all add: hub_new_def demo_collector_def demo_snapshot_def)
  then show ?thesis by auto
qed

theorem stats_loop_leak_witness:
  "\<exists>c :: nat collector. cl_refs c = 0 \<and> cl_senders c = Map.empty \<and> 0 \<in> live_loops c"
proof -
  let ?hs = "\<lambda>i. if i = 0 then hub_close hub_new else (hub_new :: nat hub)"
  let ?lp = "demo_loop\<lparr>lp_pc := LoopSending (snapshotToDelta demo_snapshot demo_snapshot)\<rparr>"
  let ?c = "demo_collector\<lparr>cl_loops := [0 \<mapsto> ?lp]\<rparr>"
  obtain c1 hs1 where send: "loop_send (\<lambda>_. []) store_send [1] 0 (?c, ?hs) = (c1, hs1)"
    by fastforce
  obtain sid' c2 hs2 where add: "collector_add (\<lambda>_. []) store_send demo_env 1 (collector_remove 1 c1, hs1)
      = (sid', c2, hs2)" by (metis prod.exhaust)
  have "cl_refs (collector_remove sid' c2) = 0 \<and> cl_senders (collector_remove sid' c2) = Map.empty
      \<and> 0 \<in> live_loops (fst (stats_run (\<lambda>_. []) store_send [] (collector_remove sid' c2, hs2)))"
    using stats_loop_leak[where lp = ?lp and ft = "\<lambda>_. []" and send = store_send and evs = "[]"
        and w = hs2, OF _ _ _ _ _ _ _ _ send add refl]
    by (simp add: demo_collector_def demo_loop_def hub_close_fields)
  then show ?thesis by (auto simp: stats_run_def)
qed

end
