(* ===== verification/Port_Scan.thy ===== *)
theory Port_Scan
  imports Go_Text Go_Json
begin

text \<open>
  \<open>internal/server/portscan.go\<close>: the listening TCP ports of the machine, from
  \<open>/proc/net/tcp\<close>, \<open>/proc/net/tcp6\<close> and the socket links of \<open>/proc/*/fd\<close>. What these files
  contain is the argument of the scan; so is the order in which Go visits the keys of its two
  maps, which the language leaves open.
\<close>

section \<open>Text\<close>

definition hex_val :: "char \<Rightarrow> nat option" where
  "hex_val c =
     (if is_digit c then Some (digit_val c)
      else if CHR ''a'' \<le> c \<and> c \<le> CHR ''f'' then Some (of_char c - 87)
      else if CHR ''A'' \<le> c \<and> c \<le> CHR ''F'' then Some (of_char c - 55)
      else None)"

fun nat_of_base :: "nat \<Rightarrow> nat \<Rightarrow> string \<Rightarrow> nat option" where
  "nat_of_base base v [] = Some v"
| "nat_of_base base v (c # cs) =
     (case hex_val c of
        None \<Rightarrow> None
      | Some d \<Rightarrow> if d < base then nat_of_base base (base * v + d) cs else None)"

text \<open>\<open>strconv.ParseInt(s, base, bits)\<close> for a base up to 16; \<open>None\<close> is an error, of syntax or of
  range. \<open>strconv.Atoi\<close> is base 10 and 64 bits.\<close>

definition parse_int :: "nat \<Rightarrow> nat \<Rightarrow> string \<Rightarrow> int option" where
  "parse_int base bits s =
     (let neg = has_prefix s ''-'';
          ds = (if neg \<or> has_prefix s ''+'' then tl s else s)
      in if ds = [] then None
         else
           (case nat_of_base base 0 ds of
              None \<Rightarrow> None
            | Some n \<Rightarrow>
                if neg then (if n \<le> 2 ^ (bits - 1) then Some (- int n) else None)
                else (if n < 2 ^ (bits - 1) then Some (int n) else None)))"

text \<open>\<open>strings.SplitN(s, sep, 2)\<close> for a one-byte separator.\<close>

definition split_n2 :: "char \<Rightarrow> string \<Rightarrow> string list" where
  "split_n2 c s = (case index_of s [c] of None \<Rightarrow> [s] | Some i \<Rightarrow> [take i s, drop (i + 1) s])"

text \<open>\<open>strings.TrimRight(s, c)\<close> for a one-byte cut set.\<close>

definition trim_right :: "char \<Rightarrow> string \<Rightarrow> string" where
  "trim_right c s = rev (dropWhile (\<lambda>x. x = c) (rev s))"

section \<open>The files under /proc\<close>

record scan_env =
  sc_tcp :: "string option"                       \<comment> \<open>\<open>None\<close>: the file cannot be opened\<close>
  sc_tcp6 :: "string option"
  sc_fds :: "(string \<times> string option) list"       \<comment> \<open>the glob, each path with what \<open>Readlink\<close> gives\<close>
  sc_comm :: "int \<Rightarrow> string option"
  sc_cmdline :: "int \<Rightarrow> string option"
  sc_inodes :: "u64 list"                         \<comment> \<open>the order of the loop over \<open>inodePorts\<close>\<close>
  sc_ports :: "int list"                          \<comment> \<open>the order of the loop over \<open>portPID\<close>\<close>

record port_info =
  pi_port :: int
  pi_pid :: int
  pi_process :: string
  pi_cmdline :: string

definition procComm :: "scan_env \<Rightarrow> int \<Rightarrow> string" where
  "procComm env pid = (case sc_comm env pid of None \<Rightarrow> [] | Some d \<Rightarrow> trim_space d)"

definition procCmdline :: "scan_env \<Rightarrow> int \<Rightarrow> string" where
  "procCmdline env pid =
     (case sc_cmdline env pid of
        None \<Rightarrow> []
      | Some d \<Rightarrow>
          let s = join '' '' (split_on CHR 0x00 (trim_right CHR 0x00 d))
          in if length s > 120 then take 120 s else s)"

section \<open>The scan\<close>

text \<open>One line after the header: the inode and the port of a listening socket.\<close>

definition socket_line :: "string \<Rightarrow> (u64 \<times> int) option" where
  "socket_line line =
     (let fs = Go_Text.fields line
      in if length fs < 10 then None
         else if fs ! 3 \<noteq> ''0A'' then None
         else
           (let parts = split_n2 CHR '':'' (fs ! 1)
            in if length parts \<noteq> 2 then None
               else
                 (case parse_int 16 32 (parts ! 1) of
                    None \<Rightarrow> None
                  | Some port \<Rightarrow>
                      (case parse_uint 64 (fs ! 9) of
                         (inode, err) \<Rightarrow> if err then None else Some (word_of_nat inode, port)))))"

definition add_socket :: "(u64 \<times> int) list \<Rightarrow> string \<Rightarrow> (u64 \<times> int) list" where
  "add_socket m line =
     (case socket_line line of
        None \<Rightarrow> m
      | Some (inode, port) \<Rightarrow> if map_of m inode = None then m @ [(inode, port)] else m)"

definition table_lines :: "string option \<Rightarrow> string list" where
  "table_lines f = (case f of None \<Rightarrow> [] | Some s \<Rightarrow> tl (scan_lines s))"

text \<open>The map \<open>inodePorts\<close> as an association list.\<close>

definition inodePorts :: "scan_env \<Rightarrow> (u64 \<times> int) list" where
  "inodePorts env = foldl add_socket [] (table_lines (sc_tcp env) @ table_lines (sc_tcp6 env))"

definition add_fd :: "(u64 \<rightharpoonup> int) \<Rightarrow> (u64 \<rightharpoonup> int) \<Rightarrow> string \<times> string option \<Rightarrow> (u64 \<rightharpoonup> int)" where
  "add_fd ports m = (\<lambda>(fd, target).
     (case target of
        None \<Rightarrow> m
      | Some t \<Rightarrow>
          if \<not> has_prefix t ''socket:['' then m
          else
            (case parse_uint 64 (trim_suffix (trim_prefix t ''socket:['') '']'') of
               (n, err) \<Rightarrow>
                 let inode = word_of_nat n; parts = split_on CHR ''/'' fd
                 in if err \<or> (case ports inode of None \<Rightarrow> True | Some port \<Rightarrow> port = 0) then m
                    else if length parts < 3 then m
                    else
                      (case parse_int 10 64 (parts ! 2) of
                         None \<Rightarrow> m | Some pid \<Rightarrow> m(inode \<mapsto> pid)))))"

definition inodePID :: "scan_env \<Rightarrow> (u64 \<rightharpoonup> int)" where
  "inodePID env = foldl (add_fd (map_of (inodePorts env))) Map.empty (sc_fds env)"

definition add_port :: "(u64 \<rightharpoonup> int) \<Rightarrow> (u64 \<rightharpoonup> int) \<Rightarrow> (int \<rightharpoonup> int) \<Rightarrow> u64 \<Rightarrow> (int \<rightharpoonup> int)" where
  "add_port ports pids m inode =
     (case ports inode of
        None \<Rightarrow> m
      | Some port \<Rightarrow>
          (case pids inode of
             Some pid \<Rightarrow> m(port \<mapsto> pid)
           | None \<Rightarrow> if m port = None then m(port \<mapsto> 0) else m))"

definition portPID :: "scan_env \<Rightarrow> (int \<rightharpoonup> int)" where
  "portPID env =
     foldl (add_port (map_of (inodePorts env)) (inodePID env)) Map.empty (sc_inodes env)"

definition describe_port :: "scan_env \<Rightarrow> int \<Rightarrow> int \<Rightarrow> port_info" where
  "describe_port env port pid =
     \<lparr>pi_port = port, pi_pid = pid,
      pi_process = (if pid > 0 then procComm env pid else []),
      pi_cmdline = (if pid > 0 then procCmdline env pid else [])\<rparr>"

text \<open>\<open>None\<close> is the nil slice. The ports of the result are distinct, so a sort by port has one
  outcome.\<close>

definition scanListeningPorts :: "scan_env \<Rightarrow> port_info list option" where
  "scanListeningPorts env =
     (if inodePorts env = [] then None
      else
        Some (sort_key pi_port
          (concat (map (\<lambda>port. case portPID env port of
                                 None \<Rightarrow> [] | Some pid \<Rightarrow> [describe_port env port pid])
             (sc_ports env)))))"

definition json_ports :: "port_info list option \<Rightarrow> json" where
  "json_ports r =
     (case r of
        None \<Rightarrow> JNull
      | Some ps \<Rightarrow>
          JArr (map (\<lambda>p. JObj [(''port'', json_int (pi_port p)), (''pid'', json_int (pi_pid p)),
                               (''process'', JStr (pi_process p)), (''cmdline'', JStr (pi_cmdline p))]) ps))"

lemma describe_port_simps [simp]:
  "pi_port (describe_port env port pid) = port" "pi_pid (describe_port env port pid) = pid"
  by (simp_all add: describe_port_def)

section \<open>The first map: inodes to ports\<close>

lemma add_socket_keys: "distinct (map fst m) \<Longrightarrow> distinct (map fst (add_socket m l))"
  by (auto simp: add_socket_def map_of_eq_None_iff image_iff split: option.split)

lemma inodePorts_distinct: "distinct (map fst (inodePorts env))"
proof -
  have "distinct (map fst m) \<Longrightarrow> distinct (map fst (foldl add_socket m ls))" for m ls
    by (induction ls arbitrary: m) (simp_all add: add_socket_keys)
  then show ?thesis by (simp add: inodePorts_def)
qed

lemma fold_add_socket: "map_of (foldl add_socket m ls) = map_of (m @ List.map_filter socket_line ls)"
proof (induction ls arbitrary: m)
  case (Cons l ls)
  have "map_of (add_socket m l @ xs)
      = map_of (m @ (case socket_line l of None \<Rightarrow> [] | Some s \<Rightarrow> [s]) @ xs)" for xs
    by (rule ext) (auto simp: add_socket_def map_add_def split: option.split)
  then show ?case by (simp add: Cons List.map_filter_def split: option.split)
qed (simp add: List.map_filter_def)

text \<open>The first line of a socket counts.\<close>

lemma inodePorts_first:
  "map_of (inodePorts env) =
     map_of (List.map_filter socket_line (table_lines (sc_tcp env) @ table_lines (sc_tcp6 env)))"
  by (simp only: inodePorts_def fold_add_socket append.left_neutral)

lemma inodePorts_iff: "(i, p) \<in> set (inodePorts env) \<longleftrightarrow> map_of (inodePorts env) i = Some p"
  by (simp add: inodePorts_distinct)

section \<open>The second map: ports to processes\<close>

text \<open>The processes found for a port, in the order of the visit.\<close>

definition owners :: "(u64 \<rightharpoonup> int) \<Rightarrow> (u64 \<rightharpoonup> int) \<Rightarrow> u64 list \<Rightarrow> int \<Rightarrow> int list" where
  "owners ports pids order port =
     List.map_filter (\<lambda>i. if ports i = Some port then pids i else None) order"

lemma owners_snoc:
  "owners ports pids (xs @ [i]) port =
     owners ports pids xs port
       @ (if ports i = Some port then (case pids i of None \<Rightarrow> [] | Some a \<Rightarrow> [a]) else [])"
  by (auto simp: owners_def List.map_filter_def split: option.split)

lemma set_owners:
  "set (owners ports pids xs port) = {a. \<exists>i \<in> set xs. ports i = Some port \<and> pids i = Some a}"
  by (induction xs rule: rev_induct)
    (auto simp: owners_snoc owners_def List.map_filter_def split: option.split)

text \<open>The last one visited stays.\<close>

lemma fold_add_port:
  "foldl (add_port ports pids) Map.empty xs port =
     (if owners ports pids xs port \<noteq> [] then Some (last (owners ports pids xs port))
      else if \<exists>i \<in> set xs. ports i = Some port then Some 0 else None)"
proof (induction xs rule: rev_induct)
  case (snoc i xs)
  then show ?case
    by (cases "ports i"; cases "pids i") (auto simp: owners_snoc add_port_def)
qed (simp add: owners_def List.map_filter_def)

definition valid_orders :: "scan_env \<Rightarrow> bool" where
  "valid_orders env \<longleftrightarrow>
     distinct (sc_inodes env) \<and> set (sc_inodes env) = fst ` set (inodePorts env)
     \<and> distinct (sc_ports env) \<and> set (sc_ports env) = snd ` set (inodePorts env)"

lemma visited: "valid_orders env \<Longrightarrow> i \<in> set (sc_inodes env) \<longleftrightarrow> map_of (inodePorts env) i \<noteq> None"
  by (simp add: valid_orders_def map_of_eq_None_iff)

lemma port_known:
  "valid_orders env \<Longrightarrow> port \<in> snd ` set (inodePorts env)
     \<longleftrightarrow> (\<exists>i \<in> set (sc_inodes env). map_of (inodePorts env) i = Some port)"
  by (auto simp: visited inodePorts_iff image_iff) (metis inodePorts_iff option.distinct(1) snd_conv)+

lemma portPID_owner:
  assumes "valid_orders env" "port \<in> snd ` set (inodePorts env)"
  shows "if \<exists>i a. map_of (inodePorts env) i = Some port \<and> inodePID env i = Some a
    then \<exists>i a. map_of (inodePorts env) i = Some port \<and> inodePID env i = Some a \<and> portPID env port = Some a
    else portPID env port = Some 0"
proof -
  let ?os = "owners (map_of (inodePorts env)) (inodePID env) (sc_inodes env) port"
  have "\<exists>i \<in> set (sc_inodes env). map_of (inodePorts env) i = Some port"
    using assms(2) port_known[OF assms(1)] by blast
  moreover have "last ?os \<in> set ?os" if "?os \<noteq> []" using that by (rule last_in_set)
  moreover have "?os \<noteq> [] \<longleftrightarrow> (\<exists>i a. map_of (inodePorts env) i = Some port \<and> inodePID env i = Some a)"
    using set_owners[of "map_of (inodePorts env)" "inodePID env" "sc_inodes env" port] visited[OF assms(1)]
    by (simp flip: set_empty) blast
  ultimately show ?thesis by (auto simp: portPID_def fold_add_port set_owners)
qed

section \<open>The result\<close>

lemma insort_key_map:
  "(\<And>x. f (g x) = x) \<Longrightarrow> insort_key f (g x) (map g xs) = map g (insort_key (\<lambda>x. x) x xs)"
  by (induction xs) simp_all

lemma sort_key_map: "(\<And>x. f (g x) = x) \<Longrightarrow> sort_key f (map g xs) = map g (sort xs)"
  by (induction xs) (simp_all add: insort_key_map)

lemma scan_result:
  assumes "valid_orders env" "inodePorts env \<noteq> []"
  shows "scanListeningPorts env =
    Some (map (\<lambda>port. describe_port env port (the (portPID env port)))
           (sorted_list_of_set (snd ` set (inodePorts env))))"
proof -
  let ?g = "\<lambda>port. describe_port env port (the (portPID env port))"
  have "portPID env port \<noteq> None" if "port \<in> set (sc_ports env)" for port
    using that assms(1) port_known[OF assms(1)]
    by (auto simp: valid_orders_def portPID_def fold_add_port)
  then have "map (\<lambda>port. case portPID env port of None \<Rightarrow> [] | Some pid \<Rightarrow> [describe_port env port pid])
      (sc_ports env) = map (\<lambda>port. [?g port]) (sc_ports env)"
    by (auto split: option.split)
  then have "concat (map (\<lambda>port. case portPID env port of
        None \<Rightarrow> [] | Some pid \<Rightarrow> [describe_port env port pid]) (sc_ports env)) = map ?g (sc_ports env)"
    by (simp only: concat_map_singleton)
  moreover have "pi_port (?g x) = x" for x by (simp add: describe_port_def)
  moreover have "sort (sc_ports env) = sorted_list_of_set (snd ` set (inodePorts env))"
    using assms(1) by (metis valid_orders_def sorted_list_of_set_sort_remdups distinct_remdups_id)
  ultimately show ?thesis
    using assms(2) sort_key_map[of pi_port ?g "sc_ports env"] by (simp add: scanListeningPorts_def)
qed

section \<open>A line of the kernel's table\<close>

definition hex_digit :: "nat \<Rightarrow> char" where
  "hex_digit d = ''0123456789ABCDEF'' ! d"

text \<open>The kernel prints a port with \<open>%04X\<close> and an inode in decimal.\<close>

definition hex4 :: "nat \<Rightarrow> string" where
  "hex4 n = map hex_digit [n div 4096 mod 16, n div 256 mod 16, n div 16 mod 16, n mod 16]"

lemma lt_16: "d < 16 \<longleftrightarrow> d \<in> {0, 1, 2, 3, 4, 5, 6, 7, 8, 9, 10, 11, 12, 13, 14, 15::nat}"
  by (auto simp: numeral_eq_Suc less_Suc_eq)

lemma hex_digit_val:
  assumes "d < 16"
  shows "hex_val (hex_digit d) = Some d" "plain_char (hex_digit d)"
    "hex_digit d \<noteq> CHR ''-''" "hex_digit d \<noteq> CHR ''+''"
  using assms unfolding lt_16
  by (auto simp: hex_digit_def hex_val_def is_digit_def less_eq_char_def digit_val_def plain_char_def
      space_encodings_def)

lemma hex4_sum:
  assumes "n < 65536"
  shows "16 * (16 * (16 * (n div 4096 mod 16) + n div 256 mod 16) + n div 16 mod 16) + n mod 16 = (n::nat)"
proof -
  have q: "n div 256 = n div 16 div 16" "n div 4096 = n div 256 div 16"
    by (simp_all add: div_mult2_eq [symmetric])
  have "n div 4096 < 16" using assms by (simp add: div_less_iff_less_mult)
  then have "n div 4096 mod 16 = n div 4096" by simp
  then show ?thesis using q by (metis mult_div_mod_eq)
qed

lemma nat_of_hex:
  assumes "a < 16" "b < 16" "c < 16" "d < 16"
  shows "nat_of_base 16 0 (map hex_digit [a, b, c, d]) = Some (16 * (16 * (16 * a + b) + c) + d)"
  using assms by (simp add: hex_digit_val(1))

lemma parse_hex4:
  assumes "n < 65536"
  shows "parse_int 16 32 (hex4 n) = Some (int n)"
proof -
  have m: "k mod 16 < 16" for k :: nat by simp
  have "nat_of_base 16 0 (hex4 n) = Some n"
    by (simp only: hex4_def nat_of_hex[OF m m m m] hex4_sum[OF assms])
  moreover have "\<not> has_prefix (hex4 n) ''-''" "\<not> has_prefix (hex4 n) ''+''" "hex4 n \<noteq> []"
    using hex_digit_val(3,4)[of "n div 4096 mod 16"] by (simp_all add: hex4_def has_prefix_def)
  moreover have "n < 2 ^ (32 - 1)" using assms by simp
  ultimately show ?thesis by (simp add: parse_int_def Let_def)
qed

lemma split_n2_at: "c \<notin> set a \<Longrightarrow> split_n2 c (a @ c # b) = [a, b]"
proof -
  assume "c \<notin> set a"
  then have "index_of (a @ c # b) [c] = Some (length a)" by (induction a) auto
  then show ?thesis by (simp add: split_n2_def)
qed

lemma socket_line_fields:
  assumes "Go_Text.fields line = ws" "10 \<le> length ws"
    and "ws ! 1 = a @ CHR '':'' # q" "CHR '':'' \<notin> set a"
    and "parse_int 16 32 q = Some p" "parse_uint 64 (ws ! 9) = (n, False)"
  shows "socket_line line = (if ws ! 3 = ''0A'' then Some (word_of_nat n, p) else None)"
  using assms by (simp add: socket_line_def Let_def split_n2_at)

text \<open>The words of a line: slot, local address, remote address, state, and six more.\<close>

definition table_words :: "string \<Rightarrow> string \<Rightarrow> nat \<Rightarrow> string list \<Rightarrow> string list \<Rightarrow> nat \<Rightarrow> string list \<Rightarrow> string list" where
  "table_words slot addr port state mid inode post =
     [slot, addr @ CHR '':'' # hex4 port] @ state @ mid @ [dec_of_nat inode] @ post"

definition word_ok :: "string \<Rightarrow> bool" where
  "word_ok w \<longleftrightarrow> w \<noteq> [] \<and> list_all plain_char w"

text \<open>A line of the kernel's table is read back: a listening socket gives its port and its inode,
  whatever the address, the remote end and the other columns are, and a line in any other state
  is skipped.\<close>
theorem kernel_line_read:
  assumes "port < 65536" "inode < 2 ^ 64" "length mid = 5" "CHR '':'' \<notin> set addr"
    and "list_all word_ok ([slot, addr, remote, st] @ mid @ post)"
  shows "socket_line (join '' '' (table_words slot addr port [remote, st] mid inode post)) =
    (if st = ''0A'' then Some (word_of_nat inode, int port) else None)"
proof -
  let ?ws = "table_words slot addr port [remote, st] mid inode post"
  have h: "list_all plain_char (hex4 port)" by (simp add: hex4_def hex_digit_val)
  have d: "list_all plain_char (dec_of_nat inode)" "dec_of_nat inode \<noteq> []"
    using dec_of_nat_digits digit_plain by (auto simp: list_all_iff)
  have c: "plain_char CHR '':''" by (simp add: plain_char_def space_encodings_def)
  have "list_all (\<lambda>w. list_all plain_char w \<and> w \<noteq> []) ?ws"
    using assms(5) h d c by (auto simp: table_words_def word_ok_def list_all_iff)
  then have f: "Go_Text.fields (join '' '' ?ws) = ?ws" by (rule fields_join)
  have n: "10 \<le> length ?ws" "?ws ! 1 = addr @ CHR '':'' # hex4 port" "?ws ! 3 = st"
    "?ws ! 9 = dec_of_nat inode"
    using assms(3) by (simp_all add: table_words_def nth_append)
  have u: "parse_uint 64 (?ws ! 9) = (inode, False)"
    unfolding n(4) using assms(2) by (rule parse_uint_dec_of_nat)
  show ?thesis
    using socket_line_fields[OF f n(1,2) assms(4) parse_hex4[OF assms(1)] u] unfolding n(3) .
qed

section \<open>Two orders\<close>

lemma scan_env_orders [simp]:
  "inodePorts (env\<lparr>sc_inodes := io, sc_ports := ps\<rparr>) = inodePorts env"
  "inodePID (env\<lparr>sc_inodes := io, sc_ports := ps\<rparr>) = inodePID env"
  "describe_port (env\<lparr>sc_inodes := io, sc_ports := ps\<rparr>) = describe_port env"
  by (auto simp: inodePorts_def inodePID_def describe_port_def procComm_def procCmdline_def intro!: ext)

text \<open>The visit that leaves the inodes \<open>j\<close> and \<open>i\<close> to the end.\<close>

definition visit_last :: "scan_env \<Rightarrow> u64 \<Rightarrow> u64 \<Rightarrow> scan_env" where
  "visit_last env i j =
     env\<lparr>sc_inodes := filter (\<lambda>k. k \<noteq> i \<and> k \<noteq> j) (map fst (inodePorts env)) @ [j, i],
         sc_ports := remdups (map snd (inodePorts env))\<rparr>"

lemma visit_last_valid:
  assumes "map_of (inodePorts env) i = Some p" "map_of (inodePorts env) j = Some q" "i \<noteq> j"
  shows "valid_orders (visit_last env i j)"
proof -
  have "i \<in> fst ` set (inodePorts env)" "j \<in> fst ` set (inodePorts env)"
    using assms(1,2) by (metis map_of_eq_None_iff option.distinct(1))+
  then show ?thesis
    using assms(3) inodePorts_distinct[of env] by (auto simp: valid_orders_def visit_last_def)
qed

lemma visit_last_pid:
  assumes "map_of (inodePorts env) i = Some port" "map_of (inodePorts env) j = Some port" "i \<noteq> j"
    and "inodePID env i = Some a"
  obtains ps where "scanListeningPorts (visit_last env i j) = Some ps"
    "port \<in> pi_port ` set ps" "\<forall>p \<in> set ps. pi_port p = port \<longrightarrow> pi_pid p = a"
proof -
  let ?e = "visit_last env i j"
  have ne: "inodePorts ?e \<noteq> []" using assms(1) by (auto simp: visit_last_def)
  have "portPID ?e port = Some a"
    using assms by (simp add: portPID_def visit_last_def add_port_def)
  moreover have "port \<in> snd ` set (inodePorts env)"
    using assms(1) by (metis inodePorts_iff image_eqI snd_conv)
  moreover have "inodePorts ?e = inodePorts env" by (simp add: visit_last_def)
  moreover note scan_result[OF visit_last_valid[OF assms(1-3)] ne]
  ultimately show ?thesis
    by (intro that[OF \<open>scanListeningPorts ?e = _\<close>]) (simp_all add: image_image)
qed

section \<open>Properties\<close>

text \<open>C23. The list of ports. Whatever order Go visits its maps in, the answer has every port of a
  listening socket exactly once, in increasing order; a port comes with a process that has a
  descriptor on one of its sockets, and with PID 0 and no names when no process is found.\<close>
theorem port_scan_lists:
  assumes "valid_orders env"
    and "sockets = map_of (List.map_filter socket_line
                     (table_lines (sc_tcp env) @ table_lines (sc_tcp6 env)))"
  shows "case scanListeningPorts env of
      None \<Rightarrow> ran sockets = {}
    | Some ps \<Rightarrow>
        sorted_wrt (<) (map pi_port ps) \<and> set (map pi_port ps) = ran sockets
        \<and> (\<forall>p \<in> set ps.
             if \<exists>i a. sockets i = Some (pi_port p) \<and> inodePID env i = Some a
             then \<exists>i. sockets i = Some (pi_port p) \<and> inodePID env i = Some (pi_pid p)
             else pi_pid p = 0 \<and> pi_process p = [] \<and> pi_cmdline p = [])"
proof (cases "inodePorts env = []")
  case True
  then show ?thesis
    using inodePorts_first[of env] by (simp add: scanListeningPorts_def assms(2) flip: inodePorts_first)
next
  case False
  have s: "sockets = map_of (inodePorts env)" by (simp only: assms(2) inodePorts_first)
  have r: "ran sockets = snd ` set (inodePorts env)"
    by (simp add: s ran_distinct[OF inodePorts_distinct])
  have pid: "if \<exists>i a. sockets i = Some port \<and> inodePID env i = Some a
      then \<exists>i a. sockets i = Some port \<and> inodePID env i = Some a \<and> portPID env port = Some a
      else portPID env port = Some 0" if "port \<in> ran sockets" for port
    using portPID_owner[OF assms(1), of port] that[unfolded r] unfolding s .
  have "if \<exists>i a. sockets i = Some (pi_port p) \<and> inodePID env i = Some a
      then \<exists>i. sockets i = Some (pi_port p) \<and> inodePID env i = Some (pi_pid p)
      else pi_pid p = 0 \<and> pi_process p = [] \<and> pi_cmdline p = []"
    if "port \<in> ran sockets" "p = describe_port env port (the (portPID env port))" for p port
  proof (cases "\<exists>i a. sockets i = Some port \<and> inodePID env i = Some a")
    case True
    with pid[OF that(1)] obtain i a where
      "sockets i = Some port" "inodePID env i = Some a" "portPID env port = Some a" by auto
    then show ?thesis unfolding that(2) by (auto simp: describe_port_def)
  next
    case False
    with pid[OF that(1)] have "portPID env port = Some 0" by simp
    with False show ?thesis unfolding that(2) by (auto simp: describe_port_def)
  qed
  then have "\<forall>p \<in> (\<lambda>port. describe_port env port (the (portPID env port))) ` ran sockets.
      if \<exists>i a. sockets i = Some (pi_port p) \<and> inodePID env i = Some a
      then \<exists>i. sockets i = Some (pi_port p) \<and> inodePID env i = Some (pi_pid p)
      else pi_pid p = 0 \<and> pi_process p = [] \<and> pi_cmdline p = []" by blast
  moreover have "map pi_port (map (\<lambda>port. describe_port env port (the (portPID env port))) xs) = xs" for xs
    by (simp add: describe_port_def comp_def)
  moreover have "finite (ran sockets)" by (simp add: r)
  ultimately show ?thesis
    by (simp only: scan_result[OF assms(1) False] option.case flip: r)
      (simp only: set_map set_sorted_list_of_set strict_sorted_list_of_set simp_thms)
qed

text \<open>With sockets of two processes on one port, the order in which the sockets are visited decides.\<close>

lemma order_matters:
  assumes "map_of (inodePorts env) i = Some port" "map_of (inodePorts env) j = Some port"
    and "inodePID env i = Some a" "inodePID env j = Some b" "a \<noteq> b"
    and r: "\<And>k l. valid_orders (visit_last env k l) \<Longrightarrow> scanListeningPorts (visit_last env k l) = r"
  shows False
proof -
  have n: "i \<noteq> j" "j \<noteq> i" using assms(3-5) by auto
  obtain ps where ps: "r = Some ps" "port \<in> pi_port ` set ps" "\<forall>p \<in> set ps. pi_port p = port \<longrightarrow> pi_pid p = a"
    using visit_last_pid[OF assms(1,2) n(1) assms(3)] r[OF visit_last_valid[OF assms(1,2) n(1)]] by metis
  obtain qs where "r = Some qs" "\<forall>p \<in> set qs. pi_port p = port \<longrightarrow> pi_pid p = b"
    using visit_last_pid[OF assms(2,1) n(2) assms(4)] r[OF visit_last_valid[OF assms(2,1) n(2)]] by metis
  with ps assms(5) show False by auto
qed

text \<open>Otherwise a port has one owner, and the answer is made of the ports and their owners.\<close>

lemma order_irrelevant:
  assumes "\<forall>i j port a b. map_of (inodePorts env) i = Some port \<and> map_of (inodePorts env) j = Some port
        \<and> inodePID env i = Some a \<and> inodePID env j = Some b \<longrightarrow> a = b"
  shows "\<exists>r. \<forall>io ps. valid_orders (env\<lparr>sc_inodes := io, sc_ports := ps\<rparr>) \<longrightarrow>
      scanListeningPorts (env\<lparr>sc_inodes := io, sc_ports := ps\<rparr>) = r"
proof -
  define owner where "owner port = (if \<exists>i a. map_of (inodePorts env) i = Some port \<and> inodePID env i = Some a
    then SOME a. \<exists>i. map_of (inodePorts env) i = Some port \<and> inodePID env i = Some a else 0)" for port
  define r where "r = (if inodePorts env = [] then None
    else Some (map (\<lambda>port. describe_port env port (owner port))
                (sorted_list_of_set (snd ` set (inodePorts env)))))"
  have "scanListeningPorts (env\<lparr>sc_inodes := io, sc_ports := ps\<rparr>) = r"
    if v: "valid_orders (env\<lparr>sc_inodes := io, sc_ports := ps\<rparr>)" for io ps
  proof (cases "inodePorts env = []")
    case False
    let ?e = "env\<lparr>sc_inodes := io, sc_ports := ps\<rparr>"
    have "the (portPID ?e port) = owner port" if "port \<in> snd ` set (inodePorts env)" for port
    proof (cases "\<exists>i a. map_of (inodePorts env) i = Some port \<and> inodePID env i = Some a")
      case True
      then have "\<exists>i. map_of (inodePorts env) i = Some port \<and> inodePID env i = Some (owner port)"
        unfolding owner_def by (simp only: if_True) (rule someI_ex, blast)
      then show ?thesis
        using True portPID_owner[OF v, of port] that assms by (auto split: if_splits)
    next
      case False
      then show ?thesis using portPID_owner[OF v, of port] that unfolding owner_def by auto
    qed
    then show ?thesis using False scan_result[OF v] by (simp add: r_def)
  qed (simp add: scanListeningPorts_def r_def)
  then show ?thesis by blast
qed

text \<open>C37. When the answer is determined. The scan gives one answer whatever the order of Go's maps
  exactly when no port has sockets of two processes; otherwise two orders name different
  processes for it.\<close>
theorem port_scan_order:
  "(\<exists>r. \<forall>io ps. valid_orders (env\<lparr>sc_inodes := io, sc_ports := ps\<rparr>) \<longrightarrow>
      scanListeningPorts (env\<lparr>sc_inodes := io, sc_ports := ps\<rparr>) = r)
   \<longleftrightarrow> (\<forall>i j port a b. map_of (inodePorts env) i = Some port \<and> map_of (inodePorts env) j = Some port
        \<and> inodePID env i = Some a \<and> inodePID env j = Some b \<longrightarrow> a = b)"
  (is "?one \<longleftrightarrow> ?unique")
proof
  assume ?one
  then obtain r where "valid_orders (visit_last env k l) \<Longrightarrow> scanListeningPorts (visit_last env k l) = r" for k l
    unfolding visit_last_def by blast
  then show ?unique using order_matters[of env _ _ _ _ _ r] by blast
next
  assume ?unique
  then show ?one by (rule order_irrelevant)
qed

text \<open>The command line shown for a process: its arguments joined by blanks and cut after 120
  bytes, when the last of them is not empty; empty arguments at the end are not shown.\<close>
theorem cmdline_shown:
  assumes "sc_cmdline env pid = Some (concat (map (\<lambda>a. a @ [CHR 0x00]) (args @ replicate k [])))"
    and "\<forall>a \<in> set args. CHR 0x00 \<notin> set a" "args \<noteq> []" "last args \<noteq> []"
  shows "procCmdline env pid = take 120 (join '' '' args)"
proof -
  have t: "trim_right c (w @ replicate n c) = w" if "w \<noteq> []" "last w \<noteq> c" for c w n
  proof -
    have "dropWhile (\<lambda>x. x = c) (replicate n c @ rev w) = rev w"
      using that by (induction n) (simp_all add: dropWhile_eq_self_iff hd_rev)
    then show ?thesis by (simp add: trim_right_def)
  qed
  have j: "concat (map (\<lambda>a. a @ [c]) as) = join [c] as @ [c]" if "as \<noteq> []" for c :: char and as
    using that by (induction "[c]" as rule: join.induct) simp_all
  have l: "join [c] as \<noteq> [] \<and> last (join [c] as) = last (last as)" if "as \<noteq> []" "last as \<noteq> []" for c as
    using that by (induction "[c]" as rule: join.induct) auto
  have "concat (map (\<lambda>a. a @ [CHR 0x00]) (args @ replicate k []))
      = join [CHR 0x00] args @ replicate (Suc k) CHR 0x00"
    using j[OF assms(3), of "CHR 0x00"] by (simp add: map_replicate_const concat_replicate_trivial)
  moreover have "last (last args) \<noteq> CHR 0x00" using assms(2-4) last_in_set by metis
  ultimately have "trim_right CHR 0x00 (concat (map (\<lambda>a. a @ [CHR 0x00]) (args @ replicate k [])))
      = join [CHR 0x00] args"
    using l[OF assms(3,4), of "CHR 0x00"] t by metis
  then show ?thesis
    using assms(1-3) by (simp add: procCmdline_def Let_def split_on_join)
qed

section \<open>Witnesses\<close>

theorem kernel_line_read_witness:
  "socket_line (join '' '' (table_words ''0:'' ''0100007F'' 8080 [''0:0'', ''0A''] [''a'', ''b'', ''c'', ''d'', ''e''] 77 [''1'']))
     = Some (77, 8080)"
proof -
  have "list_all word_ok ([''0:'', ''0100007F'', ''0:0'', ''0A''] @ [''a'', ''b'', ''c'', ''d'', ''e''] @ [''1''])"
    by (simp add: word_ok_def plain_char_def space_encodings_def)
  from kernel_line_read[OF _ _ _ _ this, of 8080 77] show ?thesis by simp
qed

text \<open>Port 80 with sockets of the processes 11 and 12.\<close>

definition demo_line :: "nat \<Rightarrow> string" where
  "demo_line n = join '' '' [''0:'', ''0:0050'', ''0:0'', ''0A'', ''a'', ''b'', ''c'', ''d'', ''e'', dec_of_nat n]"

definition two_owners :: scan_env where
  "two_owners =
     \<lparr>sc_tcp = Some (concat (map (\<lambda>l. l @ [CHR 0x0A]) [''sl'', demo_line 1, demo_line 2])),
      sc_tcp6 = None,
      sc_fds = [(''/proc/11/fd/3'', Some ''socket:[1]''), (''/proc/12/fd/3'', Some ''socket:[2]''),
                (''/proc/12/fd/4'', Some ''pipe:[9]''), (''/proc/13/fd/0'', None)],
      sc_comm = (\<lambda>_. Some [CHR ''x'', CHR 0x0A]), sc_cmdline = (\<lambda>_. None),
      sc_inodes = [2, 1], sc_ports = [80]\<rparr>"

lemma demo_line_chars:
  "n < 10 \<Longrightarrow> CHR 0x0A \<notin> set (demo_line n) \<and> CHR 0x0D \<notin> set (demo_line n) \<and> length (demo_line n) < 65536"
proof -
  assume n: "n < 10"
  then have d: "dec_of_nat n = [digit_char n]" by (subst dec_of_nat.simps) simp
  have "is_digit (digit_char n)" using n by (simp add: digit_char_range)
  then have "digit_char n \<noteq> CHR 0x0A" "digit_char n \<noteq> CHR 0x0D"
    by (auto simp: is_digit_def less_eq_char_def)
  then show ?thesis by (simp add: demo_line_def d)
qed

lemma demo_line_socket:
  assumes "n < 10"
  shows "socket_line (demo_line n) = Some (word_of_nat n, 80)"
proof -
  let ?ws = "[''0:'', ''0:0050'', ''0:0'', ''0A'', ''a'', ''b'', ''c'', ''d'', ''e'', dec_of_nat n]"
  have "list_all (\<lambda>w. list_all plain_char w \<and> w \<noteq> []) ?ws"
    using dec_of_nat_digits[of n] digit_plain
    by (simp add: list_all_iff plain_char_def space_encodings_def)
  then have f: "Go_Text.fields (demo_line n) = ?ws" unfolding demo_line_def by (rule fields_join)
  have p: "parse_int 16 32 ''0050'' = Some 80"
    by (simp add: parse_int_def has_prefix_def hex_val_def is_digit_def less_eq_char_def digit_val_def)
  have u: "parse_uint 64 (?ws ! 9) = (n, False)"
    using parse_uint_dec_of_nat[of n 64] assms by simp
  show ?thesis
    using socket_line_fields[OF f _ _ _ p u, of "''0''"] by simp
qed

lemma two_owners_sockets: "inodePorts two_owners = [(1, 80), (2, 80)]"
proof -
  have "scan_lines (concat (map (\<lambda>l. l @ [CHR 0x0A]) [''sl'', demo_line 1, demo_line 2]))
      = [''sl'', demo_line 1, demo_line 2]"
    using demo_line_chars by (intro scan_lines_written) simp
  then have "table_lines (sc_tcp two_owners) = [demo_line 1, demo_line 2]"
    "table_lines (sc_tcp6 two_owners) = []"
    by (simp_all only: two_owners_def scan_env.simps table_lines_def option.case list.sel)
  then show ?thesis
    by (simp add: inodePorts_def add_socket_def demo_line_socket)
qed

lemma parse_uint_small:
  "parse_uint 64 ''1'' = (1, False)" "parse_uint 64 ''2'' = (2, False)"
  by (simp_all add: parse_uint_def is_digit_def less_eq_char_def digit_val_def)

lemma two_owners_pids: "inodePID two_owners = [1 \<mapsto> 11, 2 \<mapsto> 12]"
proof -
  have t: "trim_suffix (trim_prefix ''socket:[1]'' ''socket:['') '']'' = ''1''"
    "trim_suffix (trim_prefix ''socket:[2]'' ''socket:['') '']'' = ''2''"
    "has_prefix ''socket:[1]'' ''socket:[''" "has_prefix ''socket:[2]'' ''socket:[''"
    "\<not> has_prefix ''pipe:[9]'' ''socket:[''"
    by (simp_all add: trim_suffix_def trim_prefix_def has_prefix_def has_suffix_def)
  have s: "split_on CHR ''/'' ''/proc/11/fd/3'' = [[], ''proc'', ''11'', ''fd'', ''3'']"
    "split_on CHR ''/'' ''/proc/12/fd/3'' = [[], ''proc'', ''12'', ''fd'', ''3'']" by code_simp+
  have p: "parse_int 10 64 ''11'' = Some 11" "parse_int 10 64 ''12'' = Some 12"
    by (simp_all add: parse_int_def has_prefix_def hex_val_def is_digit_def less_eq_char_def digit_val_def)
  have f: "sc_fds two_owners = [(''/proc/11/fd/3'', Some ''socket:[1]''), (''/proc/12/fd/3'', Some ''socket:[2]''),
      (''/proc/12/fd/4'', Some ''pipe:[9]''), (''/proc/13/fd/0'', None)]"
    by (simp only: two_owners_def scan_env.simps)
  show ?thesis
    unfolding inodePID_def f
    by (simp add: two_owners_sockets add_fd_def t s p parse_uint_small Let_def)
qed

lemma two_owners_valid: "valid_orders two_owners"
  unfolding valid_orders_def two_owners_sockets by (simp add: two_owners_def insert_commute)

theorem port_scan_lists_witness:
  "\<exists>ps. scanListeningPorts two_owners = Some ps \<and> set (map pi_port ps) = {80}
    \<and> (\<forall>p \<in> set ps. pi_pid p \<in> {11, 12})"
proof -
  have r: "ran (map_of [(1::u64, 80::int), (2, 80)]) = {80}" by (auto simp: ran_def split: if_splits)
  note l = port_scan_lists[OF two_owners_valid refl, folded inodePorts_first,
      unfolded two_owners_sockets two_owners_pids]
  show ?thesis
  proof (cases "scanListeningPorts two_owners")
    case None
    with l r show ?thesis by simp
  next
    case (Some ps)
    have p: "set (map pi_port ps) = {80}" using l r Some by simp
    have "pi_pid p \<in> {11, 12}" if "p \<in> set ps" for p
    proof -
      have "pi_port p = 80" using p that by auto
      with l Some that have "\<exists>i. map_of [(1::u64, 80::int), (2, 80)] i = Some 80
          \<and> [1 \<mapsto> 11, 2 \<mapsto> (12::int)] i = Some (pi_pid p)"
        by (auto split: if_splits)
      then show ?thesis by (auto split: if_splits)
    qed
    with Some p show ?thesis by blast
  qed
qed

theorem port_scan_order_witness:
  "\<not> (\<exists>r. \<forall>io ps. valid_orders (two_owners\<lparr>sc_inodes := io, sc_ports := ps\<rparr>) \<longrightarrow>
       scanListeningPorts (two_owners\<lparr>sc_inodes := io, sc_ports := ps\<rparr>) = r)"
proof
  assume "\<exists>r. \<forall>io ps. valid_orders (two_owners\<lparr>sc_inodes := io, sc_ports := ps\<rparr>) \<longrightarrow>
       scanListeningPorts (two_owners\<lparr>sc_inodes := io, sc_ports := ps\<rparr>) = r"
  from this[unfolded port_scan_order two_owners_sockets two_owners_pids, rule_format, of 1 80 2 11 12]
  show False by simp
qed

theorem cmdline_shown_witness:
  "procCmdline (two_owners\<lparr>sc_cmdline := (\<lambda>_. Some (concat (map (\<lambda>a. a @ [CHR 0x00]) [''ls'', '''', ''-l'', ''''])))\<rparr>) 1
     = ''ls  -l''"
  using cmdline_shown[of "two_owners\<lparr>sc_cmdline := (\<lambda>_. Some (concat (map (\<lambda>a. a @ [CHR 0x00]) [''ls'', '''', ''-l'', ''''])))\<rparr>"
      1 "[''ls'', '''', ''-l'']" 1] by simp

end
