(* ===== verification/Control_Plane.thy ===== *)
theory Control_Plane
  imports Pty_Session Port_Proxy File_Ops Stats_Collector Port_Scan
begin

text \<open>
  The WebSocket half of \<open>internal/server/server.go\<close>: the per-user session registry, the
  control handler on channel 0 and the life of a connection from the upgrade to its teardown.
  All objects live in one world: hubs, terminal sessions and proxies are named by numbers, and a
  pointer in the code is such a number here, so that an object reached from two connections is
  one object. What the operating system answers during one event is the event's argument.
\<close>

section \<open>The world\<close>

text \<open>A channel handler: the control handler of the hub it is registered in, or an object.\<close>

datatype handler = HCtrl | HPty nat | HProxy nat

record user_session =
  us_ptys :: "u16 \<rightharpoonup> nat"
  us_proxies :: "u16 \<rightharpoonup> nat"

text \<open>Where the goroutine of a connection is: in \<open>Run\<close>, or in the statements after it.\<close>

datatype conn_phase = ConnRunning | ConnDetachPtys | ConnDetachProxies | ConnRemoveStats

record connection =
  cn_user :: string
  cn_statsID :: u64
  cn_phase :: conn_phase

record world =
  w_hubs :: "nat \<Rightarrow> handler hub"
  w_ptys :: "nat \<Rightarrow> nat session option"
  w_proxies :: "nat \<Rightarrow> nat proxy option"
  w_users :: "string \<rightharpoonup> user_session"
  w_conns :: "nat \<rightharpoonup> connection"          \<comment> \<open>the connections whose handler has not returned\<close>
  w_stats :: "nat collector"
  w_fs :: fs
  w_downloads :: "(nat \<times> u16 \<times> string \<times> string) list"   \<comment> \<open>download goroutines started\<close>
  w_hubOwner :: "nat \<rightharpoonup> string"             \<comment> \<open>history: whose connection a hub was made for\<close>
  w_proxyOwner :: "nat \<rightharpoonup> string"           \<comment> \<open>history: who opened a proxy\<close>
  w_next :: nat                                  \<comment> \<open>the next unused number\<close>

text \<open>What the system answers during one event, and the texts of errors.\<close>

record ctl_env =
  ce_os :: pty_os
  ce_dial :: "string option"
  ce_io_ok :: bool
  ce_proc :: proc_env
  ce_scan :: scan_env
  ce_meta :: "string \<Rightarrow> string \<Rightarrow> int \<times> string"
  ce_faults :: save_faults
  ce_random :: string
  ce_fuel :: nat
  ce_float_text :: "rat \<Rightarrow> string"
  ce_pty_text :: "pty_err \<Rightarrow> string"
  ce_proxy_text :: "proxy_err \<Rightarrow> string"
  ce_file_text :: "file_err \<Rightarrow> string"
  ce_pty_order :: "u16 list"
  ce_proxy_order :: "u16 list"

definition newUserSession :: user_session where
  "newUserSession = \<lparr>us_ptys = Map.empty, us_proxies = Map.empty\<rparr>"

definition session_of :: "world \<Rightarrow> string \<Rightarrow> user_session" where
  "session_of w u = (case w_users w u of None \<Rightarrow> newUserSession | Some us \<Rightarrow> us)"

definition upd_user :: "string \<Rightarrow> (user_session \<Rightarrow> user_session) \<Rightarrow> world \<Rightarrow> world" where
  "upd_user u g w = w\<lparr>w_users := (w_users w)(u \<mapsto> g (session_of w u))\<rparr>"

definition upd_hub :: "nat \<Rightarrow> (handler hub \<Rightarrow> handler hub) \<Rightarrow> world \<Rightarrow> world" where
  "upd_hub i g w = w\<lparr>w_hubs := (w_hubs w)(i := g (w_hubs w i))\<rparr>"

definition upd_pty :: "nat \<Rightarrow> (nat session \<Rightarrow> nat session) \<Rightarrow> world \<Rightarrow> world" where
  "upd_pty p g w =
     (case w_ptys w p of None \<Rightarrow> w | Some s \<Rightarrow> w\<lparr>w_ptys := (w_ptys w)(p := Some (g s))\<rparr>)"

definition upd_proxy :: "nat \<Rightarrow> (nat proxy \<Rightarrow> nat proxy) \<Rightarrow> world \<Rightarrow> world" where
  "upd_proxy q g w =
     (case w_proxies w q of
        None \<Rightarrow> w | Some ps \<Rightarrow> w\<lparr>w_proxies := (w_proxies w)(q := Some (g ps))\<rparr>)"

text \<open>Calls that also send: the object together with the hubs.\<close>

definition run_pty ::
  "nat \<Rightarrow> (nat session \<times> (nat \<Rightarrow> handler hub) \<Rightarrow> nat session \<times> (nat \<Rightarrow> handler hub)) \<Rightarrow> world \<Rightarrow> world"
where
  "run_pty p g w =
     (case w_ptys w p of
        None \<Rightarrow> w
      | Some s \<Rightarrow>
          (case g (s, w_hubs w) of
             (s', hs) \<Rightarrow> w\<lparr>w_ptys := (w_ptys w)(p := Some s'), w_hubs := hs\<rparr>))"

definition run_proxy ::
  "nat \<Rightarrow> (nat proxy \<times> (nat \<Rightarrow> handler hub) \<Rightarrow> nat proxy \<times> (nat \<Rightarrow> handler hub)) \<Rightarrow> world \<Rightarrow> world"
where
  "run_proxy q g w =
     (case w_proxies w q of
        None \<Rightarrow> w
      | Some ps \<Rightarrow>
          (case g (ps, w_hubs w) of
             (ps', hs) \<Rightarrow> w\<lparr>w_proxies := (w_proxies w)(q := Some ps'), w_hubs := hs\<rparr>))"

datatype ctrl_err = BadMessage | ReservedChannel | MissingTarget | SendError | FileError handler_err

definition send_to :: "nat \<Rightarrow> frame \<Rightarrow> world \<Rightarrow> world \<times> ctrl_err option" where
  "send_to i f w =
     (case store_send i f (w_hubs w) of
        (hs, err) \<Rightarrow> (w\<lparr>w_hubs := hs\<rparr>, if err then Some SendError else None))"

section \<open>The user's registry\<close>

definition addPTY :: "string \<Rightarrow> u16 \<Rightarrow> nat \<Rightarrow> world \<Rightarrow> world" where
  "addPTY u c p w = upd_user u (\<lambda>us. us\<lparr>us_ptys := (us_ptys us)(c \<mapsto> p)\<rparr>) w"

definition removePTY :: "string \<Rightarrow> u16 \<Rightarrow> world \<Rightarrow> world" where
  "removePTY u c w =
     (case us_ptys (session_of w u) c of
        None \<Rightarrow> w
      | Some p \<Rightarrow>
          upd_pty p session_close
            (upd_user u (\<lambda>us. us\<lparr>us_ptys := (us_ptys us)(c := None)\<rparr>) w))"

definition addProxy :: "string \<Rightarrow> u16 \<Rightarrow> nat \<Rightarrow> world \<Rightarrow> world" where
  "addProxy u c q w = upd_user u (\<lambda>us. us\<lparr>us_proxies := (us_proxies us)(c \<mapsto> q)\<rparr>) w"

definition removeProxy :: "string \<Rightarrow> u16 \<Rightarrow> world \<Rightarrow> world" where
  "removeProxy u c w =
     (case us_proxies (session_of w u) c of
        None \<Rightarrow> w
      | Some q \<Rightarrow>
          upd_proxy q proxy_close
            (upd_user u (\<lambda>us. us\<lparr>us_proxies := (us_proxies us)(c := None)\<rparr>) w))"

text \<open>The loops over a map visit its keys in an order Go does not fix; \<open>order\<close> lists them.\<close>

definition registerHandlers :: "u16 list \<Rightarrow> string \<Rightarrow> nat \<Rightarrow> world \<Rightarrow> world" where
  "registerHandlers order u i w =
     fold (\<lambda>c w.
       case us_ptys (session_of w u) c of
         None \<Rightarrow> w
       | Some p \<Rightarrow>
           (case w_ptys w p of
              None \<Rightarrow> w | Some s \<Rightarrow> upd_hub i (hub_register (ss_chan s) (HPty p)) w)) order w"

definition registerProxyHandlers :: "u16 list \<Rightarrow> string \<Rightarrow> nat \<Rightarrow> world \<Rightarrow> world" where
  "registerProxyHandlers order u i w =
     fold (\<lambda>c w.
       case us_proxies (session_of w u) c of
         None \<Rightarrow> w
       | Some q \<Rightarrow>
           (case w_proxies w q of
              None \<Rightarrow> w
            | Some ps \<Rightarrow>
                upd_hub i (hub_register (px_chan ps) (HProxy q)) (upd_proxy q (proxy_attach i) w)))
       order w"

text \<open>\<open>detachHub\<close> and \<open>detachProxies\<close>: every object of the user, whichever hub it is attached to.\<close>

definition detachHub :: "u16 list \<Rightarrow> string \<Rightarrow> world \<Rightarrow> world" where
  "detachHub order u w =
     fold (\<lambda>c w. case us_ptys (session_of w u) c of
                   None \<Rightarrow> w | Some p \<Rightarrow> upd_pty p session_detach w) order w"

definition detachProxies :: "u16 list \<Rightarrow> string \<Rightarrow> world \<Rightarrow> world" where
  "detachProxies order u w =
     fold (\<lambda>c w. case us_proxies (session_of w u) c of
                   None \<Rightarrow> w | Some q \<Rightarrow> upd_proxy q proxy_detach w) order w"

definition ptyInfoList :: "u16 list \<Rightarrow> string \<Rightarrow> world \<Rightarrow> json list" where
  "ptyInfoList order u w =
     map (\<lambda>c. JObj [(''chanID'', json_nat (unat c)), (''username'', JStr u)])
       (filter (\<lambda>c. us_ptys (session_of w u) c \<noteq> None) order)"

definition proxyInfoList :: "u16 list \<Rightarrow> string \<Rightarrow> world \<Rightarrow> json list" where
  "proxyInfoList order u w =
     concat (map (\<lambda>c.
       case us_proxies (session_of w u) c of
         None \<Rightarrow> []
       | Some q \<Rightarrow>
           (case w_proxies w q of
              None \<Rightarrow> []
            | Some ps \<Rightarrow> [JObj [(''chanID'', json_nat (unat (px_chan ps))),
                               (''target'', JStr (px_target ps))]])) order)"

section \<open>Terminals\<close>

record open_msg =
  om_channel :: u16
  om_shell :: string
  om_cwd :: string
  om_cols :: u16
  om_rows :: u16

definition unmarshal_OpenMsg :: "bytes \<Rightarrow> open_msg option" where
  "unmarshal_OpenMsg p =
     Option.bind (unmarshal_fields p) (\<lambda>fs.
     Option.bind (u16_field ''channel'' fs) (\<lambda>ch.
     Option.bind (string_field ''shell'' fs) (\<lambda>shell.
     Option.bind (string_field ''cwd'' fs) (\<lambda>cwd.
     Option.bind (u16_field ''cols'' fs) (\<lambda>cols.
     Option.bind (u16_field ''rows'' fs) (\<lambda>rows.
       Some \<lparr>om_channel = ch, om_shell = shell, om_cwd = cwd, om_cols = cols, om_rows = rows\<rparr>))))))"

definition unmarshal_channel :: "bytes \<Rightarrow> u16 option" where
  "unmarshal_channel p = Option.bind (unmarshal_fields p) (u16_field ''channel'')"

text \<open>\<open>i\<close> is the handler's hub \<open>c.h\<close> and \<open>u\<close> its user. Here OpenPTY is one event, without another
  handler between its lookup and \<open>addPTY\<close>; \<open>Open_Race\<close> has it lock by lock.\<close>

definition handleOpenPTY ::
  "ctl_env \<Rightarrow> nat \<Rightarrow> string \<Rightarrow> frame \<Rightarrow> world \<Rightarrow> world \<times> ctrl_err option" where
  "handleOpenPTY env i u f w =
     (case unmarshal_OpenMsg (f_payload f) of
        None \<Rightarrow> (w, Some BadMessage)
      | Some msg \<Rightarrow>
          let ch = om_channel msg;
              resize = (\<lambda>s. if om_cols msg > 0 \<and> om_rows msg > 0
                            then session_resize (om_cols msg) (om_rows msg) s else s)
          in if ch = 0 then (w, Some ReservedChannel)
             else
               (case us_ptys (session_of w u) ch of
                  Some p \<Rightarrow>
                    let w1 = upd_hub i (hub_register ch (HPty p)) w;
                        w2 = run_pty p (session_attach store_send i) w1
                    in (upd_pty p resize w2, None)
                | None \<Rightarrow>
                    (case session_new (ce_os env) ch u (om_shell msg) (om_cwd msg) of
                       Inl e \<Rightarrow>
                         send_to i \<lparr>f_type = FrameData, f_chan = ch,
                           f_payload = bytes_of_string (''error: '' @ ce_pty_text env e
                             @ [CHR 0x0D, CHR 0x0A])\<rparr> w
                     | Inr s \<Rightarrow>
                         let p = w_next w;
                             w1 = w\<lparr>w_ptys := (w_ptys w)(p := Some (resize s)), w_next := p + 1\<rparr>;
                             w2 = addPTY u ch p w1;
                             w3 = upd_hub i (hub_register ch (HPty p)) w2
                         in (run_pty p (session_attach store_send i) w3, None))))"

text \<open>\<open>Unregister\<close> and the handler's \<open>Close\<close> after it.\<close>

definition unregister :: "nat \<Rightarrow> u16 \<Rightarrow> world \<Rightarrow> world" where
  "unregister i c w =
     (case hub_unregister c (w_hubs w i) of
        (h, old) \<Rightarrow>
          let w1 = w\<lparr>w_hubs := (w_hubs w)(i := h)\<rparr>
          in case old of
               Some (HPty p) \<Rightarrow> upd_pty p session_close w1
             | Some (HProxy q) \<Rightarrow> upd_proxy q proxy_close w1
             | _ \<Rightarrow> w1)"

definition handleClosePTY ::
  "nat \<Rightarrow> string \<Rightarrow> frame \<Rightarrow> world \<Rightarrow> world \<times> ctrl_err option" where
  "handleClosePTY i u f w =
     (case unmarshal_channel (f_payload f) of
        None \<Rightarrow> (w, Some BadMessage)
      | Some ch \<Rightarrow> (removePTY u ch (unregister i ch w), None))"

section \<open>Proxies\<close>

definition unmarshal_open_proxy :: "bytes \<Rightarrow> (u16 \<times> string) option" where
  "unmarshal_open_proxy p =
     Option.bind (unmarshal_fields p) (\<lambda>fs.
     Option.bind (u16_field ''channel'' fs) (\<lambda>ch.
     Option.bind (string_field ''target'' fs) (\<lambda>target. Some (ch, target))))"

definition handleOpenProxy ::
  "ctl_env \<Rightarrow> nat \<Rightarrow> string \<Rightarrow> frame \<Rightarrow> world \<Rightarrow> world \<times> ctrl_err option" where
  "handleOpenProxy env i u f w =
     (case unmarshal_open_proxy (f_payload f) of
        None \<Rightarrow> (w, Some BadMessage)
      | Some (ch, target) \<Rightarrow>
          if ch = 0 then (w, Some ReservedChannel)
          else if target = [] then (w, Some MissingTarget)
          else
            (case Option.bind (us_proxies (session_of w u) ch)
                    (\<lambda>q. case w_proxies w q of
                           Some ps \<Rightarrow> if px_closed ps then None else Some q
                         | None \<Rightarrow> None) of
               Some q \<Rightarrow>
                 (upd_hub i (hub_register ch (HProxy q)) (upd_proxy q (proxy_attach i) w), None)
             | None \<Rightarrow>
                 (case newPortProxySession (ce_dial env) ch target i of
                    Inl e \<Rightarrow>
                      send_to i \<lparr>f_type = FrameCloseProxy, f_chan = ch,
                        f_payload = marshal (JObj [(''channel'', json_nat (unat ch)),
                                                   (''error'', JStr (ce_proxy_text env e))])\<rparr> w
                  | Inr ps \<Rightarrow>
                      let q = w_next w;
                          w1 = w\<lparr>w_proxies := (w_proxies w)(q := Some ps), w_next := q + 1,
                                 w_proxyOwner := (w_proxyOwner w)(q \<mapsto> u)\<rparr>;
                          w2 = addProxy u ch q w1
                      in (upd_hub i (hub_register ch (HProxy q)) w2, None))))"

definition handleCloseProxy ::
  "nat \<Rightarrow> string \<Rightarrow> frame \<Rightarrow> world \<Rightarrow> world \<times> ctrl_err option" where
  "handleCloseProxy i u f w =
     (case unmarshal_channel (f_payload f) of
        None \<Rightarrow> (w, Some BadMessage)
      | Some ch \<Rightarrow> (removeProxy u ch (unregister i ch w), None))"

definition handlePortScan :: "ctl_env \<Rightarrow> nat \<Rightarrow> frame \<Rightarrow> world \<Rightarrow> world \<times> ctrl_err option" where
  "handlePortScan env i f w =
     send_to i \<lparr>f_type = FramePortScanResp, f_chan = f_chan f,
                f_payload = marshal (JObj [(''ports'', json_ports (scanListeningPorts (ce_scan env)))])\<rparr> w"

section \<open>Dispatch\<close>

text \<open>\<open>controlHandler.HandleFrame\<close>. \<open>None\<close>: the handler has not returned within the fuel, which
  only the recursive copy needs.\<close>

definition ctrl_handle_frame ::
  "ctl_env \<Rightarrow> nat \<Rightarrow> string \<Rightarrow> frame \<Rightarrow> world \<Rightarrow> (world \<times> ctrl_err option) option" where
  "ctrl_handle_frame env i u f w =
     (if f_type f = FrameOpenPTY then Some (handleOpenPTY env i u f w)
      else if f_type f = FrameClosePTY then Some (handleClosePTY i u f w)
      else if f_type f = FramePing then
        Some (send_to i \<lparr>f_type = FramePong, f_chan = 0, f_payload = f_payload f\<rparr> w)
      else if f_type f = FrameFileList then
        (case handleFileList (ce_meta env) (ce_file_text env) store_send i (w_fs w) f (w_hubs w) of
           (hs, err) \<Rightarrow> Some (w\<lparr>w_hubs := hs\<rparr>, if err then Some SendError else None))
      else if f_type f = FrameFileDownloadReq then
        (case handleFileDownloadReq f of
           None \<Rightarrow> Some (w, Some BadMessage)
         | Some (c, did, path) \<Rightarrow>
             Some (w\<lparr>w_downloads := (i, c, did, path) # w_downloads w\<rparr>, None))
      else if f_type f = FrameFileUpload then
        (case handleFileUpload store_send i f (w_fs w, w_hubs w) of
           ((s, hs), e) \<Rightarrow> Some (w\<lparr>w_fs := s, w_hubs := hs\<rparr>, map_option FileError e))
      else if f_type f = FrameFileOp then
        map_option (\<lambda>(s, e). (w\<lparr>w_fs := s\<rparr>, map_option FileError e))
          (handleFileOp (ce_fuel env) f (w_fs w))
      else if f_type f = FrameDesktopSave then
        Some (w\<lparr>w_fs := handleDesktopSave (ce_faults env) (ce_random env) u f (w_fs w)\<rparr>, None)
      else if f_type f = FrameOpenProxy then Some (handleOpenProxy env i u f w)
      else if f_type f = FrameCloseProxy then Some (handleCloseProxy i u f w)
      else if f_type f = FramePortScan then Some (handlePortScan env i f w)
      else Some (w, None))"

text \<open>One message taken by the read loop of hub \<open>i\<close>; errors of handlers are only logged.\<close>

definition ws_message :: "ctl_env \<Rightarrow> nat \<Rightarrow> inbound \<Rightarrow> world \<Rightarrow> world option" where
  "ws_message env i m w =
     (case w_conns w i of
        None \<Rightarrow> Some w
      | Some cn \<Rightarrow>
          (case hub_dispatch m (w_hubs w i) of
             Dispatch HCtrl f \<Rightarrow> map_option fst (ctrl_handle_frame env i (cn_user cn) f w)
           | Dispatch (HPty p) f \<Rightarrow>
               Some (upd_pty p (\<lambda>s. fst (session_handle_frame (ce_io_ok env) f s)) w)
           | Dispatch (HProxy q) f \<Rightarrow>
               Some (upd_proxy q (\<lambda>ps. fst (proxy_handle_frame (ce_io_ok env) f ps)) w)
           | _ \<Rightarrow> Some w))"

section \<open>The life of a connection\<close>

text \<open>
  \<open>json.RawMessage\<close> is compacted when it is marshalled: white space outside strings goes, and
  \<open><\<close>, \<open>>\<close>, \<open>&\<close> and the two Unicode line separators are escaped; invalid JSON is an error.
\<close>

fun compact :: "bool \<Rightarrow> bool \<Rightarrow> string \<Rightarrow> string" where
  "compact in_str esc [] = []"
| "compact in_str esc (c # cs) =
     (if has_prefix (c # cs) [CHR 0xE2, CHR 0x80, CHR 0xA8]
        then CHR 0x5C # ''u2028'' @ compact in_str False (drop 2 cs)
      else if has_prefix (c # cs) [CHR 0xE2, CHR 0x80, CHR 0xA9]
        then CHR 0x5C # ''u2029'' @ compact in_str False (drop 2 cs)
      else if c \<in> {CHR ''<'', CHR ''>'', CHR ''&''} then escape_ascii c @ compact in_str False cs
      else if in_str then
        c # compact (c \<noteq> CHR 0x22 \<or> esc) (c = CHR 0x5C \<and> \<not> esc) cs
      else if c \<in> {CHR 0x20, CHR 0x09, CHR 0x0A, CHR 0x0D} then compact False False cs
      else c # compact (c = CHR 0x22) False cs)"

definition marshal_raw :: "bytes \<Rightarrow> string option" where
  "marshal_raw b =
     (let s = string_of_bytes b
      in if json_of_string s = None then None else Some (compact False False s))"

definition render_fields :: "(string \<times> string) list \<Rightarrow> string" where
  "render_fields fs = ''{'' @ join '','' (map (\<lambda>(k, v). quote k @ '':'' @ v) fs) @ ''}''"

text \<open>The session sync payload; \<open>None\<close> when the stored state is not JSON.\<close>

definition sync_payload :: "json list \<Rightarrow> json list \<Rightarrow> string \<Rightarrow> bytes option \<Rightarrow> bytes option" where
  "sync_payload ptys proxies homeDir desktop =
     map_option
       (\<lambda>state. bytes_of_string (render_fields
          ([(''ptyChannels'', render (JArr ptys)), (''proxyChannels'', render (JArr proxies)),
            (''homeDir'', render (JStr homeDir))] @ state)))
       (case desktop of
          None \<Rightarrow> Some []
        | Some b \<Rightarrow>
            if b = [] then Some []
            else map_option (\<lambda>s. [(''desktopState'', s)]) (marshal_raw b))"

definition home_dir :: "pty_os \<Rightarrow> string \<Rightarrow> string" where
  "home_dir os u =
     (case os_lookup os u of
        Inr usr \<Rightarrow> u_home usr
      | Inl e \<Rightarrow> if u = ''root'' then ''/root'' else ''/home/'' @ u)"

text \<open>\<open>handleWS\<close> for a validated token, up to \<open>Run\<close>: the new connection gets hub \<open>w_next w\<close>.\<close>

definition ws_connect :: "ctl_env \<Rightarrow> string \<Rightarrow> world \<Rightarrow> world" where
  "ws_connect env u w =
     (let i = w_next w;
          w1 = upd_user u (\<lambda>us. us) w
      in case collector_add (ce_float_text env) store_send (ce_proc env) i
                (w_stats w1, (w_hubs w1)(i := hub_new)) of
           (sid, st, hs) \<Rightarrow>
             let w3 = w1\<lparr>w_hubs := hs, w_next := i + 1, w_hubOwner := (w_hubOwner w1)(i \<mapsto> u),
                         w_stats := st,
                         w_conns := (w_conns w1)(i \<mapsto> \<lparr>cn_user = u, cn_statsID = sid,
                                                        cn_phase = ConnRunning\<rparr>)\<rparr>;
                 w4 = upd_hub i (hub_register 0 HCtrl) w3;
                 w5 = registerHandlers (ce_pty_order env) u i w4;
                 w6 = registerProxyHandlers (ce_proxy_order env) u i w5
             in case loadDesktopState u (w_fs w6) of
                  (state, s) \<Rightarrow>
                    let w7 = w6\<lparr>w_fs := s\<rparr>;
                        desktop = (case state of Inr (Some b) \<Rightarrow> Some b | _ \<Rightarrow> None)
                    in case sync_payload (ptyInfoList (ce_pty_order env) u w7)
                              (proxyInfoList (ce_proxy_order env) u w7)
                              (home_dir (ce_os env) u) desktop of
                         None \<Rightarrow> w7
                       | Some data \<Rightarrow>
                           fst (send_to i \<lparr>f_type = FrameSessionSync, f_chan = 0,
                                           f_payload = data\<rparr> w7))"

text \<open>
  What follows when \<open>Run\<close> returns, which it does once its hub is closed or its connection
  fails: its deferred \<open>Close\<close>, \<open>detachHub\<close>, \<open>detachProxies\<close> and the deferred \<open>Remove\<close>, one
  step each; other connections go on in between.
\<close>

definition ws_teardown :: "ctl_env \<Rightarrow> nat \<Rightarrow> world \<Rightarrow> world" where
  "ws_teardown env i w =
     (case w_conns w i of
        None \<Rightarrow> w
      | Some cn \<Rightarrow>
          let goto = (\<lambda>ph w. w\<lparr>w_conns := (w_conns w)(i \<mapsto> cn\<lparr>cn_phase := ph\<rparr>)\<rparr>)
          in case cn_phase cn of
               ConnRunning \<Rightarrow> goto ConnDetachPtys (upd_hub i hub_close w)
             | ConnDetachPtys \<Rightarrow>
                 goto ConnDetachProxies (detachHub (ce_pty_order env) (cn_user cn) w)
             | ConnDetachProxies \<Rightarrow>
                 goto ConnRemoveStats (detachProxies (ce_proxy_order env) (cn_user cn) w)
             | ConnRemoveStats \<Rightarrow>
                 w\<lparr>w_stats := collector_remove (cn_statsID cn) (w_stats w),
                   w_conns := (w_conns w)(i := None)\<rparr>)"

section \<open>Events\<close>

datatype event =
    EConnect ctl_env string               \<comment> \<open>an upgrade with a valid token of this user\<close>
  | EMessage ctl_env nat inbound
  | EClose nat                            \<comment> \<open>the hub is closed, by its writer or by \<open>Run\<close>\<close>
  | ETeardown ctl_env nat
  | EWriter nat bool                      \<comment> \<open>the writer takes a frame\<close>
  | EPtyCheck nat
  | EPtyRead nat bytes bool
  | EProxyRead nat bytes bool
  | EProxyLoop nat
  | EDownload ctl_env "bytes \<Rightarrow> (bool \<times> bytes \<times> read_end) list" nat
  | ECollect ctl_env nat
  | EBroadcast ctl_env "u64 list" nat
  | EStatsExit nat

definition run_download :: "ctl_env \<Rightarrow> (bytes \<Rightarrow> (bool \<times> bytes \<times> read_end) list) \<Rightarrow> nat \<Rightarrow> world \<Rightarrow> world"
where
  "run_download env reads k w =
     (if k < length (w_downloads w) then
        (case w_downloads w ! k of
           (i, c, did, path) \<Rightarrow>
             w\<lparr>w_hubs := fst (streamFileDownload (ce_file_text env) reads store_send i c did path
                                (w_fs w) (w_hubs w)),
               w_downloads := take k (w_downloads w) @ drop (k + 1) (w_downloads w)\<rparr>)
      else w)"

definition run_stats :: "(nat collector \<times> (nat \<Rightarrow> handler hub) \<Rightarrow> nat collector \<times> (nat \<Rightarrow> handler hub)) \<Rightarrow> world \<Rightarrow> world"
where
  "run_stats g w = (case g (w_stats w, w_hubs w) of (st, hs) \<Rightarrow> w\<lparr>w_stats := st, w_hubs := hs\<rparr>)"

text \<open>A message whose handler does not return within the fuel leaves the world as it is.\<close>

fun world_apply :: "event \<Rightarrow> world \<Rightarrow> world" where
  "world_apply (EConnect env u) w = ws_connect env u w"
| "world_apply (EMessage env i m) w =
     (case ws_message env i m w of None \<Rightarrow> w | Some w' \<Rightarrow> w')"
| "world_apply (EClose i) w = upd_hub i hub_close w"
| "world_apply (ETeardown env i) w = ws_teardown env i w"
| "world_apply (EWriter i ok) w = upd_hub i (writer_data ok) w"
| "world_apply (EPtyCheck p) w = upd_pty p reader_check w"
| "world_apply (EPtyRead p data err) w = run_pty p (reader_read store_send data err) w"
| "world_apply (EProxyRead q data err) w = upd_proxy q (proxy_read data err) w"
| "world_apply (EProxyLoop q) w = run_proxy q (proxy_loop store_send) w"
| "world_apply (EDownload env reads k) w = run_download env reads k w"
| "world_apply (ECollect env l) w =
     run_stats (stats_apply (ce_float_text env) store_send (StCollect (ce_proc env) l)) w"
| "world_apply (EBroadcast env ids l) w =
     run_stats (stats_apply (ce_float_text env) store_send (StSend ids l)) w"
| "world_apply (EStatsExit l) w =
     run_stats (stats_apply (\<lambda>_. []) store_send (StExit l)) w"

definition world_run :: "event list \<Rightarrow> world \<Rightarrow> world" where
  "world_run evs w = fold world_apply evs w"

definition world_init :: "fs \<Rightarrow> bytes option \<Rightarrow> string option \<Rightarrow> world" where
  "world_init s uname hostname =
     \<lparr>w_hubs = (\<lambda>_. hub_new), w_ptys = (\<lambda>_. None), w_proxies = (\<lambda>_. None), w_users = Map.empty,
      w_conns = Map.empty, w_stats = collector_new uname hostname, w_fs = s, w_downloads = [],
      w_hubOwner = Map.empty, w_proxyOwner = Map.empty, w_next = 0\<rparr>"

end
