(* ===== verification/User_Isolation.thy ===== *)
theory User_Isolation
  imports Control_Plane
begin

text \<open>
  The isolation of users: in every world that the events of \<open>Control_Plane\<close> reach, what a
  terminal or a proxy of one user produces goes to that user's connections only, and what
  arrives on a connection acts on that user's objects only.
\<close>

section \<open>Ownership\<close>

text \<open>The hubs a proxy may still send to: the attached one and the one its loop holds.\<close>

fun pc_hubs :: "'r proxy_pc \<Rightarrow> 'r set" where
  "pc_hubs (PxForward h data err) = set_option h"
| "pc_hubs (PxNotify h) = set_option h"
| "pc_hubs _ = {}"

definition proxy_hubs :: "'r proxy \<Rightarrow> 'r set" where
  "proxy_hubs ps = set_option (px_hub ps) \<union> pc_hubs (px_pc ps)"

text \<open>
  Every reference stays within one user: a terminal or a proxy sends to its user's connections
  only, a connection routes to its user's objects only, and a user's registry holds that
  user's objects under their own channel, which is not 0.
\<close>

definition pty_owned :: "world \<Rightarrow> nat \<Rightarrow> string \<Rightarrow> bool" where
  "pty_owned w p u \<longleftrightarrow> (\<exists>s. w_ptys w p = Some s \<and> ss_user s = u)"

definition proxy_owned :: "world \<Rightarrow> nat \<Rightarrow> string \<Rightarrow> bool" where
  "proxy_owned w q u \<longleftrightarrow> w_proxies w q \<noteq> None \<and> w_proxyOwner w q = Some u"

fun handler_owned :: "world \<Rightarrow> handler \<Rightarrow> string \<Rightarrow> bool" where
  "handler_owned w HCtrl u \<longleftrightarrow> True"
| "handler_owned w (HPty p) u \<longleftrightarrow> pty_owned w p u"
| "handler_owned w (HProxy q) u \<longleftrightarrow> proxy_owned w q u"

definition iso_senders :: "world \<Rightarrow> bool" where
  "iso_senders w \<longleftrightarrow>
     (\<forall>p s r. w_ptys w p = Some s \<and> ss_sender s = Some r \<longrightarrow> w_hubOwner w r = Some (ss_user s)) \<and>
     (\<forall>q ps r. w_proxies w q = Some ps \<and> r \<in> proxy_hubs ps \<longrightarrow>
        w_hubOwner w r \<noteq> None \<and> w_hubOwner w r = w_proxyOwner w q)"

definition iso_handlers :: "world \<Rightarrow> bool" where
  "iso_handlers w \<longleftrightarrow>
     (\<forall>i c h. hb_handlers (w_hubs w i) c = Some h \<longrightarrow>
        (\<exists>u. w_hubOwner w i = Some u \<and> handler_owned w h u))"

definition iso_registry :: "world \<Rightarrow> bool" where
  "iso_registry w \<longleftrightarrow>
     (\<forall>u c p. us_ptys (session_of w u) c = Some p \<longrightarrow>
        c \<noteq> 0 \<and> (\<exists>s. w_ptys w p = Some s \<and> ss_user s = u \<and> ss_chan s = c)) \<and>
     (\<forall>u c q. us_proxies (session_of w u) c = Some q \<longrightarrow>
        c \<noteq> 0 \<and> w_proxyOwner w q = Some u \<and> (\<exists>ps. w_proxies w q = Some ps \<and> px_chan ps = c))"

definition iso_conns :: "world \<Rightarrow> bool" where
  "iso_conns w \<longleftrightarrow>
     (\<forall>i cn. w_conns w i = Some cn \<longrightarrow> w_hubOwner w i = Some (cn_user cn)) \<and>
     (\<forall>k \<ge> w_next w. w_hubOwner w k = None \<and> w_ptys w k = None \<and> w_proxies w k = None
        \<and> w_proxyOwner w k = None)"

definition isolated :: "world \<Rightarrow> bool" where
  "isolated w \<longleftrightarrow> iso_senders w \<and> iso_handlers w \<and> iso_registry w \<and> iso_conns w"

lemmas iso_defs = isolated_def iso_senders_def iso_handlers_def iso_registry_def iso_conns_def

section \<open>Steps that add no reference\<close>

definition pty_less :: "nat session option \<Rightarrow> nat session option \<Rightarrow> bool" where
  "pty_less new old \<longleftrightarrow>
     (case (new, old) of
        (None, None) \<Rightarrow> True
      | (Some s', Some s) \<Rightarrow>
          ss_user s' = ss_user s \<and> ss_chan s' = ss_chan s \<and> ss_sender s' \<in> {None, ss_sender s}
      | _ \<Rightarrow> False)"

definition proxy_less :: "nat proxy option \<Rightarrow> nat proxy option \<Rightarrow> bool" where
  "proxy_less new old \<longleftrightarrow>
     (case (new, old) of
        (None, None) \<Rightarrow> True
      | (Some ps', Some ps) \<Rightarrow> px_chan ps' = px_chan ps \<and> proxy_hubs ps' \<subseteq> proxy_hubs ps
      | _ \<Rightarrow> False)"

definition shrinks :: "world \<Rightarrow> world \<Rightarrow> bool" where
  "shrinks w' w \<longleftrightarrow>
     w_hubOwner w' = w_hubOwner w \<and> w_proxyOwner w' = w_proxyOwner w \<and> w_next w' = w_next w \<and>
     (\<forall>i cn'. w_conns w' i = Some cn' \<longrightarrow> (\<exists>cn. w_conns w i = Some cn \<and> cn_user cn' = cn_user cn)) \<and>
     (\<forall>p. pty_less (w_ptys w' p) (w_ptys w p)) \<and>
     (\<forall>q. proxy_less (w_proxies w' q) (w_proxies w q)) \<and>
     (\<forall>i. hb_handlers (w_hubs w' i) \<subseteq>\<^sub>m hb_handlers (w_hubs w i)) \<and>
     (\<forall>u. us_ptys (session_of w' u) \<subseteq>\<^sub>m us_ptys (session_of w u)) \<and>
     (\<forall>u. us_proxies (session_of w' u) \<subseteq>\<^sub>m us_proxies (session_of w u))"

lemma pty_less_refl [simp]: "pty_less s s"
  by (simp add: pty_less_def split: option.splits)

lemma proxy_less_refl [simp]: "proxy_less s s"
  by (simp add: proxy_less_def split: option.splits)

lemma pty_less_trans: "pty_less a b \<Longrightarrow> pty_less b c \<Longrightarrow> pty_less a c"
  by (auto simp: pty_less_def split: option.splits)

lemma proxy_less_trans: "proxy_less a b \<Longrightarrow> proxy_less b c \<Longrightarrow> proxy_less a c"
  by (auto simp: proxy_less_def split: option.splits)

lemma shrinks_refl [simp]: "shrinks w w"
  by (simp add: shrinks_def)

lemma shrinks_trans: "shrinks a b \<Longrightarrow> shrinks b c \<Longrightarrow> shrinks a c"
  unfolding shrinks_def
  by (intro conjI allI impI; elim conjE)
    (metis pty_less_trans proxy_less_trans map_le_trans)+

lemma map_le_Some: "m \<subseteq>\<^sub>m n \<Longrightarrow> m x = Some y \<Longrightarrow> n x = Some y"
  by (metis domI map_le_def)

lemma shrinksD:
  assumes "shrinks w' w"
  shows "w_hubOwner w' = w_hubOwner w" "w_proxyOwner w' = w_proxyOwner w" "w_next w' = w_next w"
    "w_conns w' i = Some cn' \<Longrightarrow> \<exists>cn. w_conns w i = Some cn \<and> cn_user cn' = cn_user cn"
    "pty_less (w_ptys w' p) (w_ptys w p)" "proxy_less (w_proxies w' q) (w_proxies w q)"
    "hb_handlers (w_hubs w' i) c = Some x \<Longrightarrow> hb_handlers (w_hubs w i) c = Some x"
    "us_ptys (session_of w' u) c = Some k \<Longrightarrow> us_ptys (session_of w u) c = Some k"
    "us_proxies (session_of w' u) c = Some k \<Longrightarrow> us_proxies (session_of w u) c = Some k"
  using assms
    map_le_Some[of "hb_handlers (w_hubs w' i)" "hb_handlers (w_hubs w i)" c x]
    map_le_Some[of "us_ptys (session_of w' u)" "us_ptys (session_of w u)" c k]
    map_le_Some[of "us_proxies (session_of w' u)" "us_proxies (session_of w u)" c k]
  by (simp_all add: shrinks_def)

lemma pty_less_Some:
  "pty_less (Some s') old \<Longrightarrow> \<exists>s. old = Some s \<and> ss_user s' = ss_user s \<and> ss_chan s' = ss_chan s
     \<and> ss_sender s' \<in> {None, ss_sender s}"
  "pty_less new (Some s) \<Longrightarrow> \<exists>s'. new = Some s' \<and> ss_user s' = ss_user s \<and> ss_chan s' = ss_chan s"
  "pty_less new None \<Longrightarrow> new = None"
  by (auto simp: pty_less_def split: option.splits)

lemma proxy_less_Some:
  "proxy_less (Some ps') old \<Longrightarrow> \<exists>ps. old = Some ps \<and> px_chan ps' = px_chan ps
     \<and> proxy_hubs ps' \<subseteq> proxy_hubs ps"
  "proxy_less new (Some ps) \<Longrightarrow> \<exists>ps'. new = Some ps' \<and> px_chan ps' = px_chan ps"
  "proxy_less new None \<Longrightarrow> new = None"
  by (auto simp: proxy_less_def split: option.splits)

lemma shrinks_senders:
  assumes "shrinks w' w" "iso_senders w"
  shows "iso_senders w'"
proof -
  note d = shrinksD[OF assms(1)]
  have "w_hubOwner w' r = Some (ss_user s')"
    if "w_ptys w' p = Some s'" "ss_sender s' = Some r" for p s' r
    using pty_less_Some(1)[OF d(5)[of p, unfolded that(1)]] that(2) assms(2)
    by (auto simp: iso_senders_def d(1))
  moreover have "w_hubOwner w' r \<noteq> None \<and> w_hubOwner w' r = w_proxyOwner w' q"
    if a: "w_proxies w' q = Some ps'" and b: "r \<in> proxy_hubs ps'" for q ps' r
  proof -
    obtain ps where "w_proxies w q = Some ps" "r \<in> proxy_hubs ps"
      using proxy_less_Some(1)[OF d(6)[of q, unfolded a]] b by blast
    then show ?thesis using assms(2) unfolding iso_senders_def d(1,2) by blast
  qed
  ultimately show ?thesis unfolding iso_senders_def by blast
qed

lemma shrinks_owned:
  assumes "shrinks w' w"
  shows "pty_owned w p u \<Longrightarrow> pty_owned w' p u" "proxy_owned w q u \<Longrightarrow> proxy_owned w' q u"
    "handler_owned w x u \<Longrightarrow> handler_owned w' x u"
proof -
  note d = shrinksD[OF assms]
  show p: "pty_owned w p u \<Longrightarrow> pty_owned w' p u" for p
    using pty_less_Some(2) d(5)[of p] by (fastforce simp: pty_owned_def)
  show q: "proxy_owned w q u \<Longrightarrow> proxy_owned w' q u" for q
    using proxy_less_Some(2) d(6)[of q] d(2) by (fastforce simp: proxy_owned_def)
  show "handler_owned w x u \<Longrightarrow> handler_owned w' x u"
    using p q by (cases x) auto
qed

lemma shrinks_registry:
  assumes "shrinks w' w" "iso_registry w"
  shows "iso_registry w'"
proof -
  note d = shrinksD[OF assms(1)]
  have "c \<noteq> 0 \<and> (\<exists>s. w_ptys w' x = Some s \<and> ss_user s = u \<and> ss_chan s = c)"
    if a: "us_ptys (session_of w' u) c = Some x" for u c x
  proof -
    obtain s where s: "c \<noteq> 0" "w_ptys w x = Some s" "ss_user s = u" "ss_chan s = c"
      using assms(2) d(8)[OF a] unfolding iso_registry_def by blast
    then show ?thesis using pty_less_Some(2)[OF d(5)[of x, unfolded s(2)]] by auto
  qed
  moreover have "c \<noteq> 0 \<and> w_proxyOwner w' x = Some u \<and> (\<exists>ps. w_proxies w' x = Some ps \<and> px_chan ps = c)"
    if a: "us_proxies (session_of w' u) c = Some x" for u c x
  proof -
    obtain ps where s: "c \<noteq> 0" "w_proxyOwner w x = Some u" "w_proxies w x = Some ps" "px_chan ps = c"
      using assms(2) d(9)[OF a] unfolding iso_registry_def by blast
    then show ?thesis using proxy_less_Some(2)[OF d(6)[of x, unfolded s(3)]] d(2) by auto
  qed
  ultimately show ?thesis unfolding iso_registry_def by blast
qed

lemma shrinks_conns:
  assumes "shrinks w' w" "iso_conns w"
  shows "iso_conns w'"
proof -
  note d = shrinksD[OF assms(1)]
  have "w_hubOwner w' i = Some (cn_user cn')" if "w_conns w' i = Some cn'" for i cn'
    using d(4)[OF that] assms(2) by (auto simp: iso_conns_def d(1))
  moreover have "w_ptys w' k = None" if "w_ptys w k = None" for k
    using pty_less_Some(3)[OF d(5)[of k, unfolded that]] .
  moreover have "w_proxies w' k = None" if "w_proxies w k = None" for k
    using proxy_less_Some(3)[OF d(6)[of k, unfolded that]] .
  ultimately show ?thesis using assms(2) by (auto simp: iso_conns_def d(1,2,3))
qed

lemma shrinks_isolated: "shrinks w' w \<Longrightarrow> isolated w \<Longrightarrow> isolated w'"
  using shrinks_senders shrinks_registry shrinks_conns shrinks_owned(3) shrinksD(1,7)
  by (simp add: isolated_def iso_handlers_def) metis

section \<open>What the operations leave alone\<close>

lemma session_ops_user [simp]:
  "ss_user (fst (session_attach send r sw)) = ss_user (fst sw)"
  "ss_user (session_detach s) = ss_user s"
  "ss_user (session_resize c rw s) = ss_user s"
  "ss_user (fst (session_handle_frame ok f s)) = ss_user s"
  "ss_user (session_close s) = ss_user s"
  "ss_user (reader_check s) = ss_user s"
  "ss_user (fst (reader_read send data err sw)) = ss_user (fst sw)"
  by (auto simp: session_op_defs Let_def split: prod.splits option.splits)

text \<open>Sending never touches a handler table.\<close>

definition tables :: "(nat \<Rightarrow> handler hub) \<Rightarrow> nat \<Rightarrow> u16 \<rightharpoonup> handler" where
  "tables hs i = hb_handlers (hs i)"

lemma tables_send [simp]: "tables (fst (store_send r f hs)) = tables hs"
  by (auto simp: tables_def store_send_simps fun_eq_iff)

lemma tables_ops [simp]:
  "tables (snd (session_attach store_send r (s, hs))) = tables hs"
  "tables (snd (reader_read store_send data err (s, hs))) = tables hs"
  "tables (snd (proxy_loop store_send (ps, hs))) = tables hs"
  by (auto simp: session_attach_def reader_read_def proxy_loop_def send_opt_def Let_def
      split: option.splits proxy_pc.splits)

lemma tables_download [simp]:
  "tables (fst (download_loop store_send r c i tot off ts hs)) = tables hs"
proof (induction ts arbitrary: off hs)
  case (Cons t ts)
  obtain cancelled data re where t: "t = (cancelled, data, re)" by (metis prod.exhaust)
  have s: "tables hs1 = tables hs" if "store_send r f hs = (hs1, e)" for f hs1 e
    using tables_send[of r f hs] by (simp add: that)
  show ?case
    using Cons.IH s by (auto simp: t Let_def split: prod.splits read_end.splits)
qed simp

lemma tables_stream [simp]:
  "tables (fst (streamFileDownload txt reads store_send r c i path s hs)) = tables hs"
  using tables_download by (auto simp: streamFileDownload_def Let_def split: sum.splits node.splits prod.splits)
    (metis fst_conv tables_download)

lemma tables_file_list [simp]: "tables (fst (handleFileList meta txt store_send r s f hs)) = tables hs"
  by (simp add: handleFileList_def Let_def)

lemma tables_upload [simp]: "tables (snd (fst (handleFileUpload store_send r f (s, hs)))) = tables hs"
proof -
  have "tables hs1 = tables hs" if "store_send r f hs = (hs1, e)" for f hs1 e
    using tables_send[of r f hs] by (simp add: that)
  then show ?thesis by (auto simp: handleFileUpload_def split: sum.splits prod.splits option.splits)
qed

lemma tables_add [simp]:
  "tables (snd (snd (collector_add ft store_send env r (c, hs)))) = tables hs"
  by (simp add: collector_add_def Let_def)

lemma tables_broadcast: "tables (snd (broadcast store_send f ids (c, hs))) = tables hs"
proof (induction ids arbitrary: c hs)
  case (Cons sid ids)
  have "tables hs1 = tables hs" if "store_send r f hs = (hs1, e)" for r hs1 e
    using tables_send[of r f hs] by (simp add: that)
  then show ?case using Cons.IH by (auto split: option.splits prod.splits)
qed simp

lemma tables_stats:
  "tables (snd (stats_apply ft store_send (StCollect env l) (c, hs))) = tables hs"
  "tables (snd (stats_apply ft store_send (StSend ids l) (c, hs))) = tables hs"
  "tables (snd (stats_apply ft store_send (StExit l) (c, hs))) = tables hs"
  by (auto simp: loop_send_def tables_broadcast split: option.splits loop_pc.splits)

text \<open>Shrinking, operation by operation.\<close>

lemma shrinks_upd_pty:
  "(\<And>s. pty_less (Some (g s)) (Some s)) \<Longrightarrow> shrinks (upd_pty p g w) w"
  by (auto simp: shrinks_def upd_pty_def session_of_def split: option.splits)

lemma shrinks_upd_proxy:
  "(\<And>ps. proxy_less (Some (g ps)) (Some ps)) \<Longrightarrow> shrinks (upd_proxy q g w) w"
  by (auto simp: shrinks_def upd_proxy_def session_of_def split: option.splits)

lemma shrinks_upd_hub:
  "(\<And>h. hb_handlers (g h) \<subseteq>\<^sub>m hb_handlers h) \<Longrightarrow> shrinks (upd_hub i g w) w"
  by (auto simp: shrinks_def upd_hub_def session_of_def)

lemma shrinks_hubs: "tables hs = tables (w_hubs w) \<Longrightarrow> shrinks (w\<lparr>w_hubs := hs\<rparr>) w"
  by (simp add: shrinks_def session_of_def tables_def fun_eq_iff map_le_def)

lemma shrinks_other:
  "shrinks (w\<lparr>w_fs := s\<rparr>) w" "shrinks (w\<lparr>w_downloads := ds\<rparr>) w" "shrinks (w\<lparr>w_stats := st\<rparr>) w"
  by (auto simp: shrinks_def session_of_def)

lemma shrinks_registry_drop:
  "shrinks (upd_user u (\<lambda>us. us\<lparr>us_ptys := (us_ptys us)(c := None)\<rparr>) w) w"
  "shrinks (upd_user u (\<lambda>us. us\<lparr>us_proxies := (us_proxies us)(c := None)\<rparr>) w) w"
  "shrinks (upd_user u (\<lambda>us. us) w) w"
  by (auto simp: shrinks_def upd_user_def session_of_def newUserSession_def map_le_def
      split: option.splits)

lemma pty_less_ops:
  "pty_less (Some (session_close s)) (Some s)" "pty_less (Some (session_detach s)) (Some s)"
  "pty_less (Some (session_resize c r s)) (Some s)" "pty_less (Some (reader_check s)) (Some s)"
  "pty_less (Some (fst (session_handle_frame ok f s))) (Some s)"
  by (simp_all add: pty_less_def)

lemma proxy_less_ops:
  "proxy_less (Some (proxy_close ps)) (Some ps)" "proxy_less (Some (proxy_detach ps)) (Some ps)"
  "proxy_less (Some (fst (proxy_handle_frame ok f ps))) (Some ps)"
  "proxy_less (Some (proxy_read data err ps)) (Some ps)"
  "proxy_less (Some (fst (proxy_loop send (ps, w)))) (Some ps)"
  by (auto simp: proxy_less_def proxy_hubs_def proxy_op_defs Let_def
      split: proxy_pc.splits if_splits prod.splits)

section \<open>Steps that add a reference\<close>

lemma upd_owners [simp]:
  "w_hubOwner (upd_hub i g w) = w_hubOwner w" "w_hubOwner (upd_pty p gp w) = w_hubOwner w"
  "w_hubOwner (upd_proxy q gq w) = w_hubOwner w" "w_hubOwner (upd_user u gu w) = w_hubOwner w"
  "w_hubOwner (run_pty p rp w) = w_hubOwner w" "w_hubOwner (run_proxy q rq w) = w_hubOwner w"
  by (auto simp: upd_hub_def upd_pty_def upd_proxy_def upd_user_def run_pty_def run_proxy_def
      split: option.splits prod.splits)

lemma upd_fields [simp]:
  "w_ptys (upd_proxy q gq w) = w_ptys w" "w_hubs (upd_proxy q gq w) = w_hubs w"
  "w_conns (upd_proxy q gq w) = w_conns w" "w_next (upd_proxy q gq w) = w_next w"
  "w_proxyOwner (upd_proxy q gq w) = w_proxyOwner w"
  "w_ptys (upd_hub i g w) = w_ptys w" "w_proxies (upd_hub i g w) = w_proxies w"
  "w_conns (upd_hub i g w) = w_conns w" "w_next (upd_hub i g w) = w_next w"
  "w_proxyOwner (upd_hub i g w) = w_proxyOwner w"
  "w_hubs (upd_pty p gp w) = w_hubs w" "w_proxies (upd_pty p gp w) = w_proxies w"
  "w_conns (upd_pty p gp w) = w_conns w" "w_next (upd_pty p gp w) = w_next w"
  "w_proxyOwner (upd_pty p gp w) = w_proxyOwner w"
  "w_proxies (run_pty p rp w) = w_proxies w" "w_conns (run_pty p rp w) = w_conns w"
  "w_next (run_pty p rp w) = w_next w" "w_proxyOwner (run_pty p rp w) = w_proxyOwner w"
  "w_ptys (upd_user u gu w) = w_ptys w" "w_hubs (upd_user u gu w) = w_hubs w"
  "w_proxies (upd_user u gu w) = w_proxies w" "w_conns (upd_user u gu w) = w_conns w"
  "w_next (upd_user u gu w) = w_next w" "w_proxyOwner (upd_user u gu w) = w_proxyOwner w"
  by (auto simp: upd_hub_def upd_pty_def upd_proxy_def upd_user_def run_pty_def
      split: option.splits prod.splits)

lemma upd_objects:
  "w_proxies (upd_proxy q gq w) k = (if k = q then map_option gq (w_proxies w q) else w_proxies w k)"
  "w_ptys (upd_pty p gp w) k = (if k = p then map_option gp (w_ptys w p) else w_ptys w k)"
  "w_ptys (run_pty p rp w) k
     = (if k = p then map_option (\<lambda>s. fst (rp (s, w_hubs w))) (w_ptys w p) else w_ptys w k)"
  "w_hubs (upd_hub i g w) k = (if k = i then g (w_hubs w i) else w_hubs w k)"
  by (auto simp: upd_hub_def upd_pty_def upd_proxy_def run_pty_def split: option.splits prod.splits)

lemma session_of_upd [simp]:
  "session_of (upd_hub i g w) = session_of w" "session_of (upd_pty p gp w) = session_of w"
  "session_of (upd_proxy q gq w) = session_of w"
  "session_of (run_pty p rp w) = session_of w" "session_of (run_proxy q rq w) = session_of w"
  by (auto simp: session_of_def fun_eq_iff upd_hub_def upd_pty_def upd_proxy_def run_pty_def
      run_proxy_def split: option.splits prod.splits)

lemma session_of_upd_user:
  "session_of (upd_user u g w) v = (if v = u then g (session_of w u) else session_of w v)"
  by (simp add: session_of_def upd_user_def)

lemma handler_owned_cong:
  assumes "\<And>p u. pty_owned w p u \<Longrightarrow> pty_owned w' p u" "\<And>q u. proxy_owned w q u \<Longrightarrow> proxy_owned w' q u"
  shows "handler_owned w h u \<Longrightarrow> handler_owned w' h u"
  using assms by (cases h) auto

lemma pty_owned_upd [simp]:
  "pty_owned (upd_hub i g w) p u = pty_owned w p u" "proxy_owned (upd_hub i g w) q u = proxy_owned w q u"
  "handler_owned (upd_hub i g w) h u = handler_owned w h u"
  by (simp_all add: pty_owned_def proxy_owned_def upd_hub_def) (cases h;
      simp add: pty_owned_def proxy_owned_def upd_hub_def)

lemma isoD:
  assumes "isolated w"
  shows "w_ptys w p = Some s \<Longrightarrow> ss_sender s = Some r \<Longrightarrow> w_hubOwner w r = Some (ss_user s)"
    "w_proxies w q = Some ps \<Longrightarrow> r \<in> proxy_hubs ps \<Longrightarrow>
       \<exists>u. w_hubOwner w r = Some u \<and> w_proxyOwner w q = Some u"
    "hb_handlers (w_hubs w i) c = Some h \<Longrightarrow> \<exists>u. w_hubOwner w i = Some u \<and> handler_owned w h u"
    "us_ptys (session_of w v) c = Some k \<Longrightarrow>
       c \<noteq> 0 \<and> (\<exists>s. w_ptys w k = Some s \<and> ss_user s = v \<and> ss_chan s = c)"
    "us_proxies (session_of w v) c = Some k \<Longrightarrow>
       c \<noteq> 0 \<and> w_proxyOwner w k = Some v \<and> (\<exists>ps. w_proxies w k = Some ps \<and> px_chan ps = c)"
    "w_conns w i = Some cn \<Longrightarrow> w_hubOwner w i = Some (cn_user cn)"
    "w_next w \<le> n \<Longrightarrow> w_hubOwner w n = None \<and> w_ptys w n = None \<and> w_proxies w n = None
       \<and> w_proxyOwner w n = None"
proof -
  note d = assms[unfolded isolated_def]
  show "w_ptys w p = Some s \<Longrightarrow> ss_sender s = Some r \<Longrightarrow> w_hubOwner w r = Some (ss_user s)"
    using d by (simp add: iso_senders_def)
  show "w_proxies w q = Some ps \<Longrightarrow> r \<in> proxy_hubs ps \<Longrightarrow>
       \<exists>u. w_hubOwner w r = Some u \<and> w_proxyOwner w q = Some u"
    using d unfolding iso_senders_def by (metis option.exhaust)
  show "hb_handlers (w_hubs w i) c = Some h \<Longrightarrow> \<exists>u. w_hubOwner w i = Some u \<and> handler_owned w h u"
    using d by (simp add: iso_handlers_def)
  show "us_ptys (session_of w v) c = Some k \<Longrightarrow>
       c \<noteq> 0 \<and> (\<exists>s. w_ptys w k = Some s \<and> ss_user s = v \<and> ss_chan s = c)"
    "us_proxies (session_of w v) c = Some k \<Longrightarrow>
       c \<noteq> 0 \<and> w_proxyOwner w k = Some v \<and> (\<exists>ps. w_proxies w k = Some ps \<and> px_chan ps = c)"
    using d by (simp_all add: iso_registry_def)
  show "w_conns w i = Some cn \<Longrightarrow> w_hubOwner w i = Some (cn_user cn)"
    "w_next w \<le> n \<Longrightarrow> w_hubOwner w n = None \<and> w_ptys w n = None \<and> w_proxies w n = None
       \<and> w_proxyOwner w n = None"
    using d by (simp_all add: iso_conns_def)
qed

lemma isolatedI:
  assumes "\<And>p s r. w_ptys w p = Some s \<Longrightarrow> ss_sender s = Some r \<Longrightarrow> w_hubOwner w r = Some (ss_user s)"
    and "\<And>q ps r. w_proxies w q = Some ps \<Longrightarrow> r \<in> proxy_hubs ps \<Longrightarrow>
       \<exists>u. w_hubOwner w r = Some u \<and> w_proxyOwner w q = Some u"
    and "\<And>i c h. hb_handlers (w_hubs w i) c = Some h \<Longrightarrow> \<exists>u. w_hubOwner w i = Some u \<and> handler_owned w h u"
    and "\<And>v c k. us_ptys (session_of w v) c = Some k \<Longrightarrow>
       c \<noteq> 0 \<and> (\<exists>s. w_ptys w k = Some s \<and> ss_user s = v \<and> ss_chan s = c)"
    and "\<And>v c k. us_proxies (session_of w v) c = Some k \<Longrightarrow>
       c \<noteq> 0 \<and> w_proxyOwner w k = Some v \<and> (\<exists>ps. w_proxies w k = Some ps \<and> px_chan ps = c)"
    and "\<And>i cn. w_conns w i = Some cn \<Longrightarrow> w_hubOwner w i = Some (cn_user cn)"
    and "\<And>n. w_next w \<le> n \<Longrightarrow> w_hubOwner w n = None \<and> w_ptys w n = None \<and> w_proxies w n = None
       \<and> w_proxyOwner w n = None"
  shows "isolated w"
  unfolding isolated_def iso_senders_def iso_handlers_def iso_registry_def iso_conns_def
proof (intro conjI allI impI)
  fix q ps r assume "w_proxies w q = Some ps \<and> r \<in> proxy_hubs ps"
  then obtain u where "w_hubOwner w r = Some u" "w_proxyOwner w q = Some u" using assms(2) by blast
  then show "w_hubOwner w r \<noteq> None" "w_hubOwner w r = w_proxyOwner w q" by simp_all
qed (use assms(1,3-7) in \<open>(blast | simp)+\<close>)

lemma isolated_register:
  assumes "isolated w" "w_hubOwner w i = Some u" "handler_owned w h u"
  shows "isolated (upd_hub i (hub_register c h) w)"
proof (rule isolatedI)
  fix j d x assume "hb_handlers (w_hubs (upd_hub i (hub_register c h) w) j) d = Some x"
  then have "(j = i \<and> x = h) \<or> hb_handlers (w_hubs w j) d = Some x"
    by (auto simp: upd_objects hub_register_def split: if_splits)
  then show "\<exists>u. w_hubOwner (upd_hub i (hub_register c h) w) j = Some u
      \<and> handler_owned (upd_hub i (hub_register c h) w) x u"
    using assms(2,3) isoD(3)[OF assms(1)] by auto
qed (use isoD[OF assms(1)] in simp_all)

lemma handler_owned_upd_proxy [simp]:
  "handler_owned (upd_proxy q g w) h u = handler_owned w h u"
  by (cases h) (auto simp: upd_proxy_def pty_owned_def proxy_owned_def split: option.splits)

lemma handler_owned_run_pty [simp]:
  assumes "\<And>sw. ss_user (fst (g sw)) = ss_user (fst sw)"
  shows "handler_owned (run_pty p g w) h u = handler_owned w h u"
proof -
  have "ss_user s' = ss_user s" if "g (s, hs) = (s', hs')" for s s' hs hs'
    using assms[of "(s, hs)"] that by simp
  then show ?thesis
    by (cases h) (auto simp: run_pty_def pty_owned_def proxy_owned_def split: option.splits prod.splits)
qed

lemma isolated_attach_proxy:
  assumes "isolated w" "w_hubOwner w i = Some u" "proxy_owned w q u"
  shows "isolated (upd_proxy q (proxy_attach i) w)"
proof (rule isolatedI)
  let ?w = "upd_proxy q (proxy_attach i) w"
  fix k ps r assume "w_proxies ?w k = Some ps" "r \<in> proxy_hubs ps"
  then have "(k = q \<and> r = i) \<or> (\<exists>ps'. w_proxies w k = Some ps' \<and> r \<in> proxy_hubs ps')"
    by (auto simp: upd_objects proxy_attach_def proxy_hubs_def split: if_splits)
  then show "\<exists>u. w_hubOwner ?w r = Some u \<and> w_proxyOwner ?w k = Some u"
    using assms(2,3) isoD(2)[OF assms(1)] by (auto simp: proxy_owned_def)
next
  let ?w = "upd_proxy q (proxy_attach i) w"
  fix v c k assume "us_proxies (session_of ?w v) c = Some k"
  then obtain ps where "c \<noteq> 0" "w_proxyOwner w k = Some v" "w_proxies w k = Some ps" "px_chan ps = c"
    using isoD(5)[OF assms(1), of v c k] by auto
  then show "c \<noteq> 0 \<and> w_proxyOwner ?w k = Some v \<and> (\<exists>ps. w_proxies ?w k = Some ps \<and> px_chan ps = c)"
    by (auto simp: upd_objects proxy_attach_def)
next
  let ?w = "upd_proxy q (proxy_attach i) w"
  fix n assume "w_next ?w \<le> n"
  then show "w_hubOwner ?w n = None \<and> w_ptys ?w n = None \<and> w_proxies ?w n = None \<and> w_proxyOwner ?w n = None"
    using isoD(7)[OF assms(1), of n] by (auto simp: upd_objects)
qed (use isoD[OF assms(1)] in simp_all)

lemma isolated_attach_pty:
  assumes "isolated w" "w_hubOwner w i = Some u" "pty_owned w p u"
  shows "isolated (run_pty p (session_attach store_send i) w)"
proof (rule isolatedI)
  let ?w = "run_pty p (session_attach store_send i) w"
  fix k s r assume "w_ptys ?w k = Some s" "ss_sender s = Some r"
  then have "(k = p \<and> r = i \<and> ss_user s = u) \<or> (k \<noteq> p \<and> w_ptys w k = Some s)"
    using assms(3) by (auto simp: upd_objects pty_owned_def split: if_splits)
  then show "w_hubOwner ?w r = Some (ss_user s)"
    using assms(2) isoD(1)[OF assms(1)] \<open>ss_sender s = Some r\<close> by auto
next
  let ?w = "run_pty p (session_attach store_send i) w"
  fix j c h assume h: "hb_handlers (w_hubs ?w j) c = Some h"
  have "hb_handlers (w_hubs ?w j) = hb_handlers (w_hubs w j)"
  proof (cases "w_ptys w p")
    case (Some s)
    obtain s' hs' where g: "session_attach store_send i (s, w_hubs w) = (s', hs')" by fastforce
    then have "tables hs' = tables (w_hubs w)" using tables_ops(1)[of i s "w_hubs w"] by simp
    then have "tables hs' j = tables (w_hubs w) j" by simp
    then show ?thesis using Some g by (simp add: run_pty_def tables_def)
  qed (simp add: run_pty_def)
  with h show "\<exists>u. w_hubOwner ?w j = Some u \<and> handler_owned ?w h u"
    using isoD(3)[OF assms(1), of j c h] by simp
next
  let ?w = "run_pty p (session_attach store_send i) w"
  fix v c k assume "us_ptys (session_of ?w v) c = Some k"
  then show "c \<noteq> 0 \<and> (\<exists>s. w_ptys ?w k = Some s \<and> ss_user s = v \<and> ss_chan s = c)"
    using isoD(4)[OF assms(1), of v c k] by (auto simp: upd_objects)
next
  let ?w = "run_pty p (session_attach store_send i) w"
  fix n assume "w_next ?w \<le> n"
  then show "w_hubOwner ?w n = None \<and> w_ptys ?w n = None \<and> w_proxies ?w n = None \<and> w_proxyOwner ?w n = None"
    using isoD(7)[OF assms(1), of n] by (auto simp: upd_objects)
qed (use isoD[OF assms(1)] in simp_all)


section \<open>New objects\<close>

lemma owned_fresh:
  assumes "isolated w"
  shows "pty_owned w p u \<Longrightarrow> p \<noteq> w_next w" "proxy_owned w q u \<Longrightarrow> q \<noteq> w_next w"
  using isoD(7)[OF assms, of "w_next w"] by (auto simp: pty_owned_def proxy_owned_def)

definition with_pty :: "nat session \<Rightarrow> world \<Rightarrow> world" where
  "with_pty s w = w\<lparr>w_ptys := (w_ptys w)(w_next w := Some s), w_next := w_next w + 1\<rparr>"

definition with_proxy :: "string \<Rightarrow> nat proxy \<Rightarrow> world \<Rightarrow> world" where
  "with_proxy u ps w = w\<lparr>w_proxies := (w_proxies w)(w_next w := Some ps), w_next := w_next w + 1,
     w_proxyOwner := (w_proxyOwner w)(w_next w \<mapsto> u)\<rparr>"

lemma with_fields [simp]:
  "w_ptys (with_pty s w) = (w_ptys w)(w_next w := Some s)" "w_next (with_pty s w) = w_next w + 1"
  "w_hubs (with_pty s w) = w_hubs w" "w_proxies (with_pty s w) = w_proxies w"
  "w_conns (with_pty s w) = w_conns w" "w_hubOwner (with_pty s w) = w_hubOwner w"
  "w_proxyOwner (with_pty s w) = w_proxyOwner w" "session_of (with_pty s w) = session_of w"
  "w_proxies (with_proxy u ps w) = (w_proxies w)(w_next w := Some ps)"
  "w_next (with_proxy u ps w) = w_next w + 1" "w_hubs (with_proxy u ps w) = w_hubs w"
  "w_ptys (with_proxy u ps w) = w_ptys w" "w_conns (with_proxy u ps w) = w_conns w"
  "w_hubOwner (with_proxy u ps w) = w_hubOwner w"
  "w_proxyOwner (with_proxy u ps w) = (w_proxyOwner w)(w_next w \<mapsto> u)"
  "session_of (with_proxy u ps w) = session_of w"
  by (simp_all add: with_pty_def with_proxy_def session_of_def fun_eq_iff)

lemma handler_owned_mono:
  assumes "isolated w" "\<And>p. p \<noteq> w_next w \<Longrightarrow> w_ptys w' p = w_ptys w p"
    "\<And>q. q \<noteq> w_next w \<Longrightarrow> w_proxies w' q = w_proxies w q \<and> w_proxyOwner w' q = w_proxyOwner w q"
    "handler_owned w h u"
  shows "handler_owned w' h u"
  by (cases h) (use assms owned_fresh[OF assms(1)] in \<open>auto simp: pty_owned_def proxy_owned_def\<close>)

lemma isolated_new_pty:
  assumes "isolated w" "ss_user s = u" "ss_chan s = c" "ss_sender s = None" "c \<noteq> 0"
  shows "isolated (addPTY u c (w_next w) (with_pty s w))"
proof (rule isolatedI)
  let ?w = "addPTY u c (w_next w) (with_pty s w)"
  note d = isoD[OF assms(1)]
  show "w_hubOwner ?w r = Some (ss_user s')"
    if "w_ptys ?w p = Some s'" "ss_sender s' = Some r" for p s' r
    using that assms(4) d(1)[of p s' r] by (auto simp: addPTY_def split: if_splits)
  show "\<exists>v. w_hubOwner ?w r = Some v \<and> w_proxyOwner ?w q = Some v"
    if "w_proxies ?w q = Some ps" "r \<in> proxy_hubs ps" for q ps r
    using that d(2)[of q ps r] by (simp add: addPTY_def)
  show "\<exists>v. w_hubOwner ?w i = Some v \<and> handler_owned ?w h v"
    if "hb_handlers (w_hubs ?w i) k = Some h" for i k h
    using that d(3)[of i k h] handler_owned_mono[OF assms(1), of ?w h] by (auto simp: addPTY_def)
  show "k \<noteq> 0 \<and> (\<exists>s. w_ptys ?w x = Some s \<and> ss_user s = v \<and> ss_chan s = k)"
    if "us_ptys (session_of ?w v) k = Some x" for v k x
    using that d(4)[of v k x] d(7)[of "w_next w"] assms(2,3,5)
    by (auto simp: addPTY_def session_of_upd_user split: if_splits)
  show "k \<noteq> 0 \<and> w_proxyOwner ?w x = Some v \<and> (\<exists>ps. w_proxies ?w x = Some ps \<and> px_chan ps = k)"
    if "us_proxies (session_of ?w v) k = Some x" for v k x
    using that d(5)[of v k x] by (auto simp: addPTY_def session_of_upd_user split: if_splits)
  show "w_hubOwner ?w i = Some (cn_user cn)" if "w_conns ?w i = Some cn" for i cn
    using that d(6)[of i cn] by (simp add: addPTY_def)
  show "w_hubOwner ?w n = None \<and> w_ptys ?w n = None \<and> w_proxies ?w n = None \<and> w_proxyOwner ?w n = None"
    if "w_next ?w \<le> n" for n
    using that d(7)[of n] by (simp add: addPTY_def)
qed

lemma isolated_new_proxy:
  assumes "isolated w" "px_chan ps = c" "proxy_hubs ps \<subseteq> {i}" "w_hubOwner w i = Some u" "c \<noteq> 0"
  shows "isolated (addProxy u c (w_next w) (with_proxy u ps w))"
proof (rule isolatedI)
  let ?w = "addProxy u c (w_next w) (with_proxy u ps w)"
  note d = isoD[OF assms(1)]
  show "w_hubOwner ?w r = Some (ss_user s')"
    if "w_ptys ?w p = Some s'" "ss_sender s' = Some r" for p s' r
    using that d(1)[of p s' r] by (auto simp: addProxy_def split: if_splits)
  show "\<exists>v. w_hubOwner ?w r = Some v \<and> w_proxyOwner ?w q = Some v"
    if "w_proxies ?w q = Some ps'" "r \<in> proxy_hubs ps'" for q ps' r
    using that d(2)[of q ps' r] assms(3,4) by (auto simp: addProxy_def split: if_splits)
  show "\<exists>v. w_hubOwner ?w i = Some v \<and> handler_owned ?w h v"
    if "hb_handlers (w_hubs ?w i) k = Some h" for i k h
    using that d(3)[of i k h] handler_owned_mono[OF assms(1), of ?w h] by (auto simp: addProxy_def)
  show "k \<noteq> 0 \<and> (\<exists>s. w_ptys ?w x = Some s \<and> ss_user s = v \<and> ss_chan s = k)"
    if "us_ptys (session_of ?w v) k = Some x" for v k x
    using that d(4)[of v k x] by (auto simp: addProxy_def session_of_upd_user split: if_splits)
  show "k \<noteq> 0 \<and> w_proxyOwner ?w x = Some v \<and> (\<exists>ps. w_proxies ?w x = Some ps \<and> px_chan ps = k)"
    if "us_proxies (session_of ?w v) k = Some x" for v k x
    using that d(5)[of v k x] d(7)[of "w_next w"] assms(2,5)
    by (auto simp: addProxy_def session_of_upd_user split: if_splits)
  show "w_hubOwner ?w i = Some (cn_user cn)" if "w_conns ?w i = Some cn" for i cn
    using that d(6)[of i cn] by (simp add: addProxy_def)
  show "w_hubOwner ?w n = None \<and> w_ptys ?w n = None \<and> w_proxies ?w n = None \<and> w_proxyOwner ?w n = None"
    if "w_next ?w \<le> n" for n
    using that d(7)[of n] by (simp add: addProxy_def)
qed

text \<open>A new connection: its hub has an empty table, its sender cannot be known to anybody.\<close>

lemma isolated_new_conn:
  assumes "isolated w" "cn_user cn = u" "hb_handlers (hs (w_next w)) = Map.empty"
    and "\<And>j. j \<noteq> w_next w \<Longrightarrow> hb_handlers (hs j) = hb_handlers (w_hubs w j)"
  shows "isolated (w\<lparr>w_hubs := hs, w_next := w_next w + 1, w_hubOwner := (w_hubOwner w)(w_next w \<mapsto> u),
           w_stats := st, w_conns := (w_conns w)(w_next w \<mapsto> cn)\<rparr>)" (is "isolated ?w")
proof (rule isolatedI)
  note d = isoD[OF assms(1)]
  have s: "session_of ?w = session_of w" by (simp add: session_of_def fun_eq_iff)
  have o: "w_hubOwner ?w j = Some v" if "w_hubOwner w j = Some v" for j v
    using that d(7)[of "w_next w"] by auto
  show "w_hubOwner ?w r = Some (ss_user s')"
    if "w_ptys ?w p = Some s'" "ss_sender s' = Some r" for p s' r
    using that d(1)[of p s' r] o by simp
  show "\<exists>v. w_hubOwner ?w r = Some v \<and> w_proxyOwner ?w q = Some v"
    if "w_proxies ?w q = Some ps" "r \<in> proxy_hubs ps" for q ps r
    using that d(2)[of q ps r] d(7)[of "w_next w"] by auto
  show "\<exists>v. w_hubOwner ?w i = Some v \<and> handler_owned ?w h v"
    if a: "hb_handlers (w_hubs ?w i) k = Some h" for i k h
  proof (cases "i = w_next w")
    case False
    then have "hb_handlers (w_hubs w i) k = Some h" using a assms(4) by simp
    from d(3)[OF this] obtain v where v: "w_hubOwner w i = Some v" "handler_owned w h v" by blast
    have "handler_owned ?w h v" using v(2) by (cases h) (auto simp: pty_owned_def proxy_owned_def)
    then show ?thesis using o v(1) by blast
  qed (use a assms(3) in simp)
  show "k \<noteq> 0 \<and> (\<exists>s. w_ptys ?w x = Some s \<and> ss_user s = v \<and> ss_chan s = k)"
    if "us_ptys (session_of ?w v) k = Some x" for v k x
    using that[unfolded s] d(4)[of v k x] by simp
  show "k \<noteq> 0 \<and> w_proxyOwner ?w x = Some v \<and> (\<exists>ps. w_proxies ?w x = Some ps \<and> px_chan ps = k)"
    if "us_proxies (session_of ?w v) k = Some x" for v k x
    using that[unfolded s] d(5)[of v k x] by simp
  show "w_hubOwner ?w i = Some (cn_user c)" if "w_conns ?w i = Some c" for i c
    using that d(6)[of i c] o[of i] assms(2) by (auto split: if_splits)
  show "w_hubOwner ?w n = None \<and> w_ptys ?w n = None \<and> w_proxies ?w n = None \<and> w_proxyOwner ?w n = None"
    if "w_next ?w \<le> n" for n
    using that d(7)[of n] by simp
qed


section \<open>The handlers\<close>

lemma shrinks_send: "shrinks (fst (send_to i f w)) w"
proof -
  obtain hs e where e: "store_send i f (w_hubs w) = (hs, e)" by fastforce
  then have "tables hs = tables (w_hubs w)" using tables_send[of i f "w_hubs w"] by simp
  then show ?thesis using e by (simp add: send_to_def shrinks_hubs)
qed

lemma shrinks_removePTY: "shrinks (removePTY u c w) w"
  unfolding removePTY_def
  by (auto split: option.splits
      intro: shrinks_trans[OF shrinks_upd_pty shrinks_registry_drop(1)] pty_less_ops)

lemma shrinks_removeProxy: "shrinks (removeProxy u c w) w"
  unfolding removeProxy_def
  by (auto split: option.splits
      intro: shrinks_trans[OF shrinks_upd_proxy shrinks_registry_drop(2)] proxy_less_ops)

lemma shrinks_unregister: "shrinks (unregister i c w) w"
proof -
  let ?w = "upd_hub i (\<lambda>h. fst (hub_unregister c h)) w"
  have s: "shrinks ?w w"
    by (rule shrinks_upd_hub) (auto simp: hub_unregister_def map_le_def split: option.splits)
  have "unregister i c w = ?w \<or> (\<exists>p. unregister i c w = upd_pty p session_close ?w)
      \<or> (\<exists>q. unregister i c w = upd_proxy q proxy_close ?w)"
    by (auto simp: unregister_def upd_hub_def hub_unregister_def Let_def
        split: option.splits handler.splits)
  then show ?thesis
    using s shrinks_trans[OF shrinks_upd_pty s] shrinks_trans[OF shrinks_upd_proxy s]
      pty_less_ops(1) proxy_less_ops(1) by (elim disjE exE) simp_all
qed

lemma shrinks_close_handlers:
  "shrinks (fst (handleClosePTY i u f w)) w" "shrinks (fst (handleCloseProxy i u f w)) w"
  unfolding handleClosePTY_def handleCloseProxy_def
  by (auto split: option.splits intro: shrinks_trans[OF shrinks_removePTY shrinks_unregister]
      shrinks_trans[OF shrinks_removeProxy shrinks_unregister])

lemma isolated_upd_pty:
  "isolated w \<Longrightarrow> (\<And>s. pty_less (Some (g s)) (Some s)) \<Longrightarrow> isolated (upd_pty p g w)"
  by (rule shrinks_isolated[OF shrinks_upd_pty])

text \<open>The outcomes of the two open handlers.\<close>

lemma handleOpenPTY_cases:
  obtains (bad) e where "handleOpenPTY env i u f w = (w, e)"
  | (failed) g where "handleOpenPTY env i u f w = send_to i g w"
  | (existing) c p g where "c \<noteq> 0" "us_ptys (session_of w u) c = Some p"
      "\<And>s. g s = s \<or> (\<exists>cols rows. g s = session_resize cols rows s)"
      "handleOpenPTY env i u f w
         = (upd_pty p g (run_pty p (session_attach store_send i)
              (upd_hub i (hub_register c (HPty p)) w)), None)"
  | (new) c s where "c \<noteq> 0" "ss_user s = u" "ss_chan s = c" "ss_sender s = None"
      "handleOpenPTY env i u f w
         = (run_pty (w_next w) (session_attach store_send i)
              (upd_hub i (hub_register c (HPty (w_next w)))
                (addPTY u c (w_next w) (with_pty s w))), None)"
proof (cases "unmarshal_OpenMsg (f_payload f)")
  case None
  then show ?thesis by (intro bad[of "Some BadMessage"]) (simp add: handleOpenPTY_def)
next
  case (Some msg)
  let ?ch = "om_channel msg"
  define resize where "resize = (\<lambda>s :: nat session. if om_cols msg > 0 \<and> om_rows msg > 0
                          then session_resize (om_cols msg) (om_rows msg) s else s)"
  have r: "resize s = s \<or> (\<exists>cols rows. resize s = session_resize cols rows s)" for s
    by (auto simp: resize_def)
  have z: "ss_user (resize s) = ss_user s" "ss_chan (resize s) = ss_chan s"
    "ss_sender (resize s) = ss_sender s" for s
    by (simp_all add: resize_def)
  define made where "made = (session_new (ce_os env) ?ch u (om_shell msg) (om_cwd msg)
                              :: pty_err + nat session)"
  consider "?ch = 0"
    | p where "?ch \<noteq> 0" "us_ptys (session_of w u) ?ch = Some p"
    | e where "?ch \<noteq> 0" "us_ptys (session_of w u) ?ch = None" "made = Inl e"
    | s where "?ch \<noteq> 0" "us_ptys (session_of w u) ?ch = None" "made = Inr s"
    by (cases "us_ptys (session_of w u) ?ch"; cases made) blast+
  then show ?thesis
  proof cases
    case 1
    then show ?thesis using Some by (intro bad[of "Some ReservedChannel"]) (simp add: handleOpenPTY_def)
  next
    case 2
    then show ?thesis using Some r by (intro existing) (auto simp: handleOpenPTY_def Let_def resize_def)
  next
    case 3
    then show ?thesis using Some by (intro failed) (simp add: handleOpenPTY_def Let_def made_def)
  next
    case 4
    have "ss_user s = u" "ss_chan s = ?ch" "ss_sender s = None"
      using 4(3) by (auto simp: made_def session_new_def split: sum.splits option.splits)
    then show ?thesis using Some 4 z
      by (intro new[of ?ch "resize s"]) (simp_all add: handleOpenPTY_def Let_def made_def resize_def
          with_pty_def)
  qed
qed

lemma handleOpenProxy_cases:
  obtains (bad) e where "handleOpenProxy env i u f w = (w, e)"
  | (failed) g where "handleOpenProxy env i u f w = send_to i g w"
  | (existing) c q where "c \<noteq> 0" "us_proxies (session_of w u) c = Some q"
      "handleOpenProxy env i u f w
         = (upd_hub i (hub_register c (HProxy q)) (upd_proxy q (proxy_attach i) w), None)"
  | (new) c ps where "c \<noteq> 0" "px_chan ps = c" "proxy_hubs ps \<subseteq> {i}"
      "handleOpenProxy env i u f w
         = (upd_hub i (hub_register c (HProxy (w_next w)))
              (addProxy u c (w_next w) (with_proxy u ps w)), None)"
proof (cases "unmarshal_open_proxy (f_payload f)")
  case None
  then show ?thesis by (intro bad[of "Some BadMessage"]) (simp add: handleOpenProxy_def)
next
  case (Some ct)
  obtain ch target where ct: "ct = (ch, target)" by fastforce
  define live where "live = Option.bind (us_proxies (session_of w u) ch)
     (\<lambda>q. case w_proxies w q of Some ps \<Rightarrow> if px_closed ps then None else Some q | None \<Rightarrow> None)"
  define made where "made = newPortProxySession (ce_dial env) ch target i"
  consider "ch = 0" | "ch \<noteq> 0" "target = []"
    | q where "ch \<noteq> 0" "target \<noteq> []" "live = Some q"
    | e where "ch \<noteq> 0" "target \<noteq> []" "live = None" "made = Inl e"
    | ps where "ch \<noteq> 0" "target \<noteq> []" "live = None" "made = Inr ps"
    by (cases live; cases made) blast+
  then show ?thesis
  proof cases
    case 1
    then show ?thesis
      using Some ct by (intro bad[of "Some ReservedChannel"]) (simp add: handleOpenProxy_def)
  next
    case 2
    then show ?thesis
      using Some ct by (intro bad[of "Some MissingTarget"]) (simp add: handleOpenProxy_def)
  next
    case 3
    have "us_proxies (session_of w u) ch = Some q"
      using 3(3) by (auto simp: live_def bind_eq_Some_conv split: option.splits if_splits)
    then show ?thesis
      using Some ct 3(1,2) 3(3)[unfolded live_def] by (intro existing) (simp_all add: handleOpenProxy_def)
  next
    case 4
    then show ?thesis
      using Some ct 4(1,2) 4(3)[unfolded live_def] 4(4)[unfolded made_def]
      by (intro failed) (simp add: handleOpenProxy_def)
  next
    case 5
    have "px_chan ps = ch" "proxy_hubs ps \<subseteq> {i}"
      using 5(4) by (auto simp: made_def newPortProxySession_def proxy_hubs_def split: option.splits)
    then show ?thesis
      using Some ct 5(1,2) 5(3)[unfolded live_def] 5(4)[unfolded made_def]
      by (intro new[of ch ps]) (simp_all add: handleOpenProxy_def Let_def with_proxy_def)
  qed
qed

lemma isolated_open_pty:
  assumes "isolated w" "w_hubOwner w i = Some u"
  shows "isolated (fst (handleOpenPTY env i u f w))"
proof (cases rule: handleOpenPTY_cases[of env i u f w])
  case (existing c p g)
  have o: "pty_owned w p u" using isoD(4)[OF assms(1) existing(2)] by (auto simp: pty_owned_def)
  let ?w1 = "upd_hub i (hub_register c (HPty p)) w"
  have 1: "isolated ?w1" by (rule isolated_register[OF assms]) (simp add: o)
  have "pty_less (Some (g s)) (Some s)" for s
    using existing(3)[of s] pty_less_ops(3) by auto
  moreover have "isolated (run_pty p (session_attach store_send i) ?w1)"
    by (rule isolated_attach_pty[OF 1, where u = u]) (simp_all add: assms(2) o)
  ultimately show ?thesis using existing(4) isolated_upd_pty by simp
next
  case (new c s)
  let ?p = "w_next w"
  let ?w2 = "addPTY u c ?p (with_pty s w)"
  have 2: "isolated ?w2" using new assms(1) by (intro isolated_new_pty) simp_all
  have o: "pty_owned ?w2 ?p u" by (simp add: pty_owned_def addPTY_def new(2))
  have ow: "w_hubOwner ?w2 i = Some u" using assms(2) by (simp add: addPTY_def)
  let ?w3 = "upd_hub i (hub_register c (HPty ?p)) ?w2"
  have 3: "isolated ?w3" by (rule isolated_register[OF 2 ow]) (simp add: o)
  have "isolated (run_pty ?p (session_attach store_send i) ?w3)"
    by (rule isolated_attach_pty[OF 3, where u = u]) (simp_all add: ow o)
  then show ?thesis using new(5) by simp
qed (use assms(1) shrinks_isolated[OF shrinks_send] in simp_all)

lemma isolated_open_proxy:
  assumes "isolated w" "w_hubOwner w i = Some u"
  shows "isolated (fst (handleOpenProxy env i u f w))"
proof (cases rule: handleOpenProxy_cases[of env i u f w])
  case (existing c q)
  have o: "proxy_owned w q u" using isoD(5)[OF assms(1) existing(2)] by (auto simp: proxy_owned_def)
  have 1: "isolated (upd_proxy q (proxy_attach i) w)"
    by (rule isolated_attach_proxy[OF assms o])
  have "isolated (upd_hub i (hub_register c (HProxy q)) (upd_proxy q (proxy_attach i) w))"
    by (rule isolated_register[OF 1, where u = u]) (use o assms(2) in \<open>simp_all add: proxy_owned_def upd_objects\<close>)
  then show ?thesis using existing(3) by simp
next
  case (new c ps)
  let ?w2 = "addProxy u c (w_next w) (with_proxy u ps w)"
  have 2: "isolated ?w2" by (rule isolated_new_proxy[OF assms(1) new(2,3) assms(2) new(1)])
  have "isolated (upd_hub i (hub_register c (HProxy (w_next w))) ?w2)"
    by (rule isolated_register[OF 2, where u = u]) (simp_all add: addProxy_def proxy_owned_def assms(2))
  then show ?thesis using new(4) by simp
qed (use assms(1) shrinks_isolated[OF shrinks_send] in simp_all)

lemma shrinks_set:
  "tables hs = tables (w_hubs w) \<Longrightarrow> shrinks (w\<lparr>w_fs := s, w_hubs := hs\<rparr>) w"
  "tables hs = tables (w_hubs w) \<Longrightarrow> shrinks (w\<lparr>w_stats := st, w_hubs := hs\<rparr>) w"
  "tables hs = tables (w_hubs w) \<Longrightarrow> shrinks (w\<lparr>w_hubs := hs, w_downloads := ds\<rparr>) w"
  by (simp_all add: shrinks_def session_of_def tables_def fun_eq_iff map_le_def)

lemma shrinks_files:
  "handleFileList meta txt store_send i s f (w_hubs w) = (hs, e) \<Longrightarrow> shrinks (w\<lparr>w_hubs := hs\<rparr>) w"
  "handleFileUpload store_send i f (w_fs w, w_hubs w) = ((s', hs), e')
     \<Longrightarrow> shrinks (w\<lparr>w_fs := s', w_hubs := hs\<rparr>) w"
proof -
  show "shrinks (w\<lparr>w_hubs := hs\<rparr>) w"
    if "handleFileList meta txt store_send i s f (w_hubs w) = (hs, e)"
    using tables_file_list[of meta "txt" i s f "w_hubs w"] by (simp only: that fst_conv shrinks_hubs)
  show "shrinks (w\<lparr>w_fs := s', w_hubs := hs\<rparr>) w"
    if "handleFileUpload store_send i f (w_fs w, w_hubs w) = ((s', hs), e')"
    using tables_upload[of i f "w_fs w" "w_hubs w"]
    by (simp only: that fst_conv snd_conv shrinks_set(1))
qed

lemma isolated_ctrl:
  assumes "isolated w" "w_hubOwner w i = Some u" "ctrl_handle_frame env i u f w = Some (w', e)"
  shows "isolated w'"
proof -
  note s = shrinks_isolated[OF _ assms(1)]
  have c: "isolated w'" if "handleClosePTY i u f w = (w', e) \<or> handleCloseProxy i u f w = (w', e)"
    using that s[OF shrinks_close_handlers(1)[of i u f w]] s[OF shrinks_close_handlers(2)[of i u f w]]
    by auto
  have o: "isolated w'" if "handleOpenPTY env i u f w = (w', e) \<or> handleOpenProxy env i u f w = (w', e)"
    using that isolated_open_pty[OF assms(1,2), of env f] isolated_open_proxy[OF assms(1,2), of env f]
    by auto
  have p: "isolated w'" if "send_to i g w = (w', e)" for g
    using s[OF shrinks_send[of i g w]] that by simp
  show ?thesis
    using assms(3) s[OF shrinks_other(1)] s[OF shrinks_other(2)] s[OF shrinks_files(1)]
      s[OF shrinks_files(2)] assms(1) c o p
    unfolding ctrl_handle_frame_def handlePortScan_def
    by (auto split: if_splits option.splits prod.splits)
qed

lemma isolated_message:
  assumes "isolated w" "ws_message env i m w = Some w'"
  shows "isolated w'"
proof (cases "w_conns w i")
  case (Some cn)
  note own = isoD(6)[OF assms(1) Some]
  show ?thesis
    using assms(2) Some isolated_ctrl[OF assms(1) own] assms(1)
      isolated_upd_pty[OF assms(1) pty_less_ops(5)]
      shrinks_isolated[OF shrinks_upd_proxy[OF proxy_less_ops(3)] assms(1)]
    by (auto simp: ws_message_def split: dispatch.splits handler.splits)
qed (use assms in \<open>simp add: ws_message_def\<close>)

section \<open>Connections\<close>

lemma isolated_registerHandlers:
  "isolated w \<Longrightarrow> w_hubOwner w i = Some u
     \<Longrightarrow> isolated (registerHandlers order u i w) \<and> w_hubOwner (registerHandlers order u i w) i = Some u"
proof (induction order arbitrary: w)
  case (Cons c cs)
  let ?step = "\<lambda>c w. case us_ptys (session_of w u) c of
         None \<Rightarrow> w
       | Some p \<Rightarrow> (case w_ptys w p of
            None \<Rightarrow> w | Some s \<Rightarrow> upd_hub i (hub_register (ss_chan s) (HPty p)) w)"
  have "isolated (?step c w) \<and> w_hubOwner (?step c w) i = Some u"
    using Cons.prems isoD(4)[OF Cons.prems(1), of u c]
    by (auto simp: pty_owned_def intro!: isolated_register split: option.splits)
  then show ?case using Cons.IH[of "?step c w"] by (simp add: registerHandlers_def)
qed (simp add: registerHandlers_def)

lemma isolated_registerProxyHandlers:
  "isolated w \<Longrightarrow> w_hubOwner w i = Some u
     \<Longrightarrow> isolated (registerProxyHandlers order u i w)
       \<and> w_hubOwner (registerProxyHandlers order u i w) i = Some u"
proof (induction order arbitrary: w)
  case (Cons c cs)
  let ?step = "\<lambda>c w. case us_proxies (session_of w u) c of
         None \<Rightarrow> w
       | Some q \<Rightarrow> (case w_proxies w q of
            None \<Rightarrow> w
          | Some ps \<Rightarrow> upd_hub i (hub_register (px_chan ps) (HProxy q)) (upd_proxy q (proxy_attach i) w))"
  have "isolated (upd_hub i (hub_register d (HProxy q)) (upd_proxy q (proxy_attach i) w))"
    if "us_proxies (session_of w u) c = Some q" for q d
  proof (rule isolated_register)
    have o: "proxy_owned w q u"
      using isoD(5)[OF Cons.prems(1) that] by (auto simp: proxy_owned_def)
    then show "isolated (upd_proxy q (proxy_attach i) w)"
      using Cons.prems by (intro isolated_attach_proxy)
    show "handler_owned (upd_proxy q (proxy_attach i) w) (HProxy q) u"
      using o by (simp add: proxy_owned_def upd_objects)
  qed (use Cons.prems in simp)
  then have "isolated (?step c w) \<and> w_hubOwner (?step c w) i = Some u"
    using Cons.prems by (auto split: option.splits)
  then show ?case using Cons.IH[of "?step c w"] by (simp add: registerProxyHandlers_def)
qed (simp add: registerProxyHandlers_def)

lemma fold_keeps: "(\<And>c w. g (step c w) = g w) \<Longrightarrow> g (fold step order w) = g w"
  by (induction order arbitrary: w) simp_all

lemma conns_fold [simp]:
  "w_conns (registerHandlers order u i w) = w_conns w"
  "w_conns (registerProxyHandlers order u i w) = w_conns w"
  "w_conns (detachHub order u w) = w_conns w" "w_conns (detachProxies order u w) = w_conns w"
  unfolding registerHandlers_def registerProxyHandlers_def detachHub_def detachProxies_def
  by (rule fold_keeps; simp split: option.splits)+

lemma shrinks_fold:
  "(\<And>c w. shrinks (step c w) w) \<Longrightarrow> shrinks (fold step order w) w"
  by (induction order arbitrary: w) (auto intro: shrinks_trans)

lemma shrinks_detach:
  "shrinks (detachHub order u w) w" "shrinks (detachProxies order u w) w"
  unfolding detachHub_def detachProxies_def
  by (rule shrinks_fold; auto split: option.splits
      intro: shrinks_upd_pty shrinks_upd_proxy pty_less_ops proxy_less_ops)+


lemma ws_connect_conn:
  assumes "isolated w"
    "collector_add ft store_send env (w_next w) (st0, (w_hubs w)(w_next w := hub_new)) = (sid, st, hs)"
  shows "isolated (w\<lparr>w_hubs := hs, w_next := w_next w + 1, w_hubOwner := (w_hubOwner w)(w_next w \<mapsto> u),
           w_stats := st, w_conns := (w_conns w)(w_next w \<mapsto> \<lparr>cn_user = u, cn_statsID = sid,
              cn_phase = ConnRunning\<rparr>)\<rparr>)"
proof (rule isolated_new_conn[OF assms(1)])
  have t: "tables hs = tables ((w_hubs w)(w_next w := hub_new))"
    using tables_add[of ft env "w_next w" st0 "(w_hubs w)(w_next w := hub_new)"]
    by (simp only: assms(2) snd_conv)
  show "hb_handlers (hs (w_next w)) = Map.empty"
    using fun_cong[OF t, of "w_next w"] by (simp add: tables_def hub_new_def)
  show "hb_handlers (hs j) = hb_handlers (w_hubs w j)" if "j \<noteq> w_next w" for j
    using fun_cong[OF t, of j] that by (simp add: tables_def)
qed simp

text \<open>The connection's world before its handlers are registered, and what is done to it.\<close>

definition opened :: "string \<Rightarrow> u64 \<Rightarrow> nat collector \<Rightarrow> (nat \<Rightarrow> handler hub) \<Rightarrow> world \<Rightarrow> world" where
  "opened u sid st hs w =
     (upd_user u (\<lambda>us. us) w)\<lparr>w_hubs := hs, w_next := w_next w + 1,
        w_hubOwner := (w_hubOwner w)(w_next w \<mapsto> u), w_stats := st,
        w_conns := (w_conns w)(w_next w \<mapsto> \<lparr>cn_user = u, cn_statsID = sid, cn_phase = ConnRunning\<rparr>)\<rparr>"

lemma ws_connect_steps:
  obtains sid st hs s w6 where
    "collector_add (ce_float_text env) store_send (ce_proc env) (w_next w)
       (w_stats w, (w_hubs w)(w_next w := hub_new)) = (sid, st, hs)"
    "w6 = registerProxyHandlers (ce_proxy_order env) u (w_next w)
            (registerHandlers (ce_pty_order env) u (w_next w)
              (upd_hub (w_next w) (hub_register 0 HCtrl) (opened u sid st hs w)))"
    "ws_connect env u w = w6\<lparr>w_fs := s\<rparr> \<or>
     (\<exists>f. ws_connect env u w = fst (send_to (w_next w) f (w6\<lparr>w_fs := s\<rparr>)))"
proof -
  obtain sid st hs where add: "collector_add (ce_float_text env) store_send (ce_proc env) (w_next w)
      (w_stats w, (w_hubs w)(w_next w := hub_new)) = (sid, st, hs)" by (metis prod.exhaust)
  let ?w6 = "registerProxyHandlers (ce_proxy_order env) u (w_next w)
            (registerHandlers (ce_pty_order env) u (w_next w)
              (upd_hub (w_next w) (hub_register 0 HCtrl) (opened u sid st hs w)))"
  obtain state s where ld: "loadDesktopState u (w_fs ?w6) = (state, s)" by fastforce
  have st: "w_stats (upd_user u (\<lambda>us. us) w) = w_stats w" by (simp add: upd_user_def)
  have "ws_connect env u w =
      (case sync_payload (ptyInfoList (ce_pty_order env) u (?w6\<lparr>w_fs := s\<rparr>))
              (proxyInfoList (ce_proxy_order env) u (?w6\<lparr>w_fs := s\<rparr>)) (home_dir (ce_os env) u)
              (case state of Inr (Some b) \<Rightarrow> Some b | _ \<Rightarrow> None) of
         None \<Rightarrow> ?w6\<lparr>w_fs := s\<rparr>
       | Some data \<Rightarrow> fst (send_to (w_next w) \<lparr>f_type = FrameSessionSync, f_chan = 0, f_payload = data\<rparr>
                          (?w6\<lparr>w_fs := s\<rparr>)))"
    using add ld by (simp add: ws_connect_def Let_def opened_def st cong: option.case_cong)
  then have "ws_connect env u w = ?w6\<lparr>w_fs := s\<rparr> \<or>
     (\<exists>f. ws_connect env u w = fst (send_to (w_next w) f (?w6\<lparr>w_fs := s\<rparr>)))"
    by (auto split: option.splits)
  then show ?thesis using add that by blast
qed

lemma isolated_opened:
  assumes "isolated w"
    "collector_add ft store_send env (w_next w) (st0, (w_hubs w)(w_next w := hub_new)) = (sid, st, hs)"
  shows "isolated (opened u sid st hs w)" "w_hubOwner (opened u sid st hs w) (w_next w) = Some u"
  using ws_connect_conn[of "upd_user u (\<lambda>us. us) w" ft env st0 sid st hs u]
    shrinks_isolated[OF shrinks_registry_drop(3) assms(1)] assms(2)
  by (simp_all add: opened_def)

lemma isolated_connected:
  assumes "isolated w" "w_hubOwner w i = Some u"
  shows "isolated (registerProxyHandlers po u i (registerHandlers ho u i (upd_hub i (hub_register 0 HCtrl) w)))
    \<and> w_hubOwner (registerProxyHandlers po u i (registerHandlers ho u i
         (upd_hub i (hub_register 0 HCtrl) w))) i = Some u"
proof -
  have "isolated (upd_hub i (hub_register 0 HCtrl) w)"
    by (rule isolated_register[OF assms]) simp
  then show ?thesis
    using isolated_registerHandlers isolated_registerProxyHandlers assms(2) by simp
qed

lemma isolated_connect:
  assumes "isolated w"
  shows "isolated (ws_connect env u w)"
  by (rule ws_connect_steps[of env w u])
    (auto intro!: shrinks_isolated[OF shrinks_send] shrinks_isolated[OF shrinks_other(1)]
      isolated_connected[THEN conjunct1] isolated_opened[OF assms])

lemma hub_close_table: "hb_handlers (hub_close h) \<subseteq>\<^sub>m hb_handlers h"
  by (simp add: hub_close_def close_handlers_def)

lemma shrinks_teardown: "shrinks (ws_teardown env i w) w"
proof (cases "w_conns w i")
  case (Some cn)
  have g: "shrinks (v\<lparr>w_conns := (w_conns v)(i \<mapsto> cn\<lparr>cn_phase := ph\<rparr>)\<rparr>) w"
    if "shrinks v w" for v ph
    using that Some by (auto simp: shrinks_def session_of_def)
  have r: "shrinks (w\<lparr>w_stats := st, w_conns := (w_conns w)(i := None)\<rparr>) w" for st
    by (auto simp: shrinks_def session_of_def)
  have c: "shrinks (upd_hub i hub_close w) w"
    by (rule shrinks_upd_hub[OF hub_close_table])
  show ?thesis
    using Some g[OF c] g[OF shrinks_detach(1)] g[OF shrinks_detach(2)] r
    by (cases "cn_phase cn") (simp_all add: ws_teardown_def Let_def)
qed (simp add: ws_teardown_def)

lemma isolated_teardown: "isolated w \<Longrightarrow> isolated (ws_teardown env i w)"
  by (rule shrinks_isolated[OF shrinks_teardown])

section \<open>Every event\<close>

lemma shrinks_run_pty:
  assumes "\<And>s hs. pty_less (Some (fst (g (s, hs)))) (Some s) \<and> tables (snd (g (s, hs))) = tables hs"
  shows "shrinks (run_pty p g w) w"
proof (cases "w_ptys w p")
  case (Some s)
  obtain s' hs where g: "g (s, w_hubs w) = (s', hs)" by fastforce
  then have *: "pty_less (Some s') (Some s)" "tables hs = tables (w_hubs w)"
    using assms[of s "w_hubs w"] by auto
  show ?thesis
    using Some g *(1) fun_cong[OF *(2)] by (auto simp: run_pty_def shrinks_def session_of_def tables_def)
qed (simp add: run_pty_def)

lemma shrinks_run_proxy:
  assumes "\<And>ps hs. proxy_less (Some (fst (g (ps, hs)))) (Some ps) \<and> tables (snd (g (ps, hs))) = tables hs"
  shows "shrinks (run_proxy q g w) w"
proof (cases "w_proxies w q")
  case (Some ps)
  obtain ps' hs where g: "g (ps, w_hubs w) = (ps', hs)" by fastforce
  then have *: "proxy_less (Some ps') (Some ps)" "tables hs = tables (w_hubs w)"
    using assms[of ps "w_hubs w"] by auto
  show ?thesis
    using Some g *(1) fun_cong[OF *(2)] by (auto simp: run_proxy_def shrinks_def session_of_def tables_def)
qed (simp add: run_proxy_def)

lemma shrinks_run_stats:
  assumes "\<And>c hs. tables (snd (g (c, hs))) = tables hs"
  shows "shrinks (run_stats g w) w"
proof -
  obtain st hs where g: "g (w_stats w, w_hubs w) = (st, hs)" by fastforce
  then have "tables hs = tables (w_hubs w)" using assms[of "w_stats w" "w_hubs w"] by simp
  then show ?thesis using g by (simp add: run_stats_def shrinks_set(2))
qed

lemma shrinks_run_download: "shrinks (run_download env reads k w) w"
proof -
  have t: "tables (fst (streamFileDownload (ce_file_text env) reads store_send i c did path s (w_hubs w)))
      = tables (w_hubs w)" for i c did path s
    by simp
  show ?thesis
    by (auto simp: run_download_def split: prod.splits intro!: shrinks_set(3) t)
qed

lemma writer_data_table: "hb_handlers (writer_data ok h) \<subseteq>\<^sub>m hb_handlers h"
  by (auto simp: writer_data_def hub_close_def close_handlers_def Let_def split: list.splits)

lemma pty_less_read: "pty_less (Some (fst (reader_read send data err (s, hs)))) (Some s)"
  by (auto simp: pty_less_def reader_read_def Let_def split: option.splits prod.splits)

lemma isolated_apply:
  assumes "isolated w"
  shows "isolated (world_apply e w)"
proof -
  note s = shrinks_isolated[OF _ assms]
  show ?thesis
  proof (cases e)
    case (EMessage env i m)
    then show ?thesis
      using isolated_message[OF assms, of env i m] assms by (simp split: option.splits)
  next
    case (EPtyRead p data err)
    have "shrinks (run_pty p (reader_read store_send data err) w) w"
      by (rule shrinks_run_pty) (simp add: pty_less_read)
    then show ?thesis using s EPtyRead by simp
  next
    case (EProxyLoop q)
    have "shrinks (run_proxy q (proxy_loop store_send) w) w"
      by (rule shrinks_run_proxy) (simp add: proxy_less_ops(5))
    then show ?thesis using s EProxyLoop by simp
  qed (use isolated_connect[OF assms] isolated_teardown[OF assms] s[OF shrinks_run_download]
        s[OF shrinks_upd_pty[OF pty_less_ops(4)]] s[OF shrinks_upd_proxy[OF proxy_less_ops(4)]]
        s[OF shrinks_upd_hub[OF writer_data_table]] s[OF shrinks_run_stats] tables_stats
        s[OF shrinks_upd_hub[OF hub_close_table]] in simp_all)
qed

lemma isolated_run: "isolated w \<Longrightarrow> isolated (world_run evs w)"
  by (induction evs arbitrary: w) (simp_all add: world_run_def isolated_apply)

lemma isolated_init: "isolated (world_init s uname hostname)"
  by (simp add: iso_defs world_init_def session_of_def newUserSession_def hub_new_def)

end
