(* ===== verification/User_Views.thy ===== *)
theory User_Views
  imports User_Isolation
begin

text \<open>
  What the events of one user leave alone: everything another user can see of the server
  except the file system and the statistics, which are shared.
\<close>

section \<open>Views\<close>

text \<open>The connections, terminals, proxies and registry of user \<open>v\<close>, and the rest of its traffic.\<close>

definition view_hubs :: "string \<Rightarrow> world \<Rightarrow> nat \<rightharpoonup> handler hub" where
  "view_hubs v w i = (if w_hubOwner w i = Some v then Some (w_hubs w i) else None)"

definition view_ptys :: "string \<Rightarrow> world \<Rightarrow> nat \<rightharpoonup> nat session" where
  "view_ptys v w p =
     (case w_ptys w p of None \<Rightarrow> None | Some s \<Rightarrow> if ss_user s = v then Some s else None)"

definition view_proxies :: "string \<Rightarrow> world \<Rightarrow> nat \<rightharpoonup> nat proxy" where
  "view_proxies v w q = (if w_proxyOwner w q = Some v then w_proxies w q else None)"

definition view_conns :: "string \<Rightarrow> world \<Rightarrow> nat \<rightharpoonup> connection" where
  "view_conns v w i =
     (case w_conns w i of None \<Rightarrow> None | Some cn \<Rightarrow> if cn_user cn = v then Some cn else None)"

definition view where
  "view v w = (view_hubs v w, view_ptys v w, view_proxies v w, view_conns v w, session_of w v)"

lemmas view_defs = view_def view_hubs_def view_ptys_def view_proxies_def view_conns_def

text \<open>The user whose connection, terminal or proxy an event belongs to.\<close>

fun event_user :: "world \<Rightarrow> event \<Rightarrow> string option" where
  "event_user w (EConnect env u) = Some u"
| "event_user w (EMessage env i m) = map_option cn_user (w_conns w i)"
| "event_user w (EClose i) = w_hubOwner w i"
| "event_user w (ETeardown env i) = map_option cn_user (w_conns w i)"
| "event_user w (EWriter i ok) = w_hubOwner w i"
| "event_user w (EPtyCheck p) = map_option ss_user (w_ptys w p)"
| "event_user w (EPtyRead p data err) = map_option ss_user (w_ptys w p)"
| "event_user w (EProxyRead q data err) = w_proxyOwner w q"
| "event_user w (EProxyLoop q) = w_proxyOwner w q"
| "event_user w (EDownload env reads k) =
     (if k < length (w_downloads w) then w_hubOwner w (fst (w_downloads w ! k)) else None)"
| "event_user w _ = None"

section \<open>Elementary changes\<close>

text \<open>Sending to one hub leaves the other hubs as they are.\<close>

definition sends_to :: "nat set \<Rightarrow> (nat \<Rightarrow> handler hub) \<Rightarrow> (nat \<Rightarrow> handler hub) \<Rightarrow> bool" where
  "sends_to R hs' hs \<longleftrightarrow> (\<forall>j. j \<notin> R \<longrightarrow> hs' j = hs j)"

lemma sends_to_refl [simp]: "sends_to R hs hs"
  by (simp add: sends_to_def)

lemma sends_to_trans: "sends_to R a b \<Longrightarrow> sends_to R b c \<Longrightarrow> sends_to R a c"
  by (simp add: sends_to_def)

lemma sends_send: "r \<in> R \<Longrightarrow> sends_to R (fst (store_send r f hs)) hs"
  by (auto simp: sends_to_def store_send_simps)

lemma sends_send_trans:
  "r \<in> R \<Longrightarrow> sends_to R hs1 hs \<Longrightarrow> sends_to R (fst (store_send r f hs1)) hs"
  by (rule sends_to_trans[OF sends_send])

lemma sends_sendD: "store_send r f hs = (hs', e) \<Longrightarrow> sends_to {r} hs' hs"
  using sends_send[of r "{r}" f hs] by simp

lemma sends_ops:
  "sends_to {r} (snd (session_attach store_send r (s, hs))) hs"
  "sends_to (set_option (ss_sender s)) (snd (reader_read store_send data err (s, hs))) hs"
  "sends_to (proxy_hubs ps) (snd (proxy_loop store_send (ps, hs))) hs"
    apply (auto simp: session_attach_def Let_def sends_send)[1]
   apply (auto simp: reader_read_def Let_def sends_send split: option.splits)[1]
  apply (auto simp: proxy_loop_def send_opt_def proxy_hubs_def Let_def sends_send
      split: option.splits proxy_pc.splits)
  done

lemma sends_download:
  "sends_to {r} (fst (download_loop store_send r c i tot off ts hs)) hs"
proof (induction ts arbitrary: off hs)
  case (Cons t ts)
  obtain cancelled data re where t: "t = (cancelled, data, re)" by (metis prod.exhaust)
  show ?case
    by (auto simp: t Let_def split: prod.splits read_end.splits
        dest!: sends_sendD intro: sends_to_trans[OF Cons.IH] sends_send_trans)
qed simp

lemma sends_stream:
  "sends_to {r} (fst (streamFileDownload tx reads store_send r c i path s hs)) hs"
  using sends_download[of r c i]
  by (auto simp: streamFileDownload_def Let_def split: sum.splits node.splits prod.splits
      intro: sends_send dest!: sends_sendD) (metis fst_conv sends_download)

lemma sends_file_list: "sends_to {r} (fst (handleFileList meta tx store_send r s f hs)) hs"
  by (simp add: handleFileList_def Let_def sends_send)

lemma sends_upload: "sends_to {r} (snd (fst (handleFileUpload store_send r f (s, hs)))) hs"
  by (auto simp: handleFileUpload_def split: sum.splits prod.splits option.splits dest!: sends_sendD)

lemma sends_add:
  "sends_to {r} (snd (snd (collector_add ft store_send env r (c, hs)))) hs"
  by (simp add: collector_add_def Let_def sends_send)

text \<open>A change of the hubs of user \<open>u\<close> only, and of one terminal or proxy of that user.\<close>

lemma view_hubs_change:
  assumes "sends_to R hs (w_hubs w)" "\<And>r. r \<in> R \<Longrightarrow> w_hubOwner w r \<noteq> Some v"
  shows "view v (w\<lparr>w_hubs := hs\<rparr>) = view v w"
proof -
  have "hs i = w_hubs w i" if "w_hubOwner w i = Some v" for i
    using that assms by (auto simp: sends_to_def)
  then show ?thesis by (simp add: view_defs session_of_def fun_eq_iff)
qed

lemma view_set [simp]:
  "view v (w\<lparr>w_fs := s\<rparr>) = view v w" "view v (w\<lparr>w_downloads := ds\<rparr>) = view v w"
  "view v (w\<lparr>w_stats := st\<rparr>) = view v w"
  by (simp_all add: view_defs session_of_def fun_eq_iff)

lemma view_upd_hub:
  "w_hubOwner w i \<noteq> Some v \<Longrightarrow> view v (upd_hub i g w) = view v w"
  unfolding upd_hub_def by (rule view_hubs_change[where R = "{i}"]) (auto simp: sends_to_def)

lemma view_upd_pty:
  assumes "w_ptys w p = Some s" "ss_user s \<noteq> v" "ss_user (g s) = ss_user s"
  shows "view v (upd_pty p g w) = view v w"
  using assms by (simp add: view_defs upd_pty_def session_of_def fun_eq_iff)

lemma view_upd_proxy:
  assumes "w_proxyOwner w q \<noteq> Some v"
  shows "view v (upd_proxy q g w) = view v w"
  using assms by (simp add: view_defs upd_proxy_def session_of_def fun_eq_iff split: option.splits)

lemma view_upd_user: "v \<noteq> u \<Longrightarrow> view v (upd_user u g w) = view v w"
  by (simp add: view_defs upd_user_def session_of_def fun_eq_iff)

lemma view_run_pty:
  assumes "w_ptys w p = Some s" "ss_user s \<noteq> v" "ss_user (fst (g (s, w_hubs w))) = ss_user s"
    "sends_to R (snd (g (s, w_hubs w))) (w_hubs w)" "\<And>r. r \<in> R \<Longrightarrow> w_hubOwner w r \<noteq> Some v"
  shows "view v (run_pty p g w) = view v w"
proof -
  obtain s' hs where g: "g (s, w_hubs w) = (s', hs)" by fastforce
  have "run_pty p g w = upd_pty p (\<lambda>_. s') (w\<lparr>w_hubs := hs\<rparr>)"
    using assms(1) g by (simp add: run_pty_def upd_pty_def)
  moreover have "view v (upd_pty p (\<lambda>_. s') (w\<lparr>w_hubs := hs\<rparr>)) = view v (w\<lparr>w_hubs := hs\<rparr>)"
    by (rule view_upd_pty[of _ _ s]) (use assms(1-3) g in simp_all)
  ultimately show ?thesis using view_hubs_change[of R hs w v] assms(4,5) g by simp
qed

lemma view_run_proxy:
  assumes "w_proxyOwner w q \<noteq> Some v" "w_proxies w q = Some ps"
    "sends_to R (snd (g (ps, w_hubs w))) (w_hubs w)" "\<And>r. r \<in> R \<Longrightarrow> w_hubOwner w r \<noteq> Some v"
  shows "view v (run_proxy q g w) = view v w"
proof -
  obtain ps' hs where g: "g (ps, w_hubs w) = (ps', hs)" by fastforce
  have "run_proxy q g w = upd_proxy q (\<lambda>_. ps') (w\<lparr>w_hubs := hs\<rparr>)"
    using assms(2) g by (simp add: run_proxy_def upd_proxy_def)
  moreover have "view v (upd_proxy q (\<lambda>_. ps') (w\<lparr>w_hubs := hs\<rparr>)) = view v (w\<lparr>w_hubs := hs\<rparr>)"
    by (rule view_upd_proxy) (use assms(1) in simp)
  ultimately show ?thesis using view_hubs_change[of R hs w v] assms(3,4) g by simp
qed


section \<open>The handlers of another user\<close>

lemma view_send:
  assumes "w_hubOwner w i \<noteq> Some v"
  shows "view v (fst (send_to i f w)) = view v w"
proof -
  obtain hs e where s: "store_send i f (w_hubs w) = (hs, e)" by fastforce
  show ?thesis
    using view_hubs_change[OF sends_sendD[OF s], of v] assms by (simp add: send_to_def s)
qed

lemma view_removePTY:
  assumes "isolated w" "v \<noteq> u"
  shows "view v (removePTY u c w) = view v w"
proof (cases "us_ptys (session_of w u) c")
  case (Some p)
  let ?w1 = "upd_user u (\<lambda>us. us\<lparr>us_ptys := (us_ptys us)(c := None)\<rparr>) w"
  obtain s where "w_ptys w p = Some s" "ss_user s = u" using isoD(4)[OF assms(1) Some] by blast
  then have "view v (upd_pty p session_close ?w1) = view v ?w1"
    using assms(2) by (intro view_upd_pty[of _ _ s]) simp_all
  then show ?thesis using Some view_upd_user[OF assms(2)] by (simp add: removePTY_def)
qed (simp add: removePTY_def)

lemma view_removeProxy:
  assumes "isolated w" "v \<noteq> u"
  shows "view v (removeProxy u c w) = view v w"
proof (cases "us_proxies (session_of w u) c")
  case (Some q)
  let ?w1 = "upd_user u (\<lambda>us. us\<lparr>us_proxies := (us_proxies us)(c := None)\<rparr>) w"
  have "view v (upd_proxy q proxy_close ?w1) = view v ?w1"
    using assms(2) isoD(5)[OF assms(1) Some] by (intro view_upd_proxy) simp
  then show ?thesis using Some view_upd_user[OF assms(2)] by (simp add: removeProxy_def)
qed (simp add: removeProxy_def)

lemma view_handler_op:
  assumes "isolated w" "v \<noteq> u" "handler_owned w h u"
    "\<And>s. ss_user (g s) = ss_user s"
  shows "h = HPty p \<Longrightarrow> view v (upd_pty p g w) = view v w"
    "h = HProxy q \<Longrightarrow> view v (upd_proxy q k w) = view v w"
  using assms view_upd_pty[of w p _ v g] view_upd_proxy[of w q v k]
  by (auto simp: pty_owned_def proxy_owned_def)

lemma view_unregister:
  assumes "isolated w" "v \<noteq> u" "w_hubOwner w i = Some u"
  shows "view v (unregister i c w) = view v w"
proof -
  let ?w1 = "upd_hub i (\<lambda>h. fst (hub_unregister c h)) w"
  have 1: "view v ?w1 = view v w" using assms by (intro view_upd_hub) simp
  have p: "view v (upd_pty p session_close ?w1) = view v ?w1" if "pty_owned w p u" for p
    using that assms(2) by (auto simp: pty_owned_def intro!: view_upd_pty)
  have q: "view v (upd_proxy q proxy_close ?w1) = view v ?w1" if "proxy_owned w q u" for q
    using that assms(2) by (auto simp: proxy_owned_def intro!: view_upd_proxy)
  show ?thesis
  proof (cases "hb_handlers (w_hubs w i) c")
    case (Some h)
    have o: "handler_owned w h u" using isoD(3)[OF assms(1) Some] assms(3) by simp
    then show ?thesis
      using Some 1 p q by (cases h) (simp_all add: unregister_def upd_hub_def hub_unregister_def)
  next
    case None
    have "unregister i c w = ?w1"
      by (simp add: unregister_def upd_hub_def hub_unregister_def None)
    then show ?thesis using 1 by simp
  qed
qed

lemma view_close_handlers:
  assumes "isolated w" "v \<noteq> u" "w_hubOwner w i = Some u"
  shows "view v (fst (handleClosePTY i u f w)) = view v w"
    "view v (fst (handleCloseProxy i u f w)) = view v w"
  using view_unregister[OF assms] view_removePTY[OF shrinks_isolated[OF shrinks_unregister assms(1)] assms(2)]
    view_removeProxy[OF shrinks_isolated[OF shrinks_unregister assms(1)] assms(2)]
  by (simp_all add: handleClosePTY_def handleCloseProxy_def split: option.splits)

lemma view_with:
  assumes "isolated w"
  shows "ss_user s \<noteq> v \<Longrightarrow> view v (with_pty s w) = view v w"
    "u \<noteq> v \<Longrightarrow> view v (with_proxy u ps w) = view v w"
  using isoD(7)[OF assms, of "w_next w"]
  by (simp_all add: view_defs fun_eq_iff)

lemma view_attach:
  assumes "w_ptys w p = Some s" "ss_user s \<noteq> v" "w_hubOwner w i \<noteq> Some v"
  shows "view v (run_pty p (session_attach store_send i) w) = view v w"
  by (rule view_run_pty[OF assms(1,2), where R = "{i}"]) (use assms(3) sends_ops(1) in simp_all)

lemma view_open_pty:
  assumes "isolated w" "v \<noteq> u" "w_hubOwner w i = Some u"
  shows "view v (fst (handleOpenPTY env i u f w)) = view v w"
proof -
  have i: "w_hubOwner w i \<noteq> Some v" using assms(2,3) by simp
  show ?thesis
  proof (cases rule: handleOpenPTY_cases[of env i u f w])
    case (existing c p g)
    obtain s where s: "w_ptys w p = Some s" "ss_user s \<noteq> v"
      using isoD(4)[OF assms(1) existing(2)] assms(2) by blast
    let ?w1 = "upd_hub i (hub_register c (HPty p)) w"
    let ?w2 = "run_pty p (session_attach store_send i) ?w1"
    have "ss_user (g t) = ss_user t" for t using existing(3)[of t] by auto
    then have "view v (upd_pty p g ?w2) = view v ?w2"
      using s by (intro view_upd_pty[of _ _ "fst (session_attach store_send i (s, w_hubs ?w1))"])
        (simp_all add: upd_objects)
    also have "\<dots> = view v ?w1" by (rule view_attach[of _ _ s]) (use s i in simp_all)
    also have "\<dots> = view v w" using i by (rule view_upd_hub)
    finally show ?thesis using existing(4) by simp
  next
    case (new c s)
    let ?p = "w_next w"
    let ?w1 = "with_pty s w"
    let ?w2 = "addPTY u c ?p ?w1"
    let ?w3 = "upd_hub i (hub_register c (HPty ?p)) ?w2"
    have "view v (run_pty ?p (session_attach store_send i) ?w3) = view v ?w3"
      by (rule view_attach[of _ _ s]) (use new i assms(2) in \<open>simp_all add: addPTY_def\<close>)
    also have "\<dots> = view v ?w2" by (rule view_upd_hub) (use i in \<open>simp add: addPTY_def\<close>)
    also have "\<dots> = view v ?w1" unfolding addPTY_def by (rule view_upd_user[OF assms(2)])
    also have "\<dots> = view v w" using view_with(1)[OF assms(1)] new assms(2) by simp
    finally show ?thesis using new(5) by simp
  qed (use view_send[OF i] in simp_all)
qed

lemma view_open_proxy:
  assumes "isolated w" "v \<noteq> u" "w_hubOwner w i = Some u"
  shows "view v (fst (handleOpenProxy env i u f w)) = view v w"
proof -
  have i: "w_hubOwner w i \<noteq> Some v" using assms(2,3) by simp
  show ?thesis
  proof (cases rule: handleOpenProxy_cases[of env i u f w])
    case (existing c q)
    then show ?thesis
      using isoD(5)[OF assms(1) existing(2)] assms(2) i view_upd_proxy[of w q v "proxy_attach i"]
        view_upd_hub[of "upd_proxy q (proxy_attach i) w" i v] by simp
  next
    case (new c ps)
    then show ?thesis
      using view_upd_hub[of "addProxy u c (w_next w) (with_proxy u ps w)" i v] i
        view_with(2)[OF assms(1)] view_upd_user[OF assms(2)] assms(2) by (simp add: addProxy_def)
  qed (use view_send[OF i] in simp_all)
qed

lemma view_set_hubs:
  assumes "sends_to {i} hs (w_hubs w)" "w_hubOwner w i \<noteq> Some v"
  shows "view v (w\<lparr>w_hubs := hs\<rparr>) = view v w" "view v (w\<lparr>w_fs := s, w_hubs := hs\<rparr>) = view v w"
    "view v (w\<lparr>w_hubs := hs, w_downloads := ds\<rparr>) = view v w"
proof -
  show 1: "view v (w\<lparr>w_hubs := hs\<rparr>) = view v w"
    by (rule view_hubs_change[OF assms(1)]) (use assms(2) in simp)
  have "view v (w\<lparr>w_fs := s, w_hubs := hs\<rparr>) = view v (w\<lparr>w_hubs := hs\<rparr>)"
    by (simp add: view_defs session_of_def fun_eq_iff)
  then show "view v (w\<lparr>w_fs := s, w_hubs := hs\<rparr>) = view v w" using 1 by simp
  show "view v (w\<lparr>w_hubs := hs, w_downloads := ds\<rparr>) = view v w" using 1 by simp
qed

lemma view_ctrl:
  assumes "isolated w" "v \<noteq> u" "w_hubOwner w i = Some u"
    "ctrl_handle_frame env i u f w = Some (w', e)"
  shows "view v w' = view v w"
proof -
  have i: "w_hubOwner w i \<noteq> Some v" using assms(2,3) by simp
  have handlers: "view v w' = view v w"
    if "handleOpenPTY env i u f w = (w', e) \<or> handleClosePTY i u f w = (w', e)
      \<or> handleOpenProxy env i u f w = (w', e) \<or> handleCloseProxy i u f w = (w', e)
      \<or> (\<exists>g. send_to i g w = (w', e))"
    using that view_open_pty[OF assms(1-3), of env f] view_open_proxy[OF assms(1-3), of env f]
      view_close_handlers[OF assms(1-3), of f] view_send[OF i] by (metis fst_conv)
  have files: "view v (w\<lparr>w_hubs := hs\<rparr>) = view v w"
    if "handleFileList meta tx store_send i s f (w_hubs w) = (hs, b)" for meta tx s hs b
    using view_set_hubs(1)[of i hs w v] i sends_file_list[of i meta tx s f "w_hubs w"] that by simp
  have upload: "view v (w\<lparr>w_fs := s', w_hubs := hs\<rparr>) = view v w"
    if "handleFileUpload store_send i f (w_fs w, w_hubs w) = ((s', hs), b)" for s' hs b
    using view_set_hubs(2)[of i hs w v] i sends_upload[of i f "w_fs w" "w_hubs w"] that by simp
  show ?thesis
    using assms(4) handlers files upload unfolding ctrl_handle_frame_def handlePortScan_def
    by (auto split: if_splits option.splits prod.splits)
qed

lemma view_message:
  assumes "isolated w" "w_conns w i = Some cn" "cn_user cn \<noteq> v" "ws_message env i m w = Some w'"
  shows "view v w' = view v w"
proof -
  note own = isoD(6)[OF assms(1,2)]
  show ?thesis
  proof (cases "hub_dispatch m (w_hubs w i)")
    case (Dispatch h f)
    then have "hb_handlers (w_hubs w i) (f_chan f) = Some h"
      by (auto simp: hub_dispatch_def split: inbound.splits option.splits sum.splits if_splits)
    then have h: "handler_owned w h (cn_user cn)" using isoD(3)[OF assms(1)] own by fastforce
    show ?thesis
    proof (cases h)
      case HCtrl
      then show ?thesis
        using assms(2-4) Dispatch view_ctrl[OF assms(1) _ own] by (auto simp: ws_message_def)
    next
      case (HPty p)
      then show ?thesis
        using assms(2-4) Dispatch h by (auto simp: ws_message_def pty_owned_def intro!: view_upd_pty)
    next
      case (HProxy q)
      then show ?thesis
        using assms(2-4) Dispatch h
        by (auto simp: ws_message_def proxy_owned_def intro!: view_upd_proxy)
    qed
  qed (use assms in \<open>simp_all add: ws_message_def\<close>)
qed


section \<open>Connections of another user\<close>

lemma view_fold:
  assumes "\<And>c w. P w \<Longrightarrow> P (step c w) \<and> view v (step c w) = view v w" "P w"
  shows "view v (fold step order w) = view v w"
  using assms(2) by (induction order arbitrary: w) (use assms(1) in auto)

lemma view_registerHandlers:
  assumes "w_hubOwner w i = Some u" "v \<noteq> u"
  shows "view v (registerHandlers order u i w) = view v w"
  unfolding registerHandlers_def
  by (rule view_fold[where P = "\<lambda>w. w_hubOwner w i = Some u"])
    (use assms in \<open>auto split: option.splits intro!: view_upd_hub\<close>)

lemma view_registerProxyHandlers:
  assumes "isolated w" "w_hubOwner w i = Some u" "v \<noteq> u"
  shows "view v (registerProxyHandlers order u i w) = view v w"
  unfolding registerProxyHandlers_def
proof (rule view_fold[where P = "\<lambda>w. isolated w \<and> w_hubOwner w i = Some u"])
  fix c w assume w: "isolated w \<and> w_hubOwner w i = Some u"
  have o: "w_proxyOwner w q \<noteq> Some v" if "us_proxies (session_of w u) c = Some q" for q
    using isoD(5)[OF conjunct1[OF w] that] assms(3) by simp
  let ?w' = "case us_proxies (session_of w u) c of None \<Rightarrow> w
         | Some q \<Rightarrow> (case w_proxies w q of None \<Rightarrow> w
            | Some ps \<Rightarrow> upd_hub i (hub_register (px_chan ps) (HProxy q)) (upd_proxy q (proxy_attach i) w))"
  have "isolated ?w' \<and> w_hubOwner ?w' i = Some u"
    using isolated_registerProxyHandlers[of w i u "[c]"] w by (simp add: registerProxyHandlers_def)
  moreover have "view v ?w' = view v w"
    using w assms(3) o view_upd_proxy[of w _ v "proxy_attach i"]
      view_upd_hub[of "upd_proxy _ (proxy_attach i) w" i v]
    by (simp split: option.splits)
  ultimately show "(isolated ?w' \<and> w_hubOwner ?w' i = Some u) \<and> view v ?w' = view v w" by blast
qed (use assms in simp)

lemma view_detach:
  assumes "isolated w" "v \<noteq> u"
  shows "view v (detachHub order u w) = view v w" "view v (detachProxies order u w) = view v w"
proof -
  note less = pty_less_ops(2) proxy_less_ops(2)
  show "view v (detachHub order u w) = view v w"
    unfolding detachHub_def
  proof (rule view_fold[where P = isolated])
    fix c w assume w: "isolated w"
    have "view v (upd_pty p session_detach w) = view v w"
      if "us_ptys (session_of w u) c = Some p" for p
      using isoD(4)[OF w that] assms(2) by (auto intro!: view_upd_pty)
    then show "isolated (case us_ptys (session_of w u) c of None \<Rightarrow> w | Some p \<Rightarrow> upd_pty p session_detach w)
      \<and> view v (case us_ptys (session_of w u) c of None \<Rightarrow> w | Some p \<Rightarrow> upd_pty p session_detach w) = view v w"
      using w shrinks_isolated[OF shrinks_upd_pty[OF less(1)] w] by (simp split: option.splits)
  qed (rule assms(1))
  show "view v (detachProxies order u w) = view v w"
    unfolding detachProxies_def
  proof (rule view_fold[where P = isolated])
    fix c w assume w: "isolated w"
    have "view v (upd_proxy q proxy_detach w) = view v w"
      if "us_proxies (session_of w u) c = Some q" for q
      using isoD(5)[OF w that] assms(2) by (auto intro!: view_upd_proxy)
    then show "isolated (case us_proxies (session_of w u) c of None \<Rightarrow> w | Some q \<Rightarrow> upd_proxy q proxy_detach w)
      \<and> view v (case us_proxies (session_of w u) c of None \<Rightarrow> w | Some q \<Rightarrow> upd_proxy q proxy_detach w) = view v w"
      using w shrinks_isolated[OF shrinks_upd_proxy[OF less(2)] w] by (simp split: option.splits)
  qed (rule assms(1))
qed

lemma view_new_conn:
  assumes "isolated w" "v \<noteq> u" "cn_user cn = u" "sends_to {w_next w} hs (w_hubs w)"
  shows "view v (w\<lparr>w_hubs := hs, w_next := n, w_hubOwner := (w_hubOwner w)(w_next w \<mapsto> u),
           w_stats := st, w_conns := (w_conns w)(w_next w \<mapsto> cn)\<rparr>) = view v w"
proof -
  have "w_conns w (w_next w) = None"
    using isoD(6)[OF assms(1), of "w_next w"] isoD(7)[OF assms(1), of "w_next w"]
    by (cases "w_conns w (w_next w)") auto
  then show ?thesis
    using assms isoD(7)[OF assms(1), of "w_next w"]
    by (simp add: view_defs session_of_def sends_to_def fun_eq_iff)
qed


lemma view_connect:
  assumes "isolated w" "v \<noteq> u"
  shows "view v (ws_connect env u w) = view v w"
proof (rule ws_connect_steps[of env w u])
  fix sid st hs s w6
  assume add: "collector_add (ce_float_text env) store_send (ce_proc env) (w_next w)
       (w_stats w, (w_hubs w)(w_next w := hub_new)) = (sid, st, hs)"
    and w6: "w6 = registerProxyHandlers (ce_proxy_order env) u (w_next w)
            (registerHandlers (ce_pty_order env) u (w_next w)
              (upd_hub (w_next w) (hub_register 0 HCtrl) (opened u sid st hs w)))"
    and c: "ws_connect env u w = w6\<lparr>w_fs := s\<rparr> \<or>
     (\<exists>f. ws_connect env u w = fst (send_to (w_next w) f (w6\<lparr>w_fs := s\<rparr>)))"
  let ?i = "w_next w" and ?w1 = "upd_user u (\<lambda>us. us) w" and ?w3 = "opened u sid st hs w"
  let ?w4 = "upd_hub ?i (hub_register 0 HCtrl) ?w3"
  let ?w5 = "registerHandlers (ce_pty_order env) u ?i ?w4"
  note 3 = isolated_opened[OF assms(1) add, of u]
  have "sends_to {?i} hs ((w_hubs w)(?i := hub_new))"
    using sends_add[of ?i "ce_float_text env" "ce_proc env" "w_stats w" "(w_hubs w)(?i := hub_new)"] add
    by simp
  then have "sends_to {?i} hs (w_hubs w)" by (simp add: sends_to_def)
  then have v3: "view v ?w3 = view v w"
    using view_new_conn[of ?w1 v u "\<lparr>cn_user = u, cn_statsID = sid, cn_phase = ConnRunning\<rparr>" hs
        st "?i + 1"] shrinks_isolated[OF shrinks_registry_drop(3) assms(1)]
      view_upd_user[OF assms(2)] assms(2)
    by (simp add: opened_def)
  have 4: "isolated ?w4" "w_hubOwner ?w4 ?i = Some u"
    using isolated_register[OF 3] 3(2) by simp_all
  have 5: "isolated ?w5 \<and> w_hubOwner ?w5 ?i = Some u" by (rule isolated_registerHandlers[OF 4])
  have "view v w6 = view v ?w5"
    unfolding w6 using 5 assms(2) by (intro view_registerProxyHandlers) simp_all
  also have "\<dots> = view v ?w4" by (rule view_registerHandlers[OF 4(2) assms(2)])
  also have "\<dots> = view v ?w3" by (rule view_upd_hub) (use 3 assms(2) in simp)
  finally have v6: "view v w6 = view v w" using v3 by simp
  have "w_hubOwner w6 ?i \<noteq> Some v"
    using isolated_connected[OF 3, of "ce_proxy_order env" "ce_pty_order env"] assms(2) by (simp add: w6)
  then have "view v (fst (send_to ?i f (w6\<lparr>w_fs := s\<rparr>))) = view v w6" for f
    using view_send[of "w6\<lparr>w_fs := s\<rparr>" ?i v f] by simp
  then show ?thesis using c v6 by auto
qed

lemma view_teardown:
  assumes "isolated w" "w_conns w i = Some cn" "cn_user cn \<noteq> v"
  shows "view v (ws_teardown env i w) = view v w"
proof -
  have g: "view v (w'\<lparr>w_conns := (w_conns w')(i \<mapsto> cn\<lparr>cn_phase := ph\<rparr>)\<rparr>) = view v w'"
    if "w_conns w' i = Some cn" for w' ph
    using assms(3) that by (simp add: view_defs session_of_def fun_eq_iff)
  have r: "view v (w\<lparr>w_stats := st, w_conns := (w_conns w)(i := None)\<rparr>) = view v w" for st
    using assms(2,3) by (simp add: view_defs session_of_def fun_eq_iff)
  have h: "view v (upd_hub i hub_close w) = view v w"
    using isoD(6)[OF assms(1,2)] assms(3) by (intro view_upd_hub) simp
  show ?thesis
    using assms(2) g[of "upd_hub i hub_close w"] h r g[of "detachHub (ce_pty_order env) (cn_user cn) w"]
      g[of "detachProxies (ce_proxy_order env) (cn_user cn) w"]
      view_detach[OF assms(1), of v "cn_user cn"] assms(3)
    by (cases "cn_phase cn") (simp_all add: ws_teardown_def Let_def)
qed

section \<open>One event\<close>

lemma view_download:
  assumes "k < length (w_downloads w)" "w_hubOwner w (fst (w_downloads w ! k)) \<noteq> Some v"
  shows "view v (run_download env reads k w) = view v w"
proof -
  obtain i c did path where d: "w_downloads w ! k = (i, c, did, path)" by (metis prod.exhaust)
  show ?thesis
    using assms view_set_hubs(3)[OF sends_stream, of w i v] by (simp add: run_download_def d)
qed

lemma view_event:
  assumes "isolated w" "event_user w e = Some u" "v \<noteq> u"
  shows "view v (world_apply e w) = view v w"
proof (cases e)
  case (EMessage env i m)
  then show ?thesis
    using assms view_message[OF assms(1), of i _ v env m] by (auto split: option.splits)
next
  case (ETeardown env i)
  then show ?thesis using assms view_teardown[OF assms(1), of i _ v env] by auto
next
  case (EPtyCheck p)
  then show ?thesis using assms(2,3) by (auto intro!: view_upd_pty)
next
  case (EPtyRead p data err)
  then obtain s where s: "w_ptys w p = Some s" "ss_user s = u" using assms(2) by auto
  have "w_hubOwner w r \<noteq> Some v" if "r \<in> set_option (ss_sender s)" for r
    using isoD(1)[OF assms(1) s(1)] that s(2) assms(3) by simp
  then show ?thesis
    using EPtyRead s assms(3) sends_ops(2)[of s]
      view_run_pty[of w p s v "reader_read store_send data err" "set_option (ss_sender s)"] by simp
next
  case (EProxyLoop q)
  have q: "w_proxyOwner w q = Some u" using EProxyLoop assms(2) by simp
  show ?thesis
  proof (cases "w_proxies w q")
    case (Some ps)
    have "w_hubOwner w r \<noteq> Some v" if "r \<in> proxy_hubs ps" for r
      using isoD(2)[OF assms(1) Some that] q assms(3) by auto
    then show ?thesis
      using EProxyLoop Some q assms(3) sends_ops(3)[of ps]
        view_run_proxy[of w q v ps "proxy_hubs ps" "proxy_loop store_send"] by simp
  qed (use EProxyLoop in \<open>simp add: run_proxy_def\<close>)
qed (use assms view_connect[OF assms(1)] view_upd_hub view_upd_proxy view_download
      in \<open>auto split: if_splits\<close>)


section \<open>Isolation of users\<close>

lemma connect_conn:
  "\<exists>cn. w_conns (ws_connect env u w) (w_next w) = Some cn \<and> cn_user cn = u"
proof (rule ws_connect_steps[of env w u])
  fix sid st hs s w6
  assume w6: "w6 = registerProxyHandlers (ce_proxy_order env) u (w_next w)
            (registerHandlers (ce_pty_order env) u (w_next w)
              (upd_hub (w_next w) (hub_register 0 HCtrl) (opened u sid st hs w)))"
    and c: "ws_connect env u w = w6\<lparr>w_fs := s\<rparr> \<or>
     (\<exists>f. ws_connect env u w = fst (send_to (w_next w) f (w6\<lparr>w_fs := s\<rparr>)))"
  have "w_conns w6 = w_conns (opened u sid st hs w)" by (simp add: w6)
  moreover have "w_conns (fst (send_to i f v)) = w_conns v" for i f v
    by (cases "store_send i f (w_hubs v)") (simp add: send_to_def)
  ultimately show ?thesis using c by (auto simp: opened_def)
qed

text \<open>C1. Isolation of users. In every world the server reaches, an event that belongs to one user
  (a message on that user's connection, a connect or a disconnect, output of that user's terminal
  or proxy, a chunk of a download) changes nothing of any other user: no frame is queued on
  another user's connection, no input reaches another user's terminal or proxy, and no entry of
  another user's registry appears, changes or goes away.\<close>

theorem user_isolation:
  assumes "w = world_run evs (world_init s uname hostname)"
    and "event_user w e = Some u" and "v \<noteq> u"
  shows "view v (world_apply e w) = view v w"
  using view_event[OF isolated_run[OF isolated_init]] assms by simp

theorem user_isolation_witness:
  "\<forall>env m s. view ''bob'' (world_apply (EMessage env 0 m)
                (world_run [EConnect env ''alice''] (world_init s None None)))
           = view ''bob'' (world_run [EConnect env ''alice''] (world_init s None None))"
proof (intro allI)
  fix env m s
  let ?w = "world_run [EConnect env ''alice''] (world_init s None None)"
  obtain cn where "w_conns ?w 0 = Some cn" "cn_user cn = ''alice''"
    using connect_conn[of env "''alice''" "world_init s None None"]
    by (auto simp: world_run_def world_init_def)
  then show "view ''bob'' (world_apply (EMessage env 0 m) ?w) = view ''bob'' ?w"
    by (intro user_isolation[where u = "''alice''"]) simp_all
qed

end
