(* ===== verification/Lost_Reference.thy ===== *)
theory Lost_Reference
  imports User_Isolation
begin

text \<open>
  References that cannot come back. A handler table of a hub gets its entries from few places:
  the control handler when a connection is made, and terminals and proxies that are in a user's
  registry or have just been made. A condition that all of these leave true is true for ever,
  whatever the events. The locale lists them; theory \<open>Session_Control\<close> uses it for a connection
  without a control handler and theory \<open>Open_Race\<close> for a terminal that nothing refers to.
\<close>

locale lost_reference =
  fixes lost :: "world \<Rightarrow> bool"
  assumes shrunk: "shrinks w' w \<Longrightarrow> lost w \<Longrightarrow> lost w'"
    and attached: "lost w \<Longrightarrow> lost (run_pty p (session_attach store_send j) w)"
    and pty_changed: "lost w \<Longrightarrow> lost (upd_pty p g w)"
    and proxy_changed: "lost w \<Longrightarrow> lost (upd_proxy q k w)"
    and registered_pty: "lost w \<Longrightarrow> c \<noteq> 0 \<Longrightarrow> us_ptys (session_of w u) c' = Some p \<Longrightarrow>
          lost (upd_hub j (hub_register c (HPty p)) w)"
    and registered_proxy: "lost w \<Longrightarrow> c \<noteq> 0 \<Longrightarrow> lost (upd_hub j (hub_register c (HProxy q)) w)"
    and new_pty: "lost w \<Longrightarrow> c \<noteq> 0 \<Longrightarrow>
          lost (upd_hub j (hub_register c (HPty (w_next w))) (addPTY u c (w_next w) (with_pty s w)))"
    and new_proxy: "lost w \<Longrightarrow> lost (addProxy u c (w_next w) (with_proxy u ps w))"
    and connected: "lost w \<Longrightarrow> tables hs = tables ((w_hubs w)(w_next w := hub_new)) \<Longrightarrow>
          lost (upd_hub (w_next w) (hub_register 0 HCtrl) (opened u sid st hs w))"

context lost_reference
begin

lemma sent: "lost w \<Longrightarrow> lost (fst (send_to i f w))"
  by (rule shrunk[OF shrinks_send])

lemma open_pty:
  assumes "lost w"
  shows "lost (fst (handleOpenPTY env j u f w))"
proof (cases rule: handleOpenPTY_cases[of env j u f w])
  case (existing c p g)
  then show ?thesis using assms by (simp add: pty_changed attached registered_pty)
next
  case (new c s)
  then show ?thesis using assms by (simp add: attached new_pty)
qed (use assms in \<open>simp_all add: sent\<close>)

lemma open_proxy:
  assumes "lost w"
  shows "lost (fst (handleOpenProxy env j u f w))"
  by (cases rule: handleOpenProxy_cases[of env j u f w])
    (use assms in \<open>simp_all add: sent registered_proxy proxy_changed new_proxy\<close>)

lemma control:
  assumes "lost w" "ctrl_handle_frame env j u f w = Some (w', e)"
  shows "lost w'"
proof -
  note s = shrunk[OF _ assms(1)]
  have c: "lost w'"
    if "handleClosePTY j u f w = (w', e) \<or> handleCloseProxy j u f w = (w', e)
      \<or> handleOpenPTY env j u f w = (w', e) \<or> handleOpenProxy env j u f w = (w', e)
      \<or> (\<exists>g. send_to j g w = (w', e))"
    using that s[OF shrinks_close_handlers(1)[of j u f]] s[OF shrinks_close_handlers(2)[of j u f]]
      open_pty[OF assms(1), of env j u f] open_proxy[OF assms(1), of env j u f]
      s[OF shrinks_send[of j _ w]] by (metis fst_conv)
  show ?thesis
    using assms(2) s[OF shrinks_other(1)] s[OF shrinks_other(2)] s[OF shrinks_files(1)]
      s[OF shrinks_files(2)] assms(1) c
    unfolding ctrl_handle_frame_def handlePortScan_def
    by (auto split: if_splits option.splits prod.splits)
qed

lemma message:
  assumes "lost w" "ws_message env j m w = Some w'"
  shows "lost w'"
  using assms control[OF assms(1)] pty_changed[OF assms(1)] proxy_changed[OF assms(1)]
  by (auto simp: ws_message_def split: option.splits dispatch.splits handler.splits)

text \<open>Handlers are registered under their object's channel, which is not 0.\<close>

lemma registers:
  assumes "isolated w" "w_hubOwner w j = Some u" "lost w"
  shows "lost (registerProxyHandlers po u j (registerHandlers ho u j w))"
proof -
  have fold: "lost (fold step cs w)"
    if "\<And>c w. isolated w \<and> w_hubOwner w j = Some u \<and> lost w \<Longrightarrow>
          isolated (step c w) \<and> w_hubOwner (step c w) j = Some u \<and> lost (step c w)"
      "isolated w \<and> w_hubOwner w j = Some u \<and> lost w" for step cs w
    using that(2) by (induction cs arbitrary: w) (use that(1) in auto)
  have h: "lost (registerHandlers ho u j w)"
    unfolding registerHandlers_def
  proof (rule fold)
    fix c w assume w: "isolated w \<and> w_hubOwner w j = Some u \<and> lost w"
    let ?w' = "case us_ptys (session_of w u) c of None \<Rightarrow> w
      | Some p \<Rightarrow> (case w_ptys w p of None \<Rightarrow> w
                  | Some s \<Rightarrow> upd_hub j (hub_register (ss_chan s) (HPty p)) w)"
    have "isolated ?w' \<and> w_hubOwner ?w' j = Some u"
      using isolated_registerHandlers[of w j u "[c]"] w by (simp add: registerHandlers_def)
    moreover have "lost ?w'"
      using w isoD(4)[of w u c] by (fastforce split: option.splits intro: registered_pty)
    ultimately show "isolated ?w' \<and> w_hubOwner ?w' j = Some u \<and> lost ?w'" by blast
  qed (use assms in simp)
  show ?thesis
    unfolding registerProxyHandlers_def
  proof (rule fold)
    fix c w assume w: "isolated w \<and> w_hubOwner w j = Some u \<and> lost w"
    let ?w' = "case us_proxies (session_of w u) c of None \<Rightarrow> w
      | Some q \<Rightarrow> (case w_proxies w q of None \<Rightarrow> w
         | Some ps \<Rightarrow> upd_hub j (hub_register (px_chan ps) (HProxy q)) (upd_proxy q (proxy_attach j) w))"
    have "isolated ?w' \<and> w_hubOwner ?w' j = Some u"
      using isolated_registerProxyHandlers[of w j u "[c]"] w by (simp add: registerProxyHandlers_def)
    moreover have "lost ?w'"
      using w isoD(5)[of w u c] proxy_changed
      by (fastforce split: option.splits intro: registered_proxy)
    ultimately show "isolated ?w' \<and> w_hubOwner ?w' j = Some u \<and> lost ?w'" by blast
  qed (use isolated_registerHandlers[OF assms(1,2)] h in simp)
qed

lemma connect:
  assumes "isolated w" "lost w"
  shows "lost (ws_connect env u w)"
proof (rule ws_connect_steps[of env w u])
  fix sid st hs s w6
  assume add: "collector_add (ce_float_text env) store_send (ce_proc env) (w_next w)
       (w_stats w, (w_hubs w)(w_next w := hub_new)) = (sid, st, hs)"
    and w6: "w6 = registerProxyHandlers (ce_proxy_order env) u (w_next w)
            (registerHandlers (ce_pty_order env) u (w_next w)
              (upd_hub (w_next w) (hub_register 0 HCtrl) (opened u sid st hs w)))"
    and c: "ws_connect env u w = w6\<lparr>w_fs := s\<rparr> \<or>
     (\<exists>f. ws_connect env u w = fst (send_to (w_next w) f (w6\<lparr>w_fs := s\<rparr>)))"
  let ?w3 = "opened u sid st hs w" and ?i = "w_next w"
  note 3 = isolated_opened[OF assms(1) add, of u]
  have "tables hs = tables ((w_hubs w)(?i := hub_new))"
    using tables_add[of "ce_float_text env" "ce_proc env" ?i "w_stats w" "(w_hubs w)(?i := hub_new)"]
    by (simp add: add)
  from connected[OF assms(2) this] have 4: "lost (upd_hub ?i (hub_register 0 HCtrl) ?w3)" .
  have "lost w6"
    unfolding w6
    by (rule registers[OF isolated_register[OF 3] _ 4]) (simp_all add: 3(2))
  then have "lost (w6\<lparr>w_fs := s\<rparr>)" by (rule shrunk[OF shrinks_other(1)])
  then show ?thesis using c sent by auto
qed

lemma applied:
  assumes "isolated w" "lost w"
  shows "lost (world_apply e w)"
proof -
  note s = shrunk[OF _ assms(2)]
  show ?thesis
  proof (cases e)
    case (EMessage env j m)
    then show ?thesis
      using message[OF assms(2), of env j m] assms(2) by (simp split: option.splits)
  next
    case (EPtyRead p data err)
    have "shrinks (run_pty p (reader_read store_send data err) w) w"
      by (rule shrinks_run_pty) (simp add: pty_less_read)
    then show ?thesis using s EPtyRead by simp
  next
    case (EProxyLoop q)
    have "shrinks (run_proxy q (proxy_loop store_send) w) w"
      by (rule shrinks_run_proxy) (simp add: proxy_less_ops(5))
    then show ?thesis using s EProxyLoop by simp
  qed (use connect[OF assms] s[OF shrinks_teardown] s[OF shrinks_run_download]
        s[OF shrinks_upd_pty[OF pty_less_ops(4)]] s[OF shrinks_upd_proxy[OF proxy_less_ops(4)]]
        s[OF shrinks_upd_hub[OF writer_data_table]] s[OF shrinks_run_stats] tables_stats
        s[OF shrinks_upd_hub[OF hub_close_table]] in simp_all)
qed

lemma for_ever: "isolated w \<Longrightarrow> lost w \<Longrightarrow> lost (world_run evs w)"
  by (induction evs arbitrary: w) (simp_all add: world_run_def applied isolated_apply)

end

end
