(* ===== verification/Session_Control.thy ===== *)
theory Session_Control
  imports User_Views Lost_Reference
begin

text \<open>
  What the control handler of \<open>internal/server/server.go\<close> promises about terminals: opening,
  re-attaching, closing, and what the teardown of a connection does to them.
\<close>

section \<open>Opening a terminal\<close>

lemma run_pty_state:
  assumes "w_ptys w p = Some s" "session_attach store_send i (s, w_hubs w) = (s', hs)"
  shows "run_pty p (session_attach store_send i) w
       = w\<lparr>w_ptys := (w_ptys w)(p \<mapsto> s\<lparr>ss_sender := Some i\<rparr>), w_hubs := hs\<rparr>"
  using assms by (auto simp: run_pty_def session_attach_def Let_def)

text \<open>The replay of a session's ring buffer into the queue of a hub.\<close>

definition replayed :: "nat session \<Rightarrow> handler hub \<Rightarrow> bytes list" where
  "replayed s h =
     (if rb_bytes (ss_ring s) \<noteq> [] \<and> 0 < hub_room h
      then [encode (data_frame (ss_chan s) (rb_bytes (ss_ring s)))] else [])"

lemma attach_hubs:
  assumes "session_attach store_send i (s, hs) = (s', hs')"
  shows "hub_outbox (hs' i) = hub_outbox (hs i) @ replayed s (hs i)"
    "hb_handlers (hs' j) = hb_handlers (hs j)"
proof -
  have "hs' = (if rb_bytes (ss_ring s) = [] then hs
               else fst (store_send i (data_frame (ss_chan s) (rb_bytes (ss_ring s))) hs))"
    using assms by (auto simp: session_attach_def Let_def split: if_splits)
  then show "hub_outbox (hs' i) = hub_outbox (hs i) @ replayed s (hs i)"
    using hub_store.send_outbox[of i _ hs] by (simp add: replayed_def)
  have "tables hs' = tables hs" using tables_ops(1)[of i s hs] by (simp add: assms)
  from fun_cong[OF this, of j] show "hb_handlers (hs' j) = hb_handlers (hs j)"
    by (simp add: tables_def)
qed

definition attached_to :: "world \<Rightarrow> nat \<Rightarrow> string \<Rightarrow> u16 \<Rightarrow> nat \<Rightarrow> nat session \<Rightarrow> bool" where
  "attached_to w i u c p s \<longleftrightarrow>
     us_ptys (session_of w u) c = Some p \<and> w_ptys w p = Some s \<and> ss_user s = u \<and> ss_chan s = c \<and>
     ss_sender s = Some i \<and> hb_handlers (w_hubs w i) c = Some (HPty p)"

lemma hub_register_simps [simp]:
  "hb_handlers (hub_register c h hb) = (hb_handlers hb)(c \<mapsto> h)"
  "hub_outbox (hub_register c h hb) = hub_outbox hb" "hub_room (hub_register c h hb) = hub_room hb"
  by (simp_all add: hub_register_def hub_outbox_def hub_room_def)

lemma resize_same [simp]:
  "ss_ring (session_resize c r s) = ss_ring s" "ss_reader (session_resize c r s) = ss_reader s"
  "ss_done (session_resize c r s) = ss_done s"
  by (simp_all add: session_resize_def)

lemma open_existing:
  assumes "isolated w" "unmarshal_OpenMsg (f_payload f) = Some msg"
    "us_ptys (session_of w u) (om_channel msg) = Some p" "handleOpenPTY env i u f w = (w', e)"
  shows "\<exists>s s'. w_ptys w p = Some s \<and> attached_to w' i u (om_channel msg) p s' \<and> e = None
    \<and> ss_ring s' = ss_ring s \<and> ss_reader s' = ss_reader s \<and> ss_done s' = ss_done s
    \<and> hub_outbox (w_hubs w' i) = hub_outbox (w_hubs w i) @ replayed s (w_hubs w i)
    \<and> w_next w' = w_next w"
proof -
  let ?c = "om_channel msg"
  obtain s where s: "?c \<noteq> 0" "w_ptys w p = Some s" "ss_user s = u" "ss_chan s = ?c"
    using isoD(4)[OF assms(1,3)] by blast
  let ?w1 = "upd_hub i (hub_register ?c (HPty p)) w"
  obtain s1 hs where a: "session_attach store_send i (s, w_hubs ?w1) = (s1, hs)" by fastforce
  define resize where "resize = (\<lambda>s :: nat session. if om_cols msg > 0 \<and> om_rows msg > 0
                          then session_resize (om_cols msg) (om_rows msg) s else s)"
  have z: "ss_user (resize t) = ss_user t" "ss_chan (resize t) = ss_chan t"
    "ss_sender (resize t) = ss_sender t" "ss_ring (resize t) = ss_ring t"
    "ss_reader (resize t) = ss_reader t" "ss_done (resize t) = ss_done t" for t
    by (simp_all add: resize_def)
  have "w_ptys ?w1 p = Some s" using s by simp
  note r = run_pty_state[OF this a]
  have w': "w' = upd_pty p resize (run_pty p (session_attach store_send i) ?w1) \<and> e = None"
    using assms(2-4) s(1) by (auto simp: handleOpenPTY_def Let_def resize_def)
  have h: "hub_outbox (hs i) = hub_outbox (w_hubs w i) @ replayed s (w_hubs w i)"
    "hb_handlers (hs i) ?c = Some (HPty p)"
    using attach_hubs[OF a] by (simp_all add: upd_objects replayed_def)
  show ?thesis
    using w' s h z assms(3) unfolding r attached_to_def
    by (simp add: upd_pty_def session_of_def upd_hub_def)
qed

lemma open_new:
  assumes "isolated w" "unmarshal_OpenMsg (f_payload f) = Some msg" "om_channel msg \<noteq> 0"
    "us_ptys (session_of w u) (om_channel msg) = None"
    "session_new (ce_os env) (om_channel msg) u (om_shell msg) (om_cwd msg) = Inr (s :: nat session)"
    "handleOpenPTY env i u f w = (w', e)"
  shows "\<exists>s'. attached_to w' i u (om_channel msg) (w_next w) s' \<and> ss_ring s' = ss_ring s
    \<and> ss_cmd s' = ss_cmd s \<and> w_next w' = w_next w + 1 \<and> e = None"
proof -
  let ?c = "om_channel msg" and ?p = "w_next w"
  define z where "z = (if om_cols msg > 0 \<and> om_rows msg > 0
                       then session_resize (om_cols msg) (om_rows msg) s else s)"
  have s: "ss_user s = u" "ss_chan s = ?c"
    using assms(5) by (auto simp: session_new_def split: sum.splits option.splits)
  have z: "ss_user z = u" "ss_chan z = ?c" "ss_ring z = ss_ring s" "ss_cmd z = ss_cmd s"
    using s by (simp_all add: z_def session_resize_def)
  let ?w3 = "upd_hub i (hub_register ?c (HPty ?p)) (addPTY u ?c ?p (with_pty z w))"
  obtain s1 hs where a: "session_attach store_send i (z, w_hubs ?w3) = (s1, hs)" by fastforce
  have "w_ptys ?w3 ?p = Some z" by (simp add: addPTY_def)
  note r = run_pty_state[OF this a]
  have h: "hb_handlers (hs i) ?c = Some (HPty ?p)"
    using attach_hubs(2)[OF a] by (simp add: upd_objects)
  have "w' = run_pty ?p (session_attach store_send i) ?w3 \<and> e = None"
    using assms(2-6) by (auto simp: handleOpenPTY_def Let_def z_def with_pty_def)
  then show ?thesis
    using z h r unfolding attached_to_def
    by (simp add: session_of_def addPTY_def upd_user_def upd_hub_def with_pty_def)
qed


section \<open>The control channel\<close>

text \<open>Connections that have lost their control handler stay without one.\<close>

definition no_control :: "world \<Rightarrow> nat \<Rightarrow> bool" where
  "no_control w i \<longleftrightarrow> i < w_next w \<and> hb_handlers (w_hubs w i) 0 = None"

lemma shrinks_no_control: "shrinks w' w \<Longrightarrow> no_control w i \<Longrightarrow> no_control w' i"
  using shrinksD(3,7)[of w' w] by (cases "hb_handlers (w_hubs w' i) 0") (auto simp: no_control_def)

lemma no_control_register:
  "no_control w i \<Longrightarrow> c \<noteq> 0 \<or> j \<noteq> i \<Longrightarrow> no_control (upd_hub j (hub_register c h) w) i"
  by (auto simp: no_control_def upd_objects)

lemma attach_tables:
  "hb_handlers (w_hubs (run_pty p (session_attach store_send j) w) i) = hb_handlers (w_hubs w i)"
proof (cases "w_ptys w p")
  case (Some s)
  obtain s' hs where a: "session_attach store_send j (s, w_hubs w) = (s', hs)" by fastforce
  show ?thesis using attach_hubs(2)[OF a, of i] by (simp add: run_pty_state[OF Some a])
qed (simp add: run_pty_def)

lemma opened_tables:
  assumes "tables hs = tables ((w_hubs w)(w_next w := hub_new))"
  shows "hb_handlers (w_hubs (upd_hub (w_next w) (hub_register 0 HCtrl) (opened u sid st hs w)) i)
    = (if i = w_next w then [0 \<mapsto> HCtrl] else hb_handlers (w_hubs w i))"
proof (cases "i = w_next w")
  case True
  then show ?thesis
    using fun_cong[OF assms, of "w_next w"] by (simp add: opened_def tables_def upd_hub_def hub_new_def)
next
  case False
  then show ?thesis
    using fun_cong[OF assms, of i] by (simp add: opened_def tables_def upd_hub_def)
qed

interpretation control_lost: lost_reference "\<lambda>w. no_control w i" for i
proof unfold_locales
  fix w :: world and j p q :: nat and c c' :: u16 and u s
  assume n: "no_control w i"
  show "no_control (run_pty p (session_attach store_send j) w) i"
    using n by (simp add: no_control_def attach_tables)
  show "no_control (upd_pty p g w) i" "no_control (upd_proxy q k w) i" for g k
    using n by (simp_all add: no_control_def)
  assume "c \<noteq> 0"
  have "no_control (addPTY u c (w_next w) (with_pty s w)) i"
    using n by (simp add: no_control_def addPTY_def)
  then show "no_control (upd_hub j (hub_register c (HPty (w_next w))) (addPTY u c (w_next w) (with_pty s w))) i"
    using \<open>c \<noteq> 0\<close> by (simp add: no_control_register)
next
  fix w u c ps
  assume "no_control w i"
  then show "no_control (addProxy u c (w_next w) (with_proxy u ps w)) i"
    by (simp add: no_control_def addProxy_def)
next
  fix w hs u sid st
  assume "no_control w i" "tables hs = tables ((w_hubs w)(w_next w := hub_new))"
  then show "no_control (upd_hub (w_next w) (hub_register 0 HCtrl) (opened u sid st hs w)) i"
    using opened_tables[of hs w u sid st i] by (simp add: no_control_def opened_def)
qed (simp_all add: shrinks_no_control no_control_register)

text \<open>A control frame on such a connection is discarded.\<close>

lemma no_control_ignores:
  assumes "no_control w i" "f_chan f = 0" "decodeFromBytes d = Inr f"
  shows "ws_message env i (InBinary d) w = Some w"
  using assms by (auto simp: ws_message_def hub_dispatch_def no_control_def split: option.splits)

section \<open>Closing a terminal\<close>

lemma removePTY_state:
  assumes "isolated w" "us_ptys (session_of w u) c = Some p"
  shows "us_ptys (session_of (removePTY u c w) u) c = None"
    "\<exists>s. w_ptys w p = Some s \<and> w_ptys (removePTY u c w) p = Some (session_close s)"
    "w_hubs (removePTY u c w) = w_hubs w" "w_next (removePTY u c w) = w_next w"
  using isoD(4)[OF assms] assms(2)
  by (auto simp: removePTY_def session_of_upd_user upd_objects)

lemma unregister_state:
  shows "hb_handlers (w_hubs (unregister i c w) i) c = None"
    "session_of (unregister i c w) = session_of w" "w_next (unregister i c w) = w_next w"
    "w_ptys w p = Some s \<Longrightarrow> w_ptys (unregister i c w) p \<in> {Some s, Some (session_close s)}"
proof -
  let ?w1 = "upd_hub i (\<lambda>h. fst (hub_unregister c h)) w"
  have u: "unregister i c w = ?w1 \<or> (\<exists>p. unregister i c w = upd_pty p session_close ?w1)
      \<or> (\<exists>q. unregister i c w = upd_proxy q proxy_close ?w1)"
    by (auto simp: unregister_def upd_hub_def hub_unregister_def Let_def
        split: option.splits handler.splits)
  have "hb_handlers (w_hubs ?w1 i) c = None"
    by (simp add: upd_objects hub_unregister_def split: option.splits)
  then show "hb_handlers (w_hubs (unregister i c w) i) c = None"
    "session_of (unregister i c w) = session_of w" "w_next (unregister i c w) = w_next w"
    "w_ptys w p = Some s \<Longrightarrow> w_ptys (unregister i c w) p \<in> {Some s, Some (session_close s)}"
    using u by (auto simp: upd_objects)
qed

lemma session_close_twice [simp]: "session_close (session_close s) = session_close s"
  by (simp add: session_close_def)

lemma closed_terminal:
  assumes "isolated w" "unmarshal_channel (f_payload f) = Some c" "us_ptys (session_of w u) c = Some p"
    "handleClosePTY i u f w = (w', e)"
  shows "us_ptys (session_of w' u) c = None \<and> hb_handlers (w_hubs w' i) c = None \<and> e = None
    \<and> (\<exists>s. w_ptys w p = Some s \<and> w_ptys w' p = Some (session_close s))"
proof -
  let ?w1 = "unregister i c w"
  have w': "w' = removePTY u c ?w1" "e = None" using assms(2,4) by (auto simp: handleClosePTY_def)
  obtain s where s: "w_ptys w p = Some s" using isoD(4)[OF assms(1,3)] by blast
  have 1: "isolated ?w1" by (rule shrinks_isolated[OF shrinks_unregister assms(1)])
  have 2: "us_ptys (session_of ?w1 u) c = Some p" using assms(3) by (simp add: unregister_state(2))
  show ?thesis
    using removePTY_state[OF 1 2] unregister_state(1)[of i c w] unregister_state(4)[OF s, of i c] s w'
    by auto
qed


section \<open>Disconnecting\<close>

lemma detachHub_detaches:
  assumes "us_ptys (session_of w u) c = Some p" "c \<in> set order" "w_ptys w p = Some s"
  shows "\<exists>s'. w_ptys (detachHub order u w) p = Some s' \<and> ss_sender s' = None"
proof -
  let ?step = "\<lambda>c w. case us_ptys (session_of w u) c of None \<Rightarrow> w | Some p \<Rightarrow> upd_pty p session_detach w"
  let ?off = "\<lambda>w. \<exists>s'. w_ptys w p = Some s' \<and> ss_sender s' = None"
  have keep: "?off (fold ?step cs v)" if "?off v" for cs v
    using that
  proof (induction cs arbitrary: v)
    case (Cons d cs)
    then have "?off (?step d v)" by (auto simp: upd_objects split: option.splits)
    then show ?case using Cons.IH by simp
  qed simp
  have "?off (fold ?step cs v)"
    if "c \<in> set cs" "us_ptys (session_of v u) c = Some p" "\<exists>s. w_ptys v p = Some s" for cs v
    using that
  proof (induction cs arbitrary: v)
    case (Cons d cs)
    show ?case
    proof (cases "d = c")
      case True
      then have "?off (?step d v)" using Cons.prems by (auto simp: upd_objects)
      then show ?thesis using keep by simp
    next
      case False
      have "us_ptys (session_of (?step d v) u) c = Some p" "\<exists>s. w_ptys (?step d v) p = Some s"
        using Cons.prems by (auto simp: upd_objects split: option.splits)
      then show ?thesis using Cons.IH False Cons.prems(1) by simp
    qed
  qed simp
  then show ?thesis using assms by (auto simp: detachHub_def)
qed

lemma detached_read:
  assumes "w_ptys w p = Some s" "ss_sender s = None"
  shows "w_hubs (run_pty p (reader_read store_send data err) w) = w_hubs w"
  using assms by (simp add: run_pty_def reader_read_def Let_def)

section \<open>Properties\<close>

text \<open>C8. One OpenPTY, in every world the server reaches and with no other handler of the user
  running between its lookup and its registration. If the user has no terminal on the channel
  and the shell starts, a new session with that shell is registered for the user, the hub routes
  the channel to it and it sends to the hub. If the user already has one, from whichever
  connection it was opened, this connection is attached to it instead: no shell is started, the
  output kept in the ring buffer is queued at once, and the terminal itself is as it was, even
  when its shell has ended and no output will ever follow. Two handlers that do interleave can
  each start a shell: theory \<open>Open_Race\<close>.\<close>

theorem open_terminal:
  assumes "w = world_run evs (world_init s uname hostname)" and "w_conns w i = Some cn"
    and "unmarshal_OpenMsg (f_payload f) = Some msg" and "om_channel msg \<noteq> 0"
    and "handleOpenPTY env i (cn_user cn) f w = (w', e)"
  shows "case us_ptys (session_of w (cn_user cn)) (om_channel msg) of
      Some p \<Rightarrow>
        \<exists>t t'. w_ptys w p = Some t \<and> attached_to w' i (cn_user cn) (om_channel msg) p t' \<and> e = None
          \<and> ss_ring t' = ss_ring t \<and> ss_reader t' = ss_reader t \<and> ss_done t' = ss_done t
          \<and> hub_outbox (w_hubs w' i) = hub_outbox (w_hubs w i) @ replayed t (w_hubs w i)
          \<and> w_next w' = w_next w
    | None \<Rightarrow>
        \<forall>t. session_new (ce_os env) (om_channel msg) (cn_user cn) (om_shell msg) (om_cwd msg)
            = Inr (t :: nat session) \<longrightarrow>
          (\<exists>t'. attached_to w' i (cn_user cn) (om_channel msg) (w_next w) t'
            \<and> ss_cmd t' = ss_cmd t \<and> e = None)"
proof -
  have "isolated w" using assms(1) isolated_run[OF isolated_init] by simp
  then show ?thesis
    using open_existing[OF _ assms(3) _ assms(5)] open_new[OF _ assms(3,4) _ _ assms(5)]
    by (auto split: option.split)
qed

text \<open>ClosePTY ends the terminal: its session is closed, the user's registry and the hub
  forget the channel, and a frame on that channel finds no handler.\<close>

theorem close_terminal:
  assumes "w = world_run evs (world_init s uname hostname)"
    and "unmarshal_channel (f_payload f) = Some c" and "us_ptys (session_of w u) c = Some p"
    and "handleClosePTY i u f w = (w', e)" and "length (f_payload g) \<le> maxPayloadSize" and "f_chan g = c"
  shows "us_ptys (session_of w' u) c = None
    \<and> (\<exists>t. w_ptys w p = Some t \<and> w_ptys w' p = Some (session_close t) \<and> ss_done (session_close t))
    \<and> hub_dispatch (InBinary (encode g)) (w_hubs w' i) = NoHandler g"
proof -
  have "isolated w" using assms(1) isolated_run[OF isolated_init] by simp
  moreover have "decodeFromBytes (encode g) = Inr g"
    unfolding decodeFromBytes_ok_iff using assms(5) by simp
  ultimately show ?thesis
    using closed_terminal[OF _ assms(2-4)] assms(6)
    by (auto simp: hub_dispatch_def session_close_def)
qed

text \<open>C34. A ClosePTY or CloseProxy frame for channel 0 takes the control handler itself out of the
  hub, where opening refuses channel 0 as reserved. From then on, whatever happens, no control
  frame of that connection is handled again.\<close>

theorem control_channel_lost:
  assumes "w = world_run evs (world_init s uname hostname)" and "i < w_next w"
    and "f_type f = FrameClosePTY \<or> f_type f = FrameCloseProxy"
    and "unmarshal_channel (f_payload f) = Some 0"
    and "ctrl_handle_frame env i u f w = Some (w', e)"
    and "w2 = world_run later w'" and "f_chan g = 0" and "decodeFromBytes d = Inr g"
  shows "e = None \<and> ws_message env' i (InBinary d) w2 = Some w2"
proof -
  have w: "isolated w" using assms(1) isolated_run[OF isolated_init] by simp
  have "w' = removePTY u 0 (unregister i 0 w) \<or> w' = removeProxy u 0 (unregister i 0 w)" and e: "e = None"
    using assms(3-5)
    by (auto simp: ctrl_handle_frame_def handleClosePTY_def handleCloseProxy_def)
  moreover have "no_control (unregister i 0 w) i"
    using assms(2) by (simp add: no_control_def unregister_state)
  moreover have "isolated (unregister i 0 w)" by (rule shrinks_isolated[OF shrinks_unregister w])
  ultimately have "no_control w' i \<and> isolated w'"
    using shrinks_no_control[OF shrinks_removePTY] shrinks_no_control[OF shrinks_removeProxy]
      shrinks_isolated[OF shrinks_removePTY] shrinks_isolated[OF shrinks_removeProxy] by blast
  then have "no_control w2 i" using assms(6) control_lost.for_ever by blast
  then show ?thesis using no_control_ignores[OF _ assms(7,8)] e by simp
qed

text \<open>C33. The teardown of a connection detaches every terminal of its user, also one that is
  attached to another, live connection of that user: after it the terminal has no sender, and
  what the shell prints reaches no connection until some client sends OpenPTY again.\<close>

theorem stale_teardown:
  assumes "w = world_run evs (world_init s uname hostname)"
    and "w_conns w i = Some cn" and "cn_phase cn = ConnRunning" and "i \<noteq> j"
    and "attached_to w j (cn_user cn) c p t" and "c \<in> set (ce_pty_order env)"
    and "w' = world_run [ETeardown env i, ETeardown env i] w"
  shows "(\<exists>t'. w_ptys w' p = Some t' \<and> ss_sender t' = None)
    \<and> w_hubs w' j = w_hubs w j
    \<and> w_hubs (world_apply (EPtyRead p data err) w') = w_hubs w'"
proof -
  let ?w1 = "(upd_hub i hub_close w)\<lparr>w_conns := (w_conns w)(i \<mapsto> cn\<lparr>cn_phase := ConnDetachPtys\<rparr>)\<rparr>"
  let ?w2 = "detachHub (ce_pty_order env) (cn_user cn) ?w1"
  have w': "w' = ?w2\<lparr>w_conns := (w_conns ?w2)(i \<mapsto> cn\<lparr>cn_phase := ConnDetachProxies\<rparr>)\<rparr>"
    using assms(2,3,7) by (simp add: world_run_def ws_teardown_def Let_def)
  have r: "us_ptys (session_of ?w1 (cn_user cn)) c = Some p" "w_ptys ?w1 p = Some t"
    using assms(5) by (simp_all add: attached_to_def session_of_def upd_hub_def)
  obtain t' where t': "w_ptys ?w2 p = Some t'" "ss_sender t' = None"
    using detachHub_detaches[OF r(1) assms(6) r(2)] by blast
  have "w_hubs ?w2 = w_hubs ?w1"
    unfolding detachHub_def by (rule fold_keeps) (simp split: option.splits)
  then have "w_hubs w' j = w_hubs w j" using assms(4) by (simp add: w' upd_objects)
  then show ?thesis using t' detached_read[of w' p t'] by (simp add: w')
qed

text \<open>C5. The types of references. In every reachable world the entries of a user's registry are
  terminals and proxies of that user under their own channel, never channel 0; a handler table
  names existing objects of the user whose connection it belongs to; and what a terminal or a
  proxy sends to is a connection that was made for its user.\<close>

theorem references_resolve:
  assumes "w = world_run evs (world_init s uname hostname)"
  shows "(\<forall>u c p. us_ptys (session_of w u) c = Some p \<longrightarrow>
        c \<noteq> 0 \<and> (\<exists>t. w_ptys w p = Some t \<and> ss_user t = u \<and> ss_chan t = c))
    \<and> (\<forall>u c q. us_proxies (session_of w u) c = Some q \<longrightarrow>
        c \<noteq> 0 \<and> w_proxyOwner w q = Some u \<and> (\<exists>ps. w_proxies w q = Some ps \<and> px_chan ps = c))
    \<and> (\<forall>i c p. hb_handlers (w_hubs w i) c = Some (HPty p) \<longrightarrow>
        (\<exists>t. w_ptys w p = Some t \<and> w_hubOwner w i = Some (ss_user t)))
    \<and> (\<forall>i c q. hb_handlers (w_hubs w i) c = Some (HProxy q) \<longrightarrow>
        (\<exists>ps. w_proxies w q = Some ps) \<and> w_hubOwner w i = w_proxyOwner w q)
    \<and> (\<forall>p t i. w_ptys w p = Some t \<and> ss_sender t = Some i \<longrightarrow> i < w_next w \<and> w_hubOwner w i = Some (ss_user t))
    \<and> (\<forall>q ps i. w_proxies w q = Some ps \<and> px_hub ps = Some i \<longrightarrow> i < w_next w \<and> w_hubOwner w i = w_proxyOwner w q)"
proof -
  have "isolated w" using assms isolated_run[OF isolated_init] by simp
  note d = isoD[OF this]
  have n: "i < w_next w" if "w_hubOwner w i = Some u" for i u
    using d(7)[of i] that by (cases "i < w_next w") auto
  have h: "hb_handlers (w_hubs w i) c = Some (HPty p) \<Longrightarrow> \<exists>t. w_ptys w p = Some t \<and> w_hubOwner w i = Some (ss_user t)"
    "hb_handlers (w_hubs w i) c = Some (HProxy q) \<Longrightarrow> (\<exists>ps. w_proxies w q = Some ps) \<and> w_hubOwner w i = w_proxyOwner w q"
    for i c p q
    using d(3)[of i c "HPty p"] d(3)[of i c "HProxy q"] by (auto simp: pty_owned_def proxy_owned_def)
  have p: "i < w_next w \<and> w_hubOwner w i = w_proxyOwner w q"
    if "w_proxies w q = Some ps" "px_hub ps = Some i" for q ps i
    using d(2)[OF that(1), of i] that(2) n by (auto simp: proxy_hubs_def)
  show ?thesis using d(1,4,5) n h p by (intro conjI allI impI) blast+
qed

section \<open>A small world for the witnesses\<close>

definition channel_json :: "char \<Rightarrow> string" where
  "channel_json d = ''{'' @ [CHR 0x22] @ ''channel'' @ [CHR 0x22] @ '':'' @ [d] @ ''}''"

lemma channel_json_lex:
  "lex LexIdle (channel_json CHR ''5'')
     = Some [TBeginObj, TValue (JStr ''channel''), TColon, TValue (JNum ''5''), TEndObj]"
  "lex LexIdle (channel_json CHR ''0'')
     = Some [TBeginObj, TValue (JStr ''channel''), TColon, TValue (JNum ''0''), TEndObj]"
  by code_simp+

lemma channel_json_fields:
  "unmarshal_fields (bytes_of_string (channel_json CHR ''5'')) = Some [(''channel'', JNum ''5'')]"
  "unmarshal_fields (bytes_of_string (channel_json CHR ''0'')) = Some [(''channel'', JNum ''0'')]"
  by (simp_all add: unmarshal_fields_def json_of_string_def channel_json_lex max_depth_def)

lemma channel_json_values:
  "field_values ''channel'' [(''channel'', v)] = [v]"
  "n \<in> {''shell'', ''cwd'', ''cols'', ''rows''} \<Longrightarrow> field_values n [(''channel'', v)] = []"
  unfolding field_values_def insert_iff empty_iff
   apply simp
  apply (elim disjE FalseE; simp only:; code_simp)
  done

lemma channel_json_numbers: "parse_uint 64 ''5'' = (5, False)" "parse_uint 64 ''0'' = (0, False)"
  by (simp_all add: parse_uint_def is_digit_def less_eq_char_def digit_val_def Let_def)

lemma channel_json_unmarshal:
  "unmarshal_channel (bytes_of_string (channel_json CHR ''5'')) = Some 5"
  "unmarshal_channel (bytes_of_string (channel_json CHR ''0'')) = Some 0"
  "unmarshal_OpenMsg (bytes_of_string (channel_json CHR ''5''))
     = Some \<lparr>om_channel = 5, om_shell = [], om_cwd = [], om_cols = 0, om_rows = 0\<rparr>"
  by (simp_all add: unmarshal_channel_def unmarshal_OpenMsg_def channel_json_fields u16_field_def
      string_field_def channel_json_values channel_json_numbers)

definition demo_scan :: scan_env where
  "demo_scan = \<lparr>sc_tcp = None, sc_tcp6 = None, sc_fds = [], sc_comm = (\<lambda>_. None), sc_cmdline = (\<lambda>_. None),
     sc_inodes = [], sc_ports = []\<rparr>"

definition demo_ctl :: ctl_env where
  "demo_ctl = \<lparr>ce_os = demo_os, ce_dial = None, ce_io_ok = True, ce_proc = demo_env, ce_scan = demo_scan,
     ce_meta = (\<lambda>_ _. (0, [])), ce_faults = \<lparr>sf_write = None, sf_close = False, sf_rename = False\<rparr>,
     ce_random = ''1'', ce_fuel = 0, ce_float_text = (\<lambda>_. ''0''), ce_pty_text = (\<lambda>_. []),
     ce_proxy_text = (\<lambda>_. []), ce_file_text = (\<lambda>_. []), ce_pty_order = [5], ce_proxy_order = []\<rparr>"

definition control_frame :: "byte \<Rightarrow> char \<Rightarrow> frame" where
  "control_frame t d = \<lparr>f_type = t, f_chan = 0, f_payload = bytes_of_string (channel_json d)\<rparr>"

text \<open>Two connections of one user, who opens a terminal on the second.\<close>

definition demo_events :: "event list" where
  "demo_events = [EConnect demo_ctl ''a'', EConnect demo_ctl ''a'',
                  EMessage demo_ctl 1 (InBinary (encode (control_frame FrameOpenPTY CHR ''5'')))]"

definition demo_world :: world where
  "demo_world = world_run demo_events (world_init demo_fs None None)"

lemma registers_empty:
  "us_ptys (session_of w u) = Map.empty \<Longrightarrow> registerHandlers order u i w = w"
  "us_proxies (session_of w u) = Map.empty \<Longrightarrow> registerProxyHandlers order u i w = w"
proof -
  have "fold step order w = w" if "\<And>c. step c w = w" for step
    using that by (induction order) simp_all
  then show "us_ptys (session_of w u) = Map.empty \<Longrightarrow> registerHandlers order u i w = w"
    "us_proxies (session_of w u) = Map.empty \<Longrightarrow> registerProxyHandlers order u i w = w"
    by (simp_all add: registerHandlers_def registerProxyHandlers_def)
qed

lemma store_send_done: "hb_done (fst (store_send i f hs) k) = hb_done (hs k)"
  by (simp add: store_send_simps)

lemma add_done:
  assumes "collector_add ft store_send env i (st, hs) = (sid, st', hs')"
  shows "hb_done (hs' k) = hb_done (hs k)"
  using arg_cong[OF assms, of "\<lambda>r. hb_done (snd (snd r) k)"]
  by (simp add: collector_add_def Let_def store_send_done split: if_splits)

text \<open>A connection of a user without terminals and proxies.\<close>

lemma fresh_connection:
  assumes "session_of w u = newUserSession"
  shows "hb_handlers (w_hubs (ws_connect env u w) (w_next w)) 0 = Some HCtrl"
    "session_of (ws_connect env u w) u = newUserSession" "w_next (ws_connect env u w) = w_next w + 1"
    "\<exists>sid. w_conns (ws_connect env u w)
       = (w_conns w)(w_next w \<mapsto> \<lparr>cn_user = u, cn_statsID = sid, cn_phase = ConnRunning\<rparr>)"
    "hb_done (w_hubs (ws_connect env u w) k) \<longleftrightarrow> k \<noteq> w_next w \<and> hb_done (w_hubs w k)"
proof -
  let ?i = "w_next w"
  obtain sid st hs fs where add: "collector_add (ce_float_text env) store_send (ce_proc env) ?i
       (w_stats w, (w_hubs w)(?i := hub_new)) = (sid, st, hs)"
    and c: "ws_connect env u w
       = (upd_hub ?i (hub_register 0 HCtrl) (opened u sid st hs w))\<lparr>w_fs := fs\<rparr> \<or>
     (\<exists>f. ws_connect env u w = fst (send_to ?i f
        ((upd_hub ?i (hub_register 0 HCtrl) (opened u sid st hs w))\<lparr>w_fs := fs\<rparr>)))"
  proof (rule ws_connect_steps[of env w u])
    fix sid st hs s' w6
    assume add: "collector_add (ce_float_text env) store_send (ce_proc env) ?i
       (w_stats w, (w_hubs w)(?i := hub_new)) = (sid, st, hs)"
      and w6: "w6 = registerProxyHandlers (ce_proxy_order env) u ?i
            (registerHandlers (ce_pty_order env) u ?i
              (upd_hub ?i (hub_register 0 HCtrl) (opened u sid st hs w)))"
      and c: "ws_connect env u w = w6\<lparr>w_fs := s'\<rparr> \<or>
       (\<exists>f. ws_connect env u w = fst (send_to ?i f (w6\<lparr>w_fs := s'\<rparr>)))"
    have "session_of (opened u sid st hs w) u = newUserSession"
      using assms by (simp add: opened_def session_of_def upd_user_def)
    then have "w6 = upd_hub ?i (hub_register 0 HCtrl) (opened u sid st hs w)"
      by (simp add: w6 registers_empty newUserSession_def)
    then show ?thesis using add c that by simp
  qed
  let ?w4 = "(upd_hub ?i (hub_register 0 HCtrl) (opened u sid st hs w))\<lparr>w_fs := fs\<rparr>"
  have 4: "hb_handlers (w_hubs ?w4 ?i) 0 = Some HCtrl" "session_of ?w4 u = newUserSession"
    "w_next ?w4 = ?i + 1" "w_conns ?w4
       = (w_conns w)(?i \<mapsto> \<lparr>cn_user = u, cn_statsID = sid, cn_phase = ConnRunning\<rparr>)"
    "hb_done (w_hubs ?w4 k) \<longleftrightarrow> k \<noteq> ?i \<and> hb_done (w_hubs w k)"
    using assms add_done[OF add, of k]
    by (auto simp: upd_hub_def opened_def session_of_def upd_user_def hub_register_def hub_new_def)
  have 5: "hb_handlers (w_hubs (fst (send_to i f v)) j) = hb_handlers (w_hubs v j)"
    "session_of (fst (send_to i f v)) = session_of v" "w_next (fst (send_to i f v)) = w_next v"
    "w_conns (fst (send_to i f v)) = w_conns v"
    "hb_done (w_hubs (fst (send_to i f v)) j) = hb_done (w_hubs v j)" for i j f v
    using store_send_done[of i f "w_hubs v" j] fun_cong[OF tables_send[of i f "w_hubs v"], of j]
    by (cases "store_send i f (w_hubs v)"; simp add: send_to_def session_of_def tables_def fun_eq_iff)+
  show "hb_handlers (w_hubs (ws_connect env u w) ?i) 0 = Some HCtrl"
    "session_of (ws_connect env u w) u = newUserSession" "w_next (ws_connect env u w) = ?i + 1"
    "\<exists>sid. w_conns (ws_connect env u w)
       = (w_conns w)(?i \<mapsto> \<lparr>cn_user = u, cn_statsID = sid, cn_phase = ConnRunning\<rparr>)"
    "hb_done (w_hubs (ws_connect env u w) k) \<longleftrightarrow> k \<noteq> ?i \<and> hb_done (w_hubs w k)"
    using c 4 5 by auto
qed

lemma handleOpenPTY_frame:
  "w_conns (fst (handleOpenPTY env i u f w)) = w_conns w"
  "hb_handlers (w_hubs (fst (handleOpenPTY env i u f w)) j) 0 = hb_handlers (w_hubs w j) 0"
proof -
  have s: "hb_handlers (w_hubs (fst (send_to i g v)) j) = hb_handlers (w_hubs v j)"
    "w_conns (fst (send_to i g v)) = w_conns v" for g v
    using fun_cong[OF tables_send[of i g "w_hubs v"], of j]
    by (cases "store_send i g (w_hubs v)"; simp add: send_to_def tables_def)+
  show "w_conns (fst (handleOpenPTY env i u f w)) = w_conns w"
    "hb_handlers (w_hubs (fst (handleOpenPTY env i u f w)) j) 0 = hb_handlers (w_hubs w j) 0"
    by (cases rule: handleOpenPTY_cases[of env i u f w]; simp add: s attach_tables addPTY_def upd_objects)+
qed

text \<open>Two connections of a user who has nothing yet.\<close>

lemma two_connections:
  assumes "w = world_run [EConnect demo_ctl ''a'', EConnect demo_ctl ''a''] (world_init demo_fs None None)"
  obtains sid0 sid1 where
    "w_conns w = [0 \<mapsto> \<lparr>cn_user = ''a'', cn_statsID = sid0, cn_phase = ConnRunning\<rparr>,
      1 \<mapsto> \<lparr>cn_user = ''a'', cn_statsID = sid1, cn_phase = ConnRunning\<rparr>]"
    "session_of w ''a'' = newUserSession" "w_next w = 2" "hb_handlers (w_hubs w 1) 0 = Some HCtrl"
    "\<not> hb_done (w_hubs w 0)"
proof -
  let ?init = "world_init demo_fs None None"
  let ?one = "ws_connect demo_ctl ''a'' ?init"
  have w: "w = ws_connect demo_ctl ''a'' ?one" using assms by (simp add: world_run_def)
  have "session_of ?init ''a'' = newUserSession" by (simp add: session_of_def world_init_def)
  note 0 = fresh_connection[OF this, of demo_ctl]
  note 1 = fresh_connection[OF 0(2), of demo_ctl, folded w]
  have n: "w_next ?init = 0" "w_next ?one = 1" using 0(3) by (simp_all add: world_init_def)
  obtain sid0 sid1 where "w_conns w = [0 \<mapsto> \<lparr>cn_user = ''a'', cn_statsID = sid0, cn_phase = ConnRunning\<rparr>,
      1 \<mapsto> \<lparr>cn_user = ''a'', cn_statsID = sid1, cn_phase = ConnRunning\<rparr>]"
    using 0(4) 1(4) n by (auto simp: world_init_def)
  then show ?thesis using that 0(5)[of 0] 1(1-3) 1(5)[of 0] n by simp
qed

lemma demo_shell:
  obtains s where "session_new (ce_os demo_ctl) 5 ''a'' [] [] = (Inr s :: pty_err + nat session)"
  by (simp add: demo_ctl_def session_new_def session_command_def demo_os_def parse_uint_def is_digit_def
      less_eq_char_def digit_val_def Let_def)

lemma demo_connected:
  obtains s cn0 cn1 where "attached_to demo_world 1 ''a'' 5 2 s" "w_next demo_world = 3"
    "rb_bytes (ss_ring s) = []" "w_conns demo_world 0 = Some cn0" "w_conns demo_world 1 = Some cn1"
    "cn_user cn0 = ''a''" "cn_user cn1 = ''a''" "cn_phase cn0 = ConnRunning"
    "hb_handlers (w_hubs demo_world 1) 0 = Some HCtrl"
proof -
  let ?both = "world_run [EConnect demo_ctl ''a'', EConnect demo_ctl ''a''] (world_init demo_fs None None)"
  let ?f = "control_frame FrameOpenPTY CHR ''5''"
  obtain sid0 sid1 where cn: "w_conns ?both = [0 \<mapsto> \<lparr>cn_user = ''a'', cn_statsID = sid0, cn_phase = ConnRunning\<rparr>,
      1 \<mapsto> \<lparr>cn_user = ''a'', cn_statsID = sid1, cn_phase = ConnRunning\<rparr>]"
    and 1: "session_of ?both ''a'' = newUserSession" "w_next ?both = 2" "hb_handlers (w_hubs ?both 1) 0 = Some HCtrl"
    by (rule two_connections[OF refl])
  obtain s where s: "session_new (ce_os demo_ctl) 5 ''a'' [] [] = (Inr s :: pty_err + nat session)"
    by (rule demo_shell)
  obtain w' e where o: "handleOpenPTY demo_ctl 1 ''a'' ?f ?both = (w', e)" by fastforce
  have "isolated ?both" by (rule isolated_run[OF isolated_init])
  moreover have "unmarshal_OpenMsg (f_payload ?f)
      = Some \<lparr>om_channel = 5, om_shell = [], om_cwd = [], om_cols = 0, om_rows = 0\<rparr>"
    by (simp add: control_frame_def channel_json_unmarshal)
  moreover have "us_ptys (session_of ?both ''a'') 5 = None"
    using 1(1) by (simp add: newUserSession_def)
  ultimately obtain s' where s': "attached_to w' 1 ''a'' 5 2 s'" "ss_ring s' = ss_ring s" "w_next w' = 3"
    using open_new[OF _ _ _ _ _ o, of _ s] s 1(2) by auto
  have d: "hub_dispatch (InBinary (encode ?f)) (w_hubs ?both 1) = Dispatch HCtrl ?f"
  proof -
    have "decodeFromBytes (encode ?f) = Inr ?f"
      unfolding decodeFromBytes_ok_iff by (simp add: control_frame_def channel_json_def maxPayloadSize_def)
    then show ?thesis using 1(3) by (simp add: hub_dispatch_def control_frame_def)
  qed
  have w': "demo_world = w'"
    using cn d o by (simp add: demo_world_def demo_events_def world_run_def ws_message_def
        ctrl_handle_frame_def control_frame_def)
  have "w_conns w' = w_conns ?both" "hb_handlers (w_hubs w' 1) 0 = Some HCtrl"
    using handleOpenPTY_frame[of demo_ctl 1 "''a''" ?f ?both] o 1(3) by simp_all
  then show ?thesis using that s' cn session_new_ring[OF s] w' by simp
qed

theorem open_terminal_witness:
  "\<exists>t. attached_to (fst (handleOpenPTY demo_ctl 0 ''a'' (control_frame FrameOpenPTY CHR ''5'') demo_world))
         0 ''a'' 5 2 t"
proof (rule demo_connected)
  fix s cn0 cn1
  assume d: "attached_to demo_world 1 ''a'' 5 2 s" "w_conns demo_world 0 = Some cn0" "cn_user cn0 = ''a''"
  let ?f = "control_frame FrameOpenPTY CHR ''5''"
  obtain w' e where o: "handleOpenPTY demo_ctl 0 ''a'' ?f demo_world = (w', e)" by fastforce
  have "unmarshal_OpenMsg (f_payload ?f)
      = Some \<lparr>om_channel = 5, om_shell = [], om_cwd = [], om_cols = 0, om_rows = 0\<rparr>"
    by (simp add: control_frame_def channel_json_unmarshal)
  from open_terminal[OF demo_world_def d(2) this, of demo_ctl w' e] show ?thesis
    using d(1,3) o by (auto simp: attached_to_def)
qed

theorem references_resolve_witness:
  "\<exists>t. w_ptys demo_world 2 = Some t \<and> ss_user t = ''a'' \<and> ss_chan t = 5 \<and> w_hubOwner demo_world 1 = Some ''a''"
proof (rule demo_connected)
  fix s assume "attached_to demo_world 1 ''a'' 5 2 s"
  then have s: "w_ptys demo_world 2 = Some s" "ss_sender s = Some 1" "ss_user s = ''a''" "ss_chan s = 5"
    by (simp_all add: attached_to_def)
  have "\<forall>p t i. w_ptys demo_world p = Some t \<and> ss_sender t = Some i \<longrightarrow>
      i < w_next demo_world \<and> w_hubOwner demo_world i = Some (ss_user t)"
    by (intro references_resolve[OF demo_world_def, THEN conjunct2, THEN conjunct2, THEN conjunct2,
          THEN conjunct2, THEN conjunct1])
  then show ?thesis using s by auto
qed

theorem close_terminal_witness:
  "us_ptys (session_of (fst (handleClosePTY 1 ''a'' (control_frame FrameClosePTY CHR ''5'') demo_world)) ''a'') 5
     = None"
proof (rule demo_connected)
  fix s assume d: "attached_to demo_world 1 ''a'' 5 2 s"
  let ?f = "control_frame FrameClosePTY CHR ''5''"
  obtain w' e where o: "handleClosePTY 1 ''a'' ?f demo_world = (w', e)" by fastforce
  have "unmarshal_channel (f_payload ?f) = Some 5"
    by (simp add: control_frame_def channel_json_unmarshal)
  from close_terminal[OF demo_world_def this _ o, of 2 "data_frame 5 []"] show ?thesis
    using d o by (simp add: attached_to_def data_frame_def)
qed

theorem control_channel_lost_witness:
  "\<exists>w'. ctrl_handle_frame demo_ctl 1 ''a'' (control_frame FrameClosePTY CHR ''0'') demo_world = Some (w', None)
     \<and> ws_message demo_ctl 1 (InBinary (encode (control_frame FrameOpenPTY CHR ''5''))) w' = Some w'"
proof (rule demo_connected)
  fix cn1 assume d: "w_next demo_world = 3"
  let ?f = "control_frame FrameClosePTY CHR ''0''" and ?g = "control_frame FrameOpenPTY CHR ''5''"
  obtain w' where o: "ctrl_handle_frame demo_ctl 1 ''a'' ?f demo_world = Some (w', None)"
    by (simp add: ctrl_handle_frame_def handleClosePTY_def control_frame_def channel_json_unmarshal)
  have u: "unmarshal_channel (f_payload ?f) = Some 0"
    by (simp add: control_frame_def channel_json_unmarshal)
  have "decodeFromBytes (encode ?g) = Inr ?g"
    unfolding decodeFromBytes_ok_iff by (simp add: control_frame_def channel_json_def maxPayloadSize_def)
  then have "ws_message demo_ctl 1 (InBinary (encode ?g)) w' = Some w'"
    using control_channel_lost[OF demo_world_def _ _ u o, of w' "[]" ?g "encode ?g" demo_ctl] d
    by (simp add: control_frame_def world_run_def)
  then show ?thesis using o by blast
qed

theorem stale_teardown_witness:
  "\<exists>t. w_ptys (world_run [ETeardown demo_ctl 0, ETeardown demo_ctl 0] demo_world) 2 = Some t \<and> ss_sender t = None"
proof (rule demo_connected)
  fix s cn0
  assume "attached_to demo_world 1 ''a'' 5 2 s" "w_conns demo_world 0 = Some cn0" "cn_user cn0 = ''a''"
    "cn_phase cn0 = ConnRunning"
  then show ?thesis
    using stale_teardown[OF demo_world_def, of 0 cn0 1 5 2 s demo_ctl _ "[]" False]
    by (simp add: demo_ctl_def)
qed

end
