(* ===== verification/Open_Race.thy ===== *)
theory Open_Race
  imports Session_Control
begin

text \<open>
  \<open>controlHandler.handleOpenPTY\<close> of \<open>internal/server/server.go\<close> is not one atomic operation: it
  looks the channel up in the user's registry under \<open>UserSession.mu\<close>, releases the lock, starts
  the shell, and takes the lock again in \<open>addPTY\<close>; the hub and the terminal have locks of their
  own. Each hub has its own reader, so the handlers of two connections of one user interleave
  between these points. The theory splits the handler at its locks, shows that the steps run
  without interruption are the handler of \<open>Control_Plane\<close>, and follows two interleaved ones.
\<close>

section \<open>The handler, one lock at a time\<close>

text \<open>
  A step ends where another goroutine can get in between. Nothing refers to a terminal before it is
  added, so starting it and giving it its first size are one step; attaching holds the terminal's
  lock throughout.
\<close>

datatype open_pc =
    OCheck                        \<comment> \<open>before the lookup\<close>
  | OFound nat | OFoundRegistered nat | OFoundAttached nat
  | OAbsent                       \<comment> \<open>nothing found; the shell is not started yet\<close>
  | OSpawned nat | OAdded nat | ORegistered nat
  | OReturn "ctrl_err option"

definition open_resize :: "open_msg \<Rightarrow> nat session \<Rightarrow> nat session" where
  "open_resize msg s =
     (if om_cols msg > 0 \<and> om_rows msg > 0 then session_resize (om_cols msg) (om_rows msg) s else s)"

fun open_step :: "ctl_env \<Rightarrow> nat \<Rightarrow> string \<Rightarrow> open_msg \<Rightarrow> open_pc \<times> world \<Rightarrow> open_pc \<times> world" where
  "open_step env i u msg (OCheck, w) =
     (if om_channel msg = 0 then (OReturn (Some ReservedChannel), w)
      else case us_ptys (session_of w u) (om_channel msg) of
             Some p \<Rightarrow> (OFound p, w) | None \<Rightarrow> (OAbsent, w))"
| "open_step env i u msg (OFound p, w) =
     (OFoundRegistered p, upd_hub i (hub_register (om_channel msg) (HPty p)) w)"
| "open_step env i u msg (OFoundRegistered p, w) =
     (OFoundAttached p, run_pty p (session_attach store_send i) w)"
| "open_step env i u msg (OFoundAttached p, w) = (OReturn None, upd_pty p (open_resize msg) w)"
| "open_step env i u msg (OAbsent, w) =
     (case session_new (ce_os env) (om_channel msg) u (om_shell msg) (om_cwd msg) of
        Inl e \<Rightarrow>
          (case send_to i \<lparr>f_type = FrameData, f_chan = om_channel msg,
             f_payload = bytes_of_string (''error: '' @ ce_pty_text env e @ [CHR 0x0D, CHR 0x0A])\<rparr> w of
             (w', err) \<Rightarrow> (OReturn err, w'))
      | Inr s \<Rightarrow>
          (OSpawned (w_next w),
           w\<lparr>w_ptys := (w_ptys w)(w_next w := Some (open_resize msg s)), w_next := w_next w + 1\<rparr>))"
| "open_step env i u msg (OSpawned p, w) = (OAdded p, addPTY u (om_channel msg) p w)"
| "open_step env i u msg (OAdded p, w) =
     (ORegistered p, upd_hub i (hub_register (om_channel msg) (HPty p)) w)"
| "open_step env i u msg (ORegistered p, w) = (OReturn None, run_pty p (session_attach store_send i) w)"
| "open_step env i u msg (OReturn e, w) = (OReturn e, w)"

text \<open>
  The handlers of several hubs, all for the same user and frame. A schedule lists which hub's
  handler makes the next step.
\<close>

definition race_step ::
  "ctl_env \<Rightarrow> string \<Rightarrow> open_msg \<Rightarrow> nat \<Rightarrow> (nat \<Rightarrow> open_pc) \<times> world \<Rightarrow> (nat \<Rightarrow> open_pc) \<times> world" where
  "race_step env u msg i cfg =
     (case cfg of (pcs, w) \<Rightarrow>
        case open_step env i u msg (pcs i, w) of (pc, w') \<Rightarrow> (pcs(i := pc), w'))"

definition race_run ::
  "ctl_env \<Rightarrow> string \<Rightarrow> open_msg \<Rightarrow> nat list \<Rightarrow> (nat \<Rightarrow> open_pc) \<times> world \<Rightarrow> (nat \<Rightarrow> open_pc) \<times> world" where
  "race_run env u msg sched = fold (race_step env u msg) sched"

lemma race_run_simps [simp]:
  "race_run env u msg [] cfg = cfg"
  "race_run env u msg (i # sched) cfg = race_run env u msg sched (race_step env u msg i cfg)"
  by (simp_all add: race_run_def)

lemma race_run_append: "race_run env u msg (a @ b) cfg = race_run env u msg b (race_run env u msg a cfg)"
  by (simp add: race_run_def)

section \<open>Runs of one handler\<close>

text \<open>A handler that found nothing and whose shell starts.\<close>

definition spawned :: "nat \<Rightarrow> string \<Rightarrow> open_msg \<Rightarrow> nat session \<Rightarrow> world \<Rightarrow> world" where
  "spawned i u msg s w =
     run_pty (w_next w) (session_attach store_send i)
       (upd_hub i (hub_register (om_channel msg) (HPty (w_next w)))
         (addPTY u (om_channel msg) (w_next w) (with_pty (open_resize msg s) w)))"

lemma spawn_steps:
  assumes "pcs i = OAbsent"
    and "session_new (ce_os env) (om_channel msg) u (om_shell msg) (om_cwd msg) = Inr (s :: nat session)"
  shows "race_run env u msg [i, i, i, i] (pcs, w) = (pcs(i := OReturn None), spawned i u msg s w)"
  using assms by (simp add: race_step_def spawned_def with_pty_def)

lemma session_of_opened: "session_of (opened u sid st hs w) = session_of w"
proof -
  have "session_of (opened u sid st hs w) = session_of (upd_user u (\<lambda>us. us) w)"
    by (simp add: opened_def session_of_def fun_eq_iff)
  then show ?thesis by (simp add: session_of_upd_user fun_eq_iff)
qed

lemma spawned_fields:
  "w_next (spawned i u msg s w) = w_next w + 1"
  "us_ptys (session_of (spawned i u msg s w) v) d
     = (if v = u \<and> d = om_channel msg then Some (w_next w) else us_ptys (session_of w v) d)"
  "hb_handlers (w_hubs (spawned i u msg s w) k) d
     = (if k = i \<and> d = om_channel msg then Some (HPty (w_next w)) else hb_handlers (w_hubs w k) d)"
  by (simp_all add: spawned_def addPTY_def session_of_upd_user attach_tables upd_objects)

lemma spawned_ptys:
  "p \<noteq> w_next w \<Longrightarrow> w_ptys (spawned i u msg s w) p = w_ptys w p"
  "\<exists>t. w_ptys (spawned i u msg s w) (w_next w) = Some t \<and> ss_cmd t = ss_cmd s \<and> ss_done t = ss_done s
     \<and> ss_sender t = Some i"
proof -
  show "p \<noteq> w_next w \<Longrightarrow> w_ptys (spawned i u msg s w) p = w_ptys w p"
    by (simp add: spawned_def upd_objects addPTY_def)
  have "ss_cmd (open_resize msg s) = ss_cmd s \<and> ss_done (open_resize msg s) = ss_done s"
    by (simp add: open_resize_def session_resize_def)
  then show "\<exists>t. w_ptys (spawned i u msg s w) (w_next w) = Some t \<and> ss_cmd t = ss_cmd s
      \<and> ss_done t = ss_done s \<and> ss_sender t = Some i"
    by (auto simp: spawned_def upd_objects addPTY_def session_attach_def Let_def)
qed

lemma isolated_spawned:
  assumes "isolated w" "w_hubOwner w i = Some u" "om_channel msg \<noteq> 0"
    and "session_new (ce_os env) (om_channel msg) u (om_shell msg) (om_cwd msg) = Inr (s :: nat session)"
  shows "isolated (spawned i u msg s w)" "w_hubOwner (spawned i u msg s w) = w_hubOwner w"
proof -
  let ?c = "om_channel msg" and ?z = "open_resize msg s"
  let ?w2 = "addPTY u ?c (w_next w) (with_pty ?z w)"
  have s: "ss_user ?z = u" "ss_chan ?z = ?c" "ss_sender ?z = None"
    using assms(4) by (auto simp: session_new_def open_resize_def session_resize_def split: sum.splits option.splits)
  have 2: "isolated ?w2" by (rule isolated_new_pty[OF assms(1) s assms(3)])
  have o: "pty_owned ?w2 (w_next w) u" "w_hubOwner ?w2 i = Some u"
    using assms(2) s(1) by (simp_all add: pty_owned_def addPTY_def)
  have 3: "isolated (upd_hub i (hub_register ?c (HPty (w_next w))) ?w2)"
    using isolated_register[OF 2 o(2)] o(1) by simp
  show "isolated (spawned i u msg s w)"
    unfolding spawned_def by (rule isolated_attach_pty[OF 3, where u = u]) (use o in simp_all)
  show "w_hubOwner (spawned i u msg s w) = w_hubOwner w" by (simp add: spawned_def addPTY_def)
qed

section \<open>A terminal that few refer to\<close>

text \<open>Nothing but the handler tables of the hubs in \<open>S\<close> refers to terminal \<open>p\<close>.\<close>

definition held :: "nat set \<Rightarrow> nat \<Rightarrow> world \<Rightarrow> bool" where
  "held S p w \<longleftrightarrow> p < w_next w \<and> (\<forall>v c. us_ptys (session_of w v) c \<noteq> Some p) \<and>
     (\<forall>k c. hb_handlers (w_hubs w k) c = Some (HPty p) \<longrightarrow> k \<in> S)"

lemma heldD:
  assumes "held S p w"
  shows "p < w_next w" "us_ptys (session_of w v) c \<noteq> Some p"
    "hb_handlers (w_hubs w k) c = Some (HPty p) \<Longrightarrow> k \<in> S"
  using assms by (auto simp: held_def)

lemma shrinks_held:
  assumes "shrinks w' w" "held S p w"
  shows "held S p w'"
  using shrinksD(3,7,8)[OF assms(1)] assms(2) unfolding held_def by metis

lemma held_register: "held S p w \<Longrightarrow> h \<noteq> HPty p \<Longrightarrow> held S p (upd_hub j (hub_register c h) w)"
  by (auto simp: held_def upd_objects split: if_splits)

interpretation held_for_ever: lost_reference "held S p" for S p
proof unfold_locales
  fix w :: world and j k q :: nat and c c' :: u16 and u s g g'
  assume n: "held S p w"
  show "held S p (run_pty k (session_attach store_send j) w)"
    using n by (simp add: held_def attach_tables)
  show "held S p (upd_pty k g w)" "held S p (upd_proxy q g' w)"
    using n by (simp_all add: held_def)
  show "held S p (upd_hub j (hub_register c (HPty k)) w)" if "us_ptys (session_of w u) c' = Some k"
    using that heldD(2)[OF n, of u c'] by (intro held_register[OF n]) auto
  show "held S p (upd_hub j (hub_register c (HProxy q)) w)"
    by (intro held_register[OF n]) simp
  have k: "w_next w \<noteq> p" using heldD(1)[OF n] by simp
  then have "held S p (addPTY u c (w_next w) (with_pty s w))"
    using n by (auto simp: held_def addPTY_def session_of_upd_user split: if_splits)
  then show "held S p (upd_hub j (hub_register c (HPty (w_next w))) (addPTY u c (w_next w) (with_pty s w)))"
    by (rule held_register) (use k in simp)
next
  fix w u c ps
  assume "held S p w"
  then show "held S p (addProxy u c (w_next w) (with_proxy u ps w))"
    by (auto simp: held_def addProxy_def session_of_upd_user split: if_splits)
next
  fix w hs u sid st
  assume "held S p w" "tables hs = tables ((w_hubs w)(w_next w := hub_new))"
  then show "held S p (upd_hub (w_next w) (hub_register 0 HCtrl) (opened u sid st hs w))"
    using opened_tables[of hs w u sid st]
    by (auto simp: held_def session_of_opened opened_def[THEN arg_cong[of _ _ w_next]] split: if_splits)
qed (simp_all add: shrinks_held)

text \<open>No message reads, feeds, resizes or closes a terminal that nothing refers to.\<close>

lemma kept_close:
  "hb_handlers (w_hubs w i) c \<noteq> Some (HPty p) \<Longrightarrow> w_ptys (unregister i c w) p = w_ptys w p"
  "us_ptys (session_of w u) c \<noteq> Some p \<Longrightarrow> w_ptys (removePTY u c w) p = w_ptys w p"
  "w_ptys (removeProxy u c w) = w_ptys w" "w_ptys (fst (send_to i f w)) = w_ptys w"
  by (auto simp: unregister_def hub_unregister_def Let_def removePTY_def removeProxy_def send_to_def
      upd_objects split: option.splits handler.splits prod.splits)

lemma held_control_untouched:
  assumes "held {} p w" "ctrl_handle_frame env j u f w = Some (w', e)"
  shows "w_ptys w' p = w_ptys w p"
proof -
  note d = heldD[OF assms(1)]
  have h: "hb_handlers (w_hubs w k) c \<noteq> Some (HPty p)" for k c using d(3)[of k c] by blast
  have 1: "w_ptys (fst (handleOpenPTY env j u f w)) p = w_ptys w p"
  proof (cases rule: handleOpenPTY_cases[of env j u f w])
    case (existing c q g)
    then show ?thesis using d(2)[of u c] by (auto simp: upd_objects)
  next
    case (new c s)
    then show ?thesis using d(1) by (simp add: upd_objects addPTY_def)
  qed (simp_all add: kept_close)
  have 2: "w_ptys (fst (handleOpenProxy env j u f w)) p = w_ptys w p"
    by (cases rule: handleOpenProxy_cases[of env j u f w]) (simp_all add: kept_close addProxy_def)
  have 3: "w_ptys (fst (handleClosePTY j u f w)) p = w_ptys w p"
    "w_ptys (fst (handleCloseProxy j u f w)) p = w_ptys w p"
    using h d(2) by (simp_all add: handleClosePTY_def handleCloseProxy_def kept_close unregister_state
        split: option.split)
  have "w_ptys w' p = w_ptys w p"
    if "handleOpenPTY env j u f w = (w', e) \<or> handleOpenProxy env j u f w = (w', e)
      \<or> handleClosePTY j u f w = (w', e) \<or> handleCloseProxy j u f w = (w', e)
      \<or> (\<exists>g. send_to j g w = (w', e)) \<or> w_ptys w' = w_ptys w"
    using that 1 2 3 kept_close(4)[of j _ w] by (metis fst_conv)
  then show ?thesis
    using assms(2) unfolding ctrl_handle_frame_def handlePortScan_def
    by (auto split: if_splits option.splits prod.splits)
qed

lemma held_untouched:
  assumes "held {} p w" "ws_message env j m w = Some w'"
  shows "w_ptys w' p = w_ptys w p"
  using assms(2) held_control_untouched[OF assms(1)]
  by (auto simp: ws_message_def hub_dispatch_def upd_objects
      dest: heldD(3)[OF assms(1)]
      split: option.splits dispatch.splits handler.splits inbound.splits sum.splits if_splits)

section \<open>Two handlers\<close>

lemma unknown_next:
  assumes "isolated w"
  shows "us_ptys (session_of w v) c \<noteq> Some (w_next w)" "hb_handlers (w_hubs w k) c \<noteq> Some (HPty (w_next w))"
  using isoD(4)[OF assms, of v c "w_next w"] isoD(3)[OF assms, of k c "HPty (w_next w)"]
    isoD(7)[OF assms, of "w_next w"] by (auto simp: pty_owned_def)

lemma lost_terminal:
  assumes "isolated w" "i \<noteq> j"
  shows "held {i} (w_next w) (spawned j u msg s' (spawned i u msg s w))"
  using unknown_next[OF assms(1)] by (auto simp: held_def spawned_fields split: if_splits)

lemma race_result:
  assumes "i \<noteq> j" "om_channel msg \<noteq> 0" "us_ptys (session_of w u) (om_channel msg) = None"
    "session_new (ce_os env) (om_channel msg) u (om_shell msg) (om_cwd msg) = Inr (s :: nat session)"
    "pcs i = OCheck" "pcs j = OCheck"
    "race_run env u msg ([i, j] @ [i, i, i, i] @ [j, j, j, j]) (pcs, w) = (pcs', w1)"
  shows "w1 = spawned j u msg s (spawned i u msg s w)" "pcs' i = OReturn None" "pcs' j = OReturn None"
proof -
  have "race_run env u msg [i, j] (pcs, w) = (pcs(i := OAbsent, j := OAbsent), w)"
    using assms(1-3,5,6) by (simp add: race_step_def)
  then have "(pcs', w1) = race_run env u msg ([i, i, i, i] @ [j, j, j, j]) (pcs(i := OAbsent, j := OAbsent), w)"
    using assms(7) by (simp only: race_run_append)
  also have "\<dots> = (pcs(i := OReturn None, j := OReturn None), spawned j u msg s (spawned i u msg s w))"
    unfolding race_run_append using assms(1) spawn_steps[OF _ assms(4)]
    by (simp add: fun_upd_twist del: race_run_simps)
  finally show "w1 = spawned j u msg s (spawned i u msg s w)" "pcs' i = OReturn None" "pcs' j = OReturn None"
    using assms(1) by simp_all
qed

lemma spawned_done: "hb_done (w_hubs (spawned i u msg s w) k) = hb_done (w_hubs w k)"
proof -
  have a: "hb_done (snd (session_attach store_send i (t, hs)) k) = hb_done (hs k)" for t hs
    by (simp add: session_attach_def Let_def store_send_done)
  have "hb_done (w_hubs (run_pty p (session_attach store_send i) v) k) = hb_done (w_hubs v k)" for p v
    using a[of _ "w_hubs v"] by (simp add: run_pty_def split: option.split prod.split) (metis snd_conv)
  then show ?thesis by (simp add: spawned_def addPTY_def upd_objects hub_register_def)
qed

text \<open>The steps, run without interruption, are the handler of \<open>Control_Plane\<close>.\<close>

lemma open_uninterrupted:
  assumes "unmarshal_OpenMsg (f_payload f) = Some msg" and "pcs i = OCheck"
    and "handleOpenPTY env i u f w = (w', e)"
  shows "race_run env u msg [i, i, i, i, i] (pcs, w) = (pcs(i := OReturn e), w')"
  using assms
  by (cases "session_new (ce_os env) (om_channel msg) u (om_shell msg) (om_cwd msg) :: pty_err + nat session")
    (auto simp: handleOpenPTY_def race_step_def Let_def open_resize_def [abs_def] fun_upd_def
      split: if_splits option.splits prod.splits)

section \<open>Properties\<close>

text \<open>C18. Two connections of one user open the same new channel at the same time, and both look the
  channel up before either has added its terminal. Then two shells run, and the registry has only
  the second: the first is known to the first connection's hub alone. Once that hub is closed, no
  registry and no handler table refers to the first terminal, whatever happens later, and no frame
  of any connection reads, feeds, resizes or closes it any more.\<close>

theorem open_race:
  assumes "w = world_run evs (world_init s uname hostname)"
    and "w_conns w i = Some cn" and "w_conns w j = Some cn'" and "cn_user cn' = cn_user cn" and "i \<noteq> j"
    and "om_channel msg \<noteq> 0" and "us_ptys (session_of w (cn_user cn)) (om_channel msg) = None"
    and "session_new (ce_os env) (om_channel msg) (cn_user cn) (om_shell msg) (om_cwd msg)
       = Inr (t :: nat session)"
    and "pcs i = OCheck" and "pcs j = OCheck"
    and "race_run env (cn_user cn) msg ([i, j] @ [i, i, i, i] @ [j, j, j, j]) (pcs, w) = (pcs', w1)"
    and "w2 = world_run between w1" and "\<not> hb_done (w_hubs w2 i)" and "w3 = world_run (EClose i # later) w2"
  shows "pcs' i = OReturn None \<and> pcs' j = OReturn None
    \<and> (\<exists>a b. w_ptys w1 (w_next w) = Some a \<and> w_ptys w1 (w_next w + 1) = Some b
        \<and> ss_cmd a = ss_cmd t \<and> ss_cmd b = ss_cmd t \<and> ss_done a = ss_done t \<and> ss_done b = ss_done t)
    \<and> us_ptys (session_of w1 (cn_user cn)) (om_channel msg) = Some (w_next w + 1)
    \<and> (\<forall>v c. us_ptys (session_of w3 v) c \<noteq> Some (w_next w))
    \<and> (\<forall>k c. hb_handlers (w_hubs w3 k) c \<noteq> Some (HPty (w_next w)))
    \<and> (\<forall>env' k m w4. ws_message env' k m w3 = Some w4 \<longrightarrow> w_ptys w4 (w_next w) = w_ptys w3 (w_next w))"
proof -
  let ?u = "cn_user cn" and ?p = "w_next w"
  let ?wi = "spawned i ?u msg t w"
  have iso: "isolated w" using assms(1) isolated_run[OF isolated_init] by simp
  note w1 = race_result[OF assms(5-11)]
  have own: "w_hubOwner w i = Some ?u" "w_hubOwner w j = Some ?u"
    using isoD(6)[OF iso assms(2)] isoD(6)[OF iso assms(3)] assms(4) by simp_all
  note 1 = isolated_spawned[OF iso own(1) assms(6,8)]
  have iso1: "isolated w1"
    using isolated_spawned(1)[OF 1(1) _ assms(6,8)] own(2) 1(2) w1(1) by simp
  have "held {i} ?p w1" using lost_terminal[OF iso assms(5)] w1(1) by simp
  then have 2: "held {i} ?p w2" "isolated w2"
    using held_for_ever.for_ever[OF iso1] isolated_run[OF iso1] assms(12) by blast+
  have "held {} ?p (upd_hub i hub_close w2)" "isolated (upd_hub i hub_close w2)"
    using 2 assms(13) isolated_apply[OF 2(2), of "EClose i"]
    by (auto simp: held_def upd_objects hub_close_def close_handlers_def split: if_splits)
  then have 3: "held {} ?p w3"
    using held_for_ever.for_ever[of "upd_hub i hub_close w2" "{}" ?p later] assms(14)
    by (simp add: world_run_def)
  obtain a b where ab: "w_ptys w1 ?p = Some a" "w_ptys w1 (?p + 1) = Some b" "ss_cmd a = ss_cmd t"
    "ss_cmd b = ss_cmd t" "ss_done a = ss_done t" "ss_done b = ss_done t"
    using spawned_ptys(2)[of i ?u msg t w] spawned_ptys(2)[of j ?u msg t ?wi]
      spawned_ptys(1)[of ?p ?wi j ?u msg t] by (auto simp: w1(1) spawned_fields)
  moreover have "us_ptys (session_of w1 ?u) (om_channel msg) = Some (?p + 1)"
    by (simp add: w1(1) spawned_fields)
  ultimately show ?thesis
    using w1(2,3) heldD(2,3)[OF 3] held_untouched[OF 3] by blast
qed

section \<open>Witnesses\<close>

abbreviation demo_open :: open_msg where
  "demo_open \<equiv> \<lparr>om_channel = 5, om_shell = [], om_cwd = [], om_cols = 0, om_rows = 0\<rparr>"

theorem open_race_witness:
  "\<exists>w evs. w = world_run evs (world_init demo_fs None None) \<and>
     (let w1 = snd (race_run demo_ctl ''a'' demo_open [0, 1, 0, 0, 0, 0, 1, 1, 1, 1] (\<lambda>_. OCheck, w))
      in w_ptys w1 2 \<noteq> None \<and> w_ptys w1 3 \<noteq> None \<and> us_ptys (session_of w1 ''a'') 5 = Some 3
        \<and> hb_handlers (w_hubs (world_apply (EClose 0) w1) 0) 5 \<noteq> Some (HPty 2))"
proof -
  define w where "w = world_run [EConnect demo_ctl ''a'', EConnect demo_ctl ''a''] (world_init demo_fs None None)"
  obtain sid0 sid1 where c: "w_conns w = [0 \<mapsto> \<lparr>cn_user = ''a'', cn_statsID = sid0, cn_phase = ConnRunning\<rparr>,
      1 \<mapsto> \<lparr>cn_user = ''a'', cn_statsID = sid1, cn_phase = ConnRunning\<rparr>]"
    and w: "session_of w ''a'' = newUserSession" "w_next w = 2" "\<not> hb_done (w_hubs w 0)"
    by (rule two_connections[OF w_def])
  obtain t where t: "session_new (ce_os demo_ctl) 5 ''a'' [] [] = (Inr t :: pty_err + nat session)"
    by (rule demo_shell)
  obtain pcs' w1 where r: "race_run demo_ctl ''a'' demo_open ([0, 1] @ [0, 0, 0, 0] @ [1, 1, 1, 1])
      (\<lambda>_. OCheck, w) = (pcs', w1)" by fastforce
  have "w1 = spawned 1 ''a'' demo_open t (spawned 0 ''a'' demo_open t w)"
    using race_result(1)[OF _ _ _ _ _ _ r, of t] w t by (simp add: newUserSession_def)
  then have d: "\<not> hb_done (w_hubs w1 0)" using w(3) by (simp add: spawned_done)
  let ?cn0 = "\<lparr>cn_user = ''a'', cn_statsID = sid0, cn_phase = ConnRunning\<rparr>"
    and ?cn1 = "\<lparr>cn_user = ''a'', cn_statsID = sid1, cn_phase = ConnRunning\<rparr>"
  have "w_conns w 0 = Some ?cn0" "w_conns w 1 = Some ?cn1" "us_ptys (session_of w ''a'') 5 = None"
    using c w(1) by (simp_all add: newUserSession_def)
  note o = open_race[OF w_def this(1,2), of demo_open demo_ctl t "\<lambda>_. OCheck" pcs' w1 w1 "[]" _ "[]"]
  have x: "(\<exists>a. w_ptys w1 2 = Some a) \<and> (\<exists>b. w_ptys w1 3 = Some b) \<and> us_ptys (session_of w1 ''a'') 5 = Some 3
      \<and> hb_handlers (w_hubs (world_apply (EClose 0) w1) 0) 5 \<noteq> Some (HPty 2)"
    using o \<open>us_ptys (session_of w ''a'') 5 = None\<close> r d t w(2)
    by (simp add: world_run_def del: race_run_simps) blast
  have "snd (race_run demo_ctl ''a'' demo_open [0, 1, 0, 0, 0, 0, 1, 1, 1, 1] (\<lambda>_. OCheck, w)) = w1"
    using arg_cong[OF r, of snd] by (simp only: append.simps snd_conv)
  then show ?thesis
    using x by (intro exI[of _ w] exI[of _ "[EConnect demo_ctl ''a'', EConnect demo_ctl ''a'']"])
      (simp add: w_def[symmetric] del: race_run_simps)
qed

end
