(* ===== verification/Teardown.thy ===== *)
theory Teardown
  imports Session_Control
begin

text \<open>
  The end of a connection in \<open>handleWS\<close> of \<open>internal/server/server.go\<close>: the statements after
  \<open>Run\<close>, interleaved with everything else the server does, and what is left of the connection
  after them.
\<close>

section \<open>The order of the statements\<close>

fun phase_rank :: "conn_phase \<Rightarrow> nat" where
  "phase_rank ConnRunning = 0"
| "phase_rank ConnDetachPtys = 1"
| "phase_rank ConnDetachProxies = 2"
| "phase_rank ConnRemoveStats = 3"

lemma phase_rank_inj: "phase_rank a = phase_rank b \<longleftrightarrow> a = b"
  by (cases a; cases b) simp_all

instantiation conn_phase :: linorder
begin

definition less_eq_conn_phase :: "conn_phase \<Rightarrow> conn_phase \<Rightarrow> bool" where
  "less_eq_conn_phase a b \<longleftrightarrow> phase_rank a \<le> phase_rank b"

definition less_conn_phase :: "conn_phase \<Rightarrow> conn_phase \<Rightarrow> bool" where
  "less_conn_phase a b \<longleftrightarrow> phase_rank a < phase_rank b"

instance
  by standard (auto simp: less_eq_conn_phase_def less_conn_phase_def phase_rank_inj)

end

text \<open>How many steps a connection is away from its end.\<close>

fun steps_left :: "connection option \<Rightarrow> nat" where
  "steps_left None = 0"
| "steps_left (Some cn) = 4 - phase_rank (cn_phase cn)"

lemma steps_left_pos: "0 < steps_left (Some cn)"
  by (cases "cn_phase cn") simp_all

section \<open>What leaves the connections alone\<close>

text \<open>The connections, and the senders of the statistics collector, which may also be dropped.\<close>

definition unended :: "world \<Rightarrow> world \<Rightarrow> bool" where
  "unended w' w \<longleftrightarrow> w_conns w' = w_conns w \<and> w_next w \<le> w_next w'
     \<and> cl_senders (w_stats w') \<subseteq>\<^sub>m cl_senders (w_stats w)"

lemma unended_refl [simp]: "unended w w"
  by (simp add: unended_def)

lemma unended_trans: "unended a b \<Longrightarrow> unended b c \<Longrightarrow> unended a c"
  by (auto simp: unended_def intro: map_le_trans)

lemma stats_upd [simp]:
  "w_stats (upd_hub i g w) = w_stats w" "w_stats (upd_pty p gp w) = w_stats w"
  "w_stats (upd_proxy q gq w) = w_stats w" "w_stats (upd_user u gu w) = w_stats w"
  "w_stats (run_pty p rp w) = w_stats w" "w_stats (run_proxy q rq w) = w_stats w"
  "w_conns (run_proxy q rq w) = w_conns w" "w_next (run_proxy q rq w) = w_next w"
  "w_stats (with_pty s w) = w_stats w" "w_stats (with_proxy u ps w) = w_stats w"
  by (auto simp: upd_hub_def upd_pty_def upd_proxy_def upd_user_def run_pty_def run_proxy_def
      with_pty_def with_proxy_def split: option.splits prod.splits)

lemma unended_upd [simp]:
  "unended (upd_hub i g w) w" "unended (upd_pty p gp w) w" "unended (upd_proxy q gq w) w"
  "unended (upd_user u gu w) w" "unended (run_pty p rp w) w" "unended (run_proxy q rq w) w"
  "unended (w\<lparr>w_fs := s\<rparr>) w" "unended (w\<lparr>w_hubs := hs\<rparr>) w" "unended (w\<lparr>w_downloads := ds\<rparr>) w"
  by (simp_all add: unended_def)

lemma unended_send [simp]: "unended (fst (send_to i f w)) w"
  by (simp add: send_to_def unended_def split: prod.split)

lemma unended_open_pty: "unended (fst (handleOpenPTY env i u f w)) w"
  by (cases rule: handleOpenPTY_cases[of env i u f w]) (simp_all add: unended_def addPTY_def send_to_def
      split: prod.split)

lemma unended_open_proxy: "unended (fst (handleOpenProxy env i u f w)) w"
  by (cases rule: handleOpenProxy_cases[of env i u f w]) (simp_all add: unended_def addProxy_def send_to_def
      split: prod.split)

lemma unended_close: "unended (fst (handleClosePTY i u f w)) w" "unended (fst (handleCloseProxy i u f w)) w"
  by (auto simp: handleClosePTY_def handleCloseProxy_def removePTY_def removeProxy_def unregister_def
      unended_def Let_def split: option.split prod.split handler.split)

lemma unended_ctrl:
  assumes "ctrl_handle_frame env i u f w = Some (w', e)"
  shows "unended w' w"
proof -
  have "unended w' w"
    if "handleOpenPTY env i u f w = (w', e) \<or> handleOpenProxy env i u f w = (w', e)
      \<or> handleClosePTY i u f w = (w', e) \<or> handleCloseProxy i u f w = (w', e)
      \<or> (\<exists>g. send_to i g w = (w', e))"
    using that unended_open_pty[of env i u f w] unended_open_proxy[of env i u f w]
      unended_close[of i u f w] unended_send[of i _ w] by (metis fst_conv)
  then show ?thesis
    using assms unfolding ctrl_handle_frame_def handlePortScan_def
    by (auto split: if_splits option.splits prod.splits simp: unended_def)
qed

lemma unended_message: "ws_message env i m w = Some w' \<Longrightarrow> unended w' w"
  using unended_ctrl by (auto simp: ws_message_def split: option.splits dispatch.splits handler.splits)

lemma broadcast_senders: "cl_senders (fst (broadcast send f ids cw)) \<subseteq>\<^sub>m cl_senders (fst cw)"
proof (induction ids arbitrary: cw)
  case (Cons sid ids)
  obtain c v where cw: "cw = (c, v)" by fastforce
  have d: "(cl_senders c)(sid := None) \<subseteq>\<^sub>m cl_senders c" by (simp add: map_le_def)
  show ?case
    using Cons.IH map_le_trans[OF Cons.IH] d
    by (auto simp: cw split: option.splits prod.splits)
qed simp

lemma unended_stats:
  "unended (run_stats (stats_apply ft store_send (StCollect penv l)) w) w"
  "unended (run_stats (stats_apply ft store_send (StSend ids l)) w) w"
  "unended (run_stats (stats_apply ft store_send (StExit l)) w) w"
proof -
  have g: "unended (run_stats g w) w"
    if "cl_senders (fst (g (w_stats w, w_hubs w))) \<subseteq>\<^sub>m cl_senders (w_stats w)" for g
    using that by (simp add: run_stats_def unended_def split_def)
  show "unended (run_stats (stats_apply ft store_send (StCollect penv l)) w) w"
    by (rule g) (simp add: loop_collect_def split: option.split prod.split)
  show "unended (run_stats (stats_apply ft store_send (StExit l)) w) w"
    by (rule g) (simp add: loop_exit_def split: option.split)
  show "unended (run_stats (stats_apply ft store_send (StSend ids l)) w) w"
    using broadcast_senders
    by (intro g) (auto simp: loop_send_def split: option.split loop_pc.split
        intro: map_le_trans[OF broadcast_senders])
qed

text \<open>The events that matter to a connection.\<close>

fun tears_down :: "nat \<Rightarrow> event \<Rightarrow> bool" where
  "tears_down i (ETeardown env j) \<longleftrightarrow> j = i"
| "tears_down i _ \<longleftrightarrow> False"

lemma event_cases:
  obtains (connect) env u where "e = EConnect env u"
  | (teardown) env i cn where "e = ETeardown env i" "w_conns w i = Some cn"
  | (other) "unended (world_apply e w) w" "\<And>i. tears_down i e \<Longrightarrow> w_conns w i = None"
proof (cases e)
  case (ETeardown env i)
  then show ?thesis using teardown other by (cases "w_conns w i") (simp_all add: ws_teardown_def)
next
  case (EMessage env i m)
  then show ?thesis using unended_message[of env i m w] by (intro other) (simp_all split: option.split)
next
  case (EDownload env reads k)
  then show ?thesis by (intro other) (simp_all add: run_download_def unended_def split: prod.split)
qed (use connect other in \<open>simp_all add: unended_stats del: stats_apply.simps\<close>)

section \<open>Connecting and tearing down\<close>

text \<open>Every sender of the statistics collector belongs to a connection that has not ended, under the
  identifier that the connection will remove.\<close>

definition stats_owned :: "world \<Rightarrow> bool" where
  "stats_owned w \<longleftrightarrow>
     (\<forall>sid i. cl_senders (w_stats w) sid = Some i \<longrightarrow>
        (\<exists>cn. w_conns w i = Some cn \<and> cn_statsID cn = sid))
     \<and> (\<forall>i \<ge> w_next w. w_conns w i = None)"

lemma stats_ownedD:
  assumes "stats_owned w"
  shows "cl_senders (w_stats w) sid = Some i \<Longrightarrow> \<exists>cn. w_conns w i = Some cn \<and> cn_statsID cn = sid"
    "w_next w \<le> i \<Longrightarrow> w_conns w i = None"
  using assms by (simp_all add: stats_owned_def)

lemma unended_owned:
  assumes "unended w' w" "stats_owned w"
  shows "stats_owned w'"
proof -
  have "cl_senders (w_stats w) sid = Some i" if "cl_senders (w_stats w') sid = Some i" for sid i
    using assms(1) that by (auto simp: unended_def dest: map_le_Some)
  then show ?thesis using assms by (auto simp: stats_owned_def unended_def)
qed

lemma registers_unended:
  "unended (registerHandlers order u i w) w" "unended (registerProxyHandlers order u i w) w"
  "unended (detachHub order u w) w" "unended (detachProxies order u w) w"
proof -
  have f: "unended (fold step order w) w" if "\<And>c v. unended (step c v) v" for step
    using that by (induction order arbitrary: w) (auto intro: unended_trans)
  show "unended (registerHandlers order u i w) w" "unended (registerProxyHandlers order u i w) w"
    "unended (detachHub order u w) w" "unended (detachProxies order u w) w"
    unfolding registerHandlers_def registerProxyHandlers_def detachHub_def detachProxies_def
    by (rule f; auto split: option.split intro: unended_trans[OF unended_upd(1) unended_upd(3)])+
qed

lemma connect_result:
  obtains sid where "w_conns (ws_connect env u w)
       = (w_conns w)(w_next w \<mapsto> \<lparr>cn_user = u, cn_statsID = sid, cn_phase = ConnRunning\<rparr>)"
    "w_next (ws_connect env u w) = w_next w + 1"
    "cl_senders (w_stats (ws_connect env u w)) \<subseteq>\<^sub>m (cl_senders (w_stats w))(sid \<mapsto> w_next w)"
proof (rule ws_connect_steps[of env w u])
  fix sid st hs s w6
  assume add: "collector_add (ce_float_text env) store_send (ce_proc env) (w_next w)
       (w_stats w, (w_hubs w)(w_next w := hub_new)) = (sid, st, hs)"
    and w6: "w6 = registerProxyHandlers (ce_proxy_order env) u (w_next w)
            (registerHandlers (ce_pty_order env) u (w_next w)
              (upd_hub (w_next w) (hub_register 0 HCtrl) (opened u sid st hs w)))"
    and c: "ws_connect env u w = w6\<lparr>w_fs := s\<rparr> \<or>
       (\<exists>f. ws_connect env u w = fst (send_to (w_next w) f (w6\<lparr>w_fs := s\<rparr>)))"
  let ?o = "opened u sid st hs w"
  have n: "w_next (registerHandlers order u j v) = w_next v" "w_next (registerProxyHandlers order u j v) = w_next v"
    "w_next (fst (send_to j f v)) = w_next v" for order j v f
    unfolding registerHandlers_def registerProxyHandlers_def
    by (rule fold_keeps; simp split: option.split)+ (simp add: send_to_def split: prod.split)
  have "cl_senders st = (cl_senders (w_stats w))(sid \<mapsto> w_next w)"
    using add by (auto simp: collector_add_def Let_def split: if_splits)
  moreover have "unended w6 ?o"
    unfolding w6 by (intro unended_trans[OF registers_unended(2)] unended_trans[OF registers_unended(1)] unended_upd(1))
  moreover have "w_next w6 = w_next ?o" by (simp add: w6 n)
  moreover have "unended (ws_connect env u w) (w6\<lparr>w_fs := s\<rparr>)" "w_next (ws_connect env u w) = w_next w6"
    using c n by auto
  ultimately show ?thesis
    by (intro that[of sid]) (auto simp: unended_def opened_def intro: map_le_trans)
qed

fun next_phase :: "conn_phase \<Rightarrow> conn_phase" where
  "next_phase ConnRunning = ConnDetachPtys"
| "next_phase ConnDetachPtys = ConnDetachProxies"
| "next_phase ConnDetachProxies = ConnRemoveStats"
| "next_phase ConnRemoveStats = ConnRemoveStats"

lemma remove_senders: "cl_senders (collector_remove sid c) = (cl_senders c)(sid := None)"
  by (auto simp: collector_remove_def cancel_loop_def Let_def fun_eq_iff split: option.split)

lemma teardown_result:
  assumes "w_conns w i = Some cn"
  shows "w_conns (ws_teardown env i w) = (w_conns w)(i :=
      (if cn_phase cn = ConnRemoveStats then None else Some (cn\<lparr>cn_phase := next_phase (cn_phase cn)\<rparr>)))"
    "w_next w \<le> w_next (ws_teardown env i w)"
    "cl_senders (w_stats (ws_teardown env i w)) \<subseteq>\<^sub>m
      (if cn_phase cn = ConnRemoveStats then (cl_senders (w_stats w))(cn_statsID cn := None)
       else cl_senders (w_stats w))"
  using registers_unended(3)[of "ce_pty_order env" "cn_user cn" w]
    registers_unended(4)[of "ce_proxy_order env" "cn_user cn" w] assms
  by (cases "cn_phase cn"; simp add: ws_teardown_def Let_def unended_def remove_senders)+

lemma steps_left_teardown:
  assumes "w_conns w i = Some cn"
  shows "Suc (steps_left (w_conns (ws_teardown env i w) i)) = steps_left (w_conns w i)"
  using assms by (cases "cn_phase cn") (simp_all add: teardown_result(1)[OF assms])

lemma owned_apply:
  assumes "stats_owned w"
  shows "stats_owned (world_apply e w)"
proof -
  note d = stats_ownedD[OF assms]
  show ?thesis
  proof (cases rule: event_cases[where e = e and w = w])
    case (connect env u)
    obtain sid where r: "w_conns (ws_connect env u w)
       = (w_conns w)(w_next w \<mapsto> \<lparr>cn_user = u, cn_statsID = sid, cn_phase = ConnRunning\<rparr>)"
      "w_next (ws_connect env u w) = w_next w + 1"
      "cl_senders (w_stats (ws_connect env u w)) \<subseteq>\<^sub>m (cl_senders (w_stats w))(sid \<mapsto> w_next w)"
      by (rule connect_result)
    have "\<exists>cn. w_conns (ws_connect env u w) i = Some cn \<and> cn_statsID cn = k"
      if "cl_senders (w_stats (ws_connect env u w)) k = Some i" for k i
      using map_le_Some[OF r(3) that] d(1)[of k i] d(2)[of i] by (auto simp: r(1) split: if_splits)
    then show ?thesis using connect d(2) by (simp add: stats_owned_def r(1,2))
  next
    case (teardown env i cn)
    note r = teardown_result[OF teardown(2), of env]
    have "\<exists>cn. w_conns (ws_teardown env i w) j = Some cn \<and> cn_statsID cn = k"
      if "cl_senders (w_stats (ws_teardown env i w)) k = Some j" for k j
      using map_le_Some[OF r(3) that] d(1)[of k j] teardown(2) by (auto simp: r(1) split: if_splits)
    then show ?thesis using teardown d(2) r(2) d(2)[of i] by (auto simp: stats_owned_def r(1))
  qed (rule unended_owned[OF _ assms])
qed

lemma owned_run: "stats_owned w \<Longrightarrow> stats_owned (world_run evs w)"
  by (induction evs arbitrary: w) (simp_all add: world_run_def owned_apply)

lemma owned_init: "stats_owned (world_init s uname hostname)"
  by (simp add: stats_owned_def world_init_def collector_new_def)

text \<open>No other event brings an existing connection back or moves it.\<close>

lemma steps_left_apply:
  assumes "i < w_next w"
  shows "steps_left (w_conns (world_apply e w) i)
      = steps_left (w_conns w i) - (if tears_down i e then 1 else 0)"
    "i < w_next (world_apply e w)"
proof -
  show "steps_left (w_conns (world_apply e w) i)
      = steps_left (w_conns w i) - (if tears_down i e then 1 else 0)"
  proof (cases rule: event_cases[where e = e and w = w])
    case (connect env u)
    obtain sid where "w_conns (ws_connect env u w)
       = (w_conns w)(w_next w \<mapsto> \<lparr>cn_user = u, cn_statsID = sid, cn_phase = ConnRunning\<rparr>)"
      by (rule connect_result)
    then show ?thesis using assms connect by simp
  next
    case (teardown env j cn)
    then show ?thesis using steps_left_teardown[OF teardown(2), of env] teardown_result(1)[OF teardown(2), of env]
      by (cases "i = j") auto
  qed (auto simp: unended_def)
  show "i < w_next (world_apply e w)"
  proof (cases rule: event_cases[where e = e and w = w])
    case (connect env u)
    have "w_next (ws_connect env u w) = w_next w + 1" by (rule connect_result)
    then show ?thesis using assms connect by simp
  next
    case (teardown env j cn)
    then show ?thesis using assms teardown_result(2)[OF teardown(2), of env] by simp
  qed (use assms in \<open>auto simp: unended_def\<close>)
qed

lemma steps_left_run:
  "i < w_next w \<Longrightarrow> steps_left (w_conns (world_run evs w) i)
     = steps_left (w_conns w i) - length (filter (tears_down i) evs)"
  by (induction evs arbitrary: w) (simp_all add: world_run_def steps_left_apply)

section \<open>Properties\<close>

text \<open>C17. The end of a connection. The statements after \<open>Run\<close> are four steps, in order, and whatever
  happens between them: once the last one has been made the connection is gone for good, the
  statistics collector no longer sends to it, and before that its phase never goes back.\<close>

theorem teardown_ends:
  assumes "w = world_run evs (world_init s uname hostname)" and "i < w_next w" and "w' = world_run later w"
  shows "(4 \<le> length (filter (tears_down i) later) \<longrightarrow>
        w_conns w' i = None \<and> (\<forall>sid. cl_senders (w_stats w') sid \<noteq> Some i))
    \<and> (\<forall>cn'. w_conns w' i = Some cn' \<longrightarrow> (\<exists>cn. w_conns w i = Some cn \<and> cn_phase cn \<le> cn_phase cn'))"
proof -
  note l = steps_left_run[OF assms(2), of later, folded assms(3)]
  have o: "stats_owned w'" using assms(1,3) owned_run[OF owned_run[OF owned_init]] by simp
  have "w_conns w' i = None" if "4 \<le> length (filter (tears_down i) later)"
  proof -
    have "steps_left (w_conns w i) \<le> 4" by (cases "w_conns w i") simp_all
    then have "steps_left (w_conns w' i) = 0" using l that by simp
    then show ?thesis using steps_left_pos[of "the (w_conns w' i)"] by (cases "w_conns w' i") auto
  qed
  moreover have "\<exists>cn. w_conns w i = Some cn \<and> cn_phase cn \<le> cn_phase cn'" if "w_conns w' i = Some cn'" for cn'
  proof (cases "w_conns w i")
    case (Some cn)
    have "phase_rank (cn_phase cn) < 4" by (cases "cn_phase cn") simp_all
    then show ?thesis using l that Some by (simp add: less_eq_conn_phase_def)
  qed (use l that steps_left_pos[of cn'] in simp)
  ultimately show ?thesis using stats_ownedD(1)[OF o] by fastforce
qed

section \<open>Witness\<close>

theorem teardown_ends_witness:
  "w_conns (world_run (replicate 4 (ETeardown demo_ctl 1)) demo_world) 1 = None"
proof (rule demo_connected)
  assume "w_next demo_world = 3"
  then show ?thesis
    using teardown_ends[OF demo_world_def _ refl, of 1 "replicate 4 (ETeardown demo_ctl 1)"]
    by (simp add: eval_nat_numeral)
qed

end
