(* ===== verification/Copy_Tree.thy ===== *)
theory Copy_Tree
  imports File_Ops
begin

text \<open>
  The recursive copy of \<open>internal/server/fileops.go\<close>: it ends and copies the whole tree when
  source and destination are apart, and it never succeeds when the destination is inside the
  source.
\<close>

section \<open>Changes below one path\<close>

definition apart :: "path \<Rightarrow> path \<Rightarrow> bool" where
  "apart p q \<longleftrightarrow> \<not> prefix p q \<and> \<not> prefix q p"

lemma apart_Cons [simp]: "apart (x # p) (y # q) \<longleftrightarrow> x \<noteq> y \<or> apart p q"
  by (auto simp: apart_def)

lemma apart_Nil [simp]: "\<not> apart [] q" "\<not> apart p []"
  by (simp_all add: apart_def)

lemma apart_append: "apart p q \<Longrightarrow> apart (p @ x) (q @ y)"
  by (induction p q rule: list_induct2') auto

lemma apart_append1: "apart p q \<Longrightarrow> apart (p @ x) q" "apart p q \<Longrightarrow> apart p (q @ y)"
  using apart_append[of p q x "[]"] apart_append[of p q "[]" y] by simp_all

lemma apart_siblings: "x \<noteq> y \<Longrightarrow> apart (d @ x # xs) (d @ y # ys)"
  by (induction d) auto

lemma apart_not_prefix: "apart p q \<Longrightarrow> \<not> prefix q (p @ x)"
  using apart_append1(1)[of p q x] by (simp add: apart_def)

lemma at_entry_walk: "at_entry f p t = Inr t' \<Longrightarrow> apart p q \<Longrightarrow> walk t' q = walk t q"
proof (induction f p t arbitrary: q t' rule: at_entry.induct)
  case (3 f x m es)
  then show ?case by (cases q) (auto split: sum.splits option.splits)
next
  case (4 f x y ys m es)
  then show ?case by (cases q) (auto split: sum.splits option.splits)
qed (auto split: sum.splits option.splits)

lemma fresh_dirs_walk: "\<not> prefix q xs \<Longrightarrow> walk (fresh_dirs md xs) q = Inl ENOENT"
  by (induction q xs rule: list_induct2') auto

lemma make_dirs_walk: "make_dirs md p t = Inr t' \<Longrightarrow> \<not> prefix q p \<Longrightarrow> walk t' q = walk t q"
proof (induction md p t arbitrary: q t' rule: make_dirs.induct)
  case (3 md x xs m es)
  then show ?case by (cases q) (auto simp: fresh_dirs_walk split: sum.splits option.splits)
qed auto

text \<open>From \<open>s\<close> to \<open>s'\<close> nothing has changed but files and directories at and below \<open>q\<close>, and
  directories made on the way there.\<close>

definition only_below :: "path \<Rightarrow> fs \<Rightarrow> fs \<Rightarrow> bool" where
  "only_below q s s' \<longleftrightarrow>
     (\<forall>x. apart q x \<longrightarrow> walk (fs_root s') x = walk (fs_root s) x) \<and>
     (\<forall>x. \<not> prefix q x \<longrightarrow> file_at (fs_root s') x = file_at (fs_root s) x)"

lemma only_below_refl [simp]: "only_below q s s"
  by (simp add: only_below_def)

lemma only_below_trans: "only_below q a b \<Longrightarrow> only_below q b c \<Longrightarrow> only_below q a c"
  by (simp add: only_below_def)

lemma only_below_mono:
  assumes "only_below (q @ x) s s'"
  shows "only_below q s s'"
proof -
  have "\<not> prefix (q @ x) y" if "\<not> prefix q y" for y using that append_prefixD by blast
  then show ?thesis using assms apart_append1(1)[of q _ x] by (auto simp: only_below_def)
qed

lemma only_below_tree:
  assumes "path_ok q" "on_tree (at_entry f) (abs_path q) s = Inr s'"
  shows "only_below q s s'"
proof -
  obtain t where t: "at_entry f q (fs_root s) = Inr t" "s' = s\<lparr>fs_root := t\<rparr>"
    using assms by (auto simp: on_tree_abs split: sum.splits)
  show ?thesis using at_entry_walk[OF t(1)] at_entry_other[OF t(1)] by (simp add: only_below_def t(2))
qed

lemma only_below_mkdir:
  assumes "path_ok r" "os_mkdir_all md (abs_path r) s = Inr s'" "prefix r q"
  shows "only_below q s s'" "file_at (fs_root s') x = file_at (fs_root s) x"
    "\<exists>m es. walk (fs_root s') r = Inr (Dir m es)"
proof -
  let ?md = "masked (fs_umask s) (and md 0x3FF)"
  obtain t where t: "make_dirs ?md r (fs_root s) = Inr t" "s' = s\<lparr>fs_root := t\<rparr>"
    using assms(1,2) by (auto simp: os_mkdir_all_def on_tree_abs split: sum.splits)
  show f: "file_at (fs_root s') x = file_at (fs_root s) x" for x
    using make_dirs_files[OF t(1)] by (simp add: t(2))
  show "\<exists>m es. walk (fs_root s') r = Inr (Dir m es)"
    using make_dirs_dir[OF t(1)] by (simp add: t(2) walk_is_dir)
  show "only_below q s s'"
    using f make_dirs_walk[OF t(1)] prefix_order.trans[OF _ assms(3)]
    by (auto simp: only_below_def t(2) apart_def)
qed

lemma copyFile_result:
  assumes "path_ok p" "path_ok q" "p \<noteq> q" "q \<noteq> []" "walk (fs_root s) p = Inr (File m b)"
    and "copyFile (abs_path p) (abs_path q) s = (s', e)"
  shows "only_below q s s'" "e = None \<Longrightarrow> \<exists>m'. file_at (fs_root s') q = Some (m', b)"
proof -
  have dir: "path_dir (abs_path q) = abs_path (butlast q)" "path_ok (butlast q)" "prefix (butlast q) q"
    using assms(2,4) path_dir_abs[of q] path_ok_butlast[of q]
    by (simp_all add: path_ok_def prefixeq_butlast)
  have f0: "file_at (fs_root s) p = Some (m, b)" using assms(5) by (simp add: walk_file_at)
  have run: "run_calls [os_mkdir_all 0x1ED (abs_path (butlast q)), os_open_write True m (abs_path q),
      io_copy (abs_path p) (abs_path q)] s = (s', e)"
    using assms(6) by (simp only: copyFile_def dir(1) os_stat_abs[OF assms(1)] assms(5) sum.case node_mode.simps)
  show "only_below q s s'" "e = None \<Longrightarrow> \<exists>m'. file_at (fs_root s') q = Some (m', b)"
  proof (atomize (full), cases "os_mkdir_all 0x1ED (abs_path (butlast q)) s")
    case (Inr s1)
    note mk = only_below_mkdir[OF dir(2) Inr dir(3)]
    show "only_below q s s' \<and> (e = None \<longrightarrow> (\<exists>m'. file_at (fs_root s') q = Some (m', b)))"
    proof (cases "os_open_write True m (abs_path q) s1")
      case op: (Inr s2)
      note o = op[unfolded os_open_write_def]
      have b2: "only_below q s s2" using mk(1) only_below_tree[OF assms(2) o] only_below_trans by blast
      obtain m2 where f2: "file_at (fs_root s2) q = Some (m2, [])"
        using at_entry_abs_cases(1)[OF assms(2) o]
        by (cases "entry (fs_root s1) q")
          (auto simp: file_at_def elim!: open_entry.elims)
      have np: "\<not> prefix q p"
      proof
        assume "prefix q p"
        then have "is_dir (fs_root s1) q"
          using file_parents[of "fs_root s1" p "(m, b)" q] assms(3) mk(2)[of p] f0
          by (simp add: strict_prefix_def)
        then show False
          using at_entry_abs_cases(1)[OF assms(2) o]
          by (auto simp: is_dir_def split: option.splits node.splits)
      qed
      have "file_at (fs_root s2) p = Some (m, b)"
        using at_entry_abs_cases(2)[OF assms(2) o np] mk(2)[of p] f0 by simp
      then have r: "os_read_file (abs_path p) s2 = Inr b"
        using walk_file_at[of "fs_root s2" p m b] assms(1) by (simp add: os_read_file_def os_stat_abs)
      obtain s3 where s3: "os_write_at 0 b (abs_path q) s2 = Inr s3"
          "file_at (fs_root s3) q = Some (m2, splice 0 b [])"
        using os_write_file[OF assms(2,4) f2] by metis
      have "only_below q s2 s3" by (rule only_below_tree[OF assms(2) s3(1)[unfolded os_write_at_def]])
      then have "only_below q s s3" using b2 only_below_trans by blast
      moreover have "io_copy (abs_path p) (abs_path q) s2 = Inr s3" using r s3(1) by (simp add: io_copy_def)
      then have "s' = s3" "e = None" using run Inr op by simp_all
      moreover have "splice 0 b [] = b" by (simp add: splice_def)
      ultimately show ?thesis using s3(2) by simp
    qed (use run Inr mk(1) in auto)
  qed (use run in auto)
qed

section \<open>Trees\<close>

fun tree_height :: "node \<Rightarrow> nat" where
  "tree_height (File m b) = 0"
| "tree_height (Dir m es) = Suc (foldr (\<lambda>e k. max (tree_height (snd e)) k) es 0)"

text \<open>The names a file system can hold.\<close>

fun tree_ok :: "node \<Rightarrow> bool" where
  "tree_ok (File m b) \<longleftrightarrow> True"
| "tree_ok (Dir m es) \<longleftrightarrow>
     distinct (map fst es) \<and>
     list_all (\<lambda>e. plain_name (fst e) \<and> CHR 0x00 \<notin> set (fst e) \<and> tree_ok (snd e)) es"

lemma tree_height_entry:
  assumes "tree_height (Dir m es) \<le> Suc n" "(x, nd) \<in> set es"
  shows "tree_height nd \<le> n"
proof -
  have "tree_height nd \<le> foldr (\<lambda>e k. max (tree_height (snd e)) k) es 0"
    using assms(2) by (induction es) auto
  then show ?thesis using assms(1) by simp
qed

text \<open>Every file of the tree is there at and below \<open>q\<close>, with its content.\<close>

definition copied :: "node \<Rightarrow> path \<Rightarrow> fs \<Rightarrow> bool" where
  "copied nd q s \<longleftrightarrow>
     (\<forall>x m b. file_at nd x = Some (m, b) \<longrightarrow> (\<exists>m'. file_at (fs_root s) (q @ x) = Some (m', b)))"

lemma copied_Dir:
  assumes "\<And>x nd. (x, nd) \<in> set es \<Longrightarrow> copied nd (q @ [x]) s"
  shows "copied (Dir m es) q s"
  unfolding copied_def
proof (intro allI impI)
  fix x mo b assume f: "file_at (Dir m es) x = Some (mo, b)"
  then obtain y ys nd where "x = y # ys" "map_of es y = Some nd" "file_at nd ys = Some (mo, b)"
    by (cases x) (auto simp: bind_eq_Some_conv)
  then show "\<exists>m'. file_at (fs_root s) (q @ x) = Some (m', b)"
    using assms[of y nd] by (auto simp: copied_def dest: map_of_SomeD)
qed

lemma copied_below: "copied nd q s \<Longrightarrow> only_below r s s' \<Longrightarrow> apart r q \<Longrightarrow> copied nd q s'"
  using apart_not_prefix[of q r] by (auto simp: copied_def only_below_def apart_def)

text \<open>One entry: the recursive call or the copy of a file.\<close>

definition copies :: "node \<Rightarrow> path \<Rightarrow> fs \<Rightarrow> (fs \<times> os_err option) option \<Rightarrow> bool" where
  "copies nd q s r \<longleftrightarrow>
     (\<exists>s' e. r = Some (s', e) \<and> only_below q s s' \<and> (e = None \<longrightarrow> copied nd q s'))"

definition copy_pre :: "path \<Rightarrow> path \<Rightarrow> bool" where
  "copy_pre p q \<longleftrightarrow> path_ok p \<and> path_ok q \<and> apart p q"

lemma copies_entries:
  assumes "copy_pre p q"
    and "\<And>x nd. (x, nd) \<in> set es \<Longrightarrow> plain_name x \<and> CHR 0x00 \<notin> set x"
    and "distinct (map fst es)"
    and "\<And>x nd. (x, nd) \<in> set es \<Longrightarrow> walk (fs_root s) (p @ [x]) = Inr nd"
    and "\<And>x nd s. (x, nd) \<in> set es \<Longrightarrow> walk (fs_root s) (p @ [x]) = Inr nd \<Longrightarrow> node_is_dir nd \<Longrightarrow>
           copies nd (q @ [x]) s (copyDir n (abs_path (p @ [x])) (abs_path (q @ [x])) s)"
  shows "\<exists>s' e. copy_entries n (abs_path p) (abs_path q) es s = Some (s', e) \<and> only_below q s s'
    \<and> (e = None \<longrightarrow> (\<forall>(x, nd) \<in> set es. copied nd (q @ [x]) s'))
    \<and> (\<forall>x nd. x \<notin> fst ` set es \<longrightarrow> copied nd (q @ [x]) s \<longrightarrow> copied nd (q @ [x]) s')"
  using assms(2-5)
proof (induction es arbitrary: s)
  case (Cons a es)
  obtain x nd where a: "a = (x, nd)" by fastforce
  have pre: "path_ok p" "path_ok q" "apart p q" using assms(1) by (auto simp: copy_pre_def)
  have x: "plain_name x" "CHR 0x00 \<notin> set x" using Cons.prems(1)[of x nd] a by auto
  note jp = path_join_abs[OF pre(1) x] and jq = path_join_abs[OF pre(2) x]
  have w: "walk (fs_root s) (p @ [x]) = Inr nd" using Cons.prems(3)[of x nd] a by simp
  let ?r = "if node_is_dir nd then copyDir n (abs_path (p @ [x])) (abs_path (q @ [x])) s
            else Some (copyFile (abs_path (p @ [x])) (abs_path (q @ [x])) s)"
  have "copies nd (q @ [x]) s ?r"
  proof (cases nd)
    case (File m b)
    obtain s' e where c: "copyFile (abs_path (p @ [x])) (abs_path (q @ [x])) s = (s', e)" by fastforce
    have ne: "p @ [x] \<noteq> q @ [x]" using pre(3) by (auto simp: apart_def)
    have "copied (File m b) (q @ [x]) s'" if "\<exists>m'. file_at (fs_root s') (q @ [x]) = Some (m', b)"
      unfolding copied_def
    proof (intro allI impI)
      fix y m' b' assume "file_at (File m b) y = Some (m', b')"
      then show "\<exists>m''. file_at (fs_root s') ((q @ [x]) @ y) = Some (m'', b')"
        using that by (cases y) auto
    qed
    then show ?thesis
      using copyFile_result[OF jp(2) jq(2) ne _ w[unfolded File] c] c File by (simp add: copies_def)
  next
    case (Dir m es)
    then show ?thesis using Cons.prems(4)[of x nd s] w a by simp
  qed
  then obtain s1 e1 where r: "?r = Some (s1, e1)" "only_below (q @ [x]) s s1"
      "e1 = None \<Longrightarrow> copied nd (q @ [x]) s1" by (auto simp: copies_def)
  have b1: "only_below q s s1" by (rule only_below_mono[OF r(2)])
  have keep: "copied nd' (q @ [y]) s1" if "y \<noteq> x" "copied nd' (q @ [y]) s" for y nd'
    using copied_below[OF that(2) r(2)] that(1) apart_siblings[of x y q "[]" "[]"] by simp
  show ?case
  proof (cases e1)
    case (Some e)
    then have "copy_entries n (abs_path p) (abs_path q) (a # es) s = Some (s1, Some e)"
      using r(1) by (simp add: a jp(1) jq(1) Let_def)
    then show ?thesis using b1 keep by (auto simp: a)
  next
    case None
    have w1: "walk (fs_root s1) (p @ [y]) = Inr nd'" if "(y, nd') \<in> set es" for y nd'
      using Cons.prems(3)[of y nd'] that b1 apart_append1(1)[OF pre(3), of "[y]"]
      by (simp add: only_below_def apart_def)
    obtain s' e where c: "copy_entries n (abs_path p) (abs_path q) es s1 = Some (s', e)"
        "only_below q s1 s'" "e = None \<Longrightarrow> \<forall>(x, nd) \<in> set es. copied nd (q @ [x]) s'"
        "\<And>y nd'. y \<notin> fst ` set es \<Longrightarrow> copied nd' (q @ [y]) s1 \<Longrightarrow> copied nd' (q @ [y]) s'"
      using Cons.IH[of s1] Cons.prems(1,2,4) w1 by (fastforce simp: a)
    have "copy_entries n (abs_path p) (abs_path q) (a # es) s = Some (s', e)"
      using r(1) c(1) None by (simp add: a jp(1) jq(1) Let_def)
    moreover have "only_below q s s'" by (rule only_below_trans[OF b1 c(2)])
    moreover have "copied nd (q @ [x]) s'"
      using c(4)[of x nd] r(3)[OF None] Cons.prems(2) by (auto simp: a)
    moreover have "copied nd' (q @ [y]) s'"
      if "y \<notin> fst ` set (a # es)" "copied nd' (q @ [y]) s" for y nd'
      using c(4)[of y nd'] keep[of y nd'] that by (auto simp: a)
    ultimately show ?thesis using c(3) by (auto simp: a)
  qed
qed simp

lemma copyDir_copies:
  "copy_pre p q \<Longrightarrow> walk (fs_root s) p = Inr (Dir m es) \<Longrightarrow> tree_ok (Dir m es)
     \<Longrightarrow> tree_height (Dir m es) \<le> n \<Longrightarrow> copies (Dir m es) q s (copyDir n (abs_path p) (abs_path q) s)"
proof (induction n arbitrary: p q s m es)
  case (Suc n)
  have pre: "path_ok p" "path_ok q" "apart p q" using Suc.prems(1) by (auto simp: copy_pre_def)
  show ?case
  proof (cases "os_mkdir_all m (abs_path q) s")
    case (Inl e)
    then show ?thesis using Suc.prems(2) pre(1) by (simp add: copies_def os_stat_abs)
  next
    case (Inr s1)
    have b1: "only_below q s s1" by (rule only_below_mkdir(1)[OF pre(2) Inr]) simp
    have w1: "walk (fs_root s1) (p @ x) = walk (fs_root s) (p @ x)" for x
      using b1 apart_append1(1)[OF pre(3), of x] by (simp add: only_below_def apart_def)
    have dir: "os_read_dir (abs_path p) s1 = Inr es"
      using w1[of "[]"] Suc.prems(2) pre(1) by (simp add: os_read_dir_def os_stat_abs)
    have ok: "plain_name x \<and> CHR 0x00 \<notin> set x" "tree_ok nd" if "(x, nd) \<in> set es" for x nd
      using Suc.prems(3) that by (auto simp: list_all_iff)
    have dist: "distinct (map fst es)" using Suc.prems(3) by simp
    have ent: "walk (fs_root s1) (p @ [x]) = Inr nd" if "(x, nd) \<in> set es" for x nd
      using w1[of "[x]"] Suc.prems(2) map_of_is_SomeI[OF dist that] by (simp add: walk_append)
    have sub: "copies nd (q @ [x]) s' (copyDir n (abs_path (p @ [x])) (abs_path (q @ [x])) s')"
      if e: "(x, nd) \<in> set es" "walk (fs_root s') (p @ [x]) = Inr nd" "node_is_dir nd" for x nd s'
    proof -
      obtain m' es' where nd: "nd = Dir m' es'" using e(3) by (cases nd) auto
      have "copy_pre (p @ [x]) (q @ [x])"
        using pre ok(1)[OF e(1)] apart_append[OF pre(3)] by (simp add: copy_pre_def path_ok_def)
      then show ?thesis
        using Suc.IH[of "p @ [x]" "q @ [x]" s' m' es'] e nd ok(2)[OF e(1)]
          tree_height_entry[OF Suc.prems(4) e(1)] by simp
    qed
    obtain s' e where c: "copy_entries n (abs_path p) (abs_path q) es s1 = Some (s', e)"
        "only_below q s1 s'" "e = None \<Longrightarrow> \<forall>(x, nd) \<in> set es. copied nd (q @ [x]) s'"
    proof -
      have "\<exists>s' e. copy_entries n (abs_path p) (abs_path q) es s1 = Some (s', e) \<and> only_below q s1 s'
          \<and> (e = None \<longrightarrow> (\<forall>(x, nd) \<in> set es. copied nd (q @ [x]) s'))
          \<and> (\<forall>x nd. x \<notin> fst ` set es \<longrightarrow> copied nd (q @ [x]) s1 \<longrightarrow> copied nd (q @ [x]) s')"
        by (rule copies_entries[OF Suc.prems(1) ok(1) dist]) (assumption | rule ent sub)+
      then show thesis using that by blast
    qed
    have "copyDir (Suc n) (abs_path p) (abs_path q) s = Some (s', e)"
      using Suc.prems(2) pre(1) Inr dir c(1) by (simp add: os_stat_abs)
    moreover have "only_below q s s'" by (rule only_below_trans[OF b1 c(2)])
    moreover have "copied (Dir m es) q s'" if "e = None"
      using c(3)[OF that] by (intro copied_Dir) blast
    ultimately show ?thesis by (simp add: copies_def)
  qed
qed simp

section \<open>A destination inside the source\<close>

lemma path_ok_parts [simp]:
  "path_ok (x # xs) \<longleftrightarrow> plain_name x \<and> CHR 0x00 \<notin> set x \<and> path_ok xs"
  "path_ok (xs @ ys) \<longleftrightarrow> path_ok xs \<and> path_ok ys" "path_ok []"
  by (auto simp: path_ok_def)

lemma copy_entries_success:
  "copy_entries n src dst es s = Some (s', None) \<Longrightarrow> (x, nd) \<in> set es \<Longrightarrow> node_is_dir nd \<Longrightarrow>
     \<exists>s1 s2. copyDir n (path_join [src, x]) (path_join [dst, x]) s1 = Some (s2, None)"
proof (induction es arbitrary: s)
  case (Cons a es)
  then show ?case
    by (cases a) (auto simp: Let_def split: option.splits prod.splits if_splits)
qed simp

lemma mkdir_inside:
  assumes "path_ok p" "path_ok (p @ x # z)" "os_mkdir_all md (abs_path (p @ x # z)) s = Inr s1"
  obtains m es nd where "walk (fs_root s1) p = Inr (Dir m es)" "map_of es x = Some nd" "node_is_dir nd"
proof -
  obtain m' es' where "walk (fs_root s1) (p @ x # z) = Inr (Dir m' es')"
    using only_below_mkdir(3)[OF assms(2,3), of "p @ x # z"] by auto
  then obtain n where n: "walk (fs_root s1) p = Inr n" "walk n (x # z) = Inr (Dir m' es')"
    by (auto simp: walk_append split: sum.splits)
  then obtain m es nd where "n = Dir m es" "map_of es x = Some nd" "walk nd z = Inr (Dir m' es')"
    by (cases n) (auto split: option.splits)
  then show ?thesis using that n(1) by (cases nd; cases z) auto
qed

lemma copyDir_inside:
  "path_ok p \<Longrightarrow> path_ok z \<Longrightarrow> z \<noteq> [] \<Longrightarrow> copyDir n (abs_path p) (abs_path (p @ z)) s \<noteq> Some (s', None)"
proof (induction n arbitrary: p z s s')
  case (Suc n)
  obtain x ys where z: "z = x # ys" using Suc.prems(3) by (cases z) auto
  have x: "plain_name x" "CHR 0x00 \<notin> set x" using Suc.prems(2) by (simp_all add: z)
  have q: "path_ok (p @ x # ys)" using Suc.prems(1,2) by (simp add: z)
  note jp = path_join_abs[OF Suc.prems(1) x] and jq = path_join_abs[OF q x]
  show ?case
  proof
    assume c: "copyDir (Suc n) (abs_path p) (abs_path (p @ z)) s = Some (s', None)"
    then obtain md s1 es where s1: "os_mkdir_all md (abs_path (p @ z)) s = Inr s1"
        "os_read_dir (abs_path p) s1 = Inr es"
        "copy_entries n (abs_path p) (abs_path (p @ z)) es s1 = Some (s', None)"
      by (auto split: sum.splits)
    obtain m es' nd where w: "walk (fs_root s1) p = Inr (Dir m es')" "map_of es' x = Some nd"
        "node_is_dir nd"
      using mkdir_inside[OF Suc.prems(1) q s1(1)[unfolded z]] by metis
    have "es' = es" using s1(2) w(1) Suc.prems(1) by (simp add: os_read_dir_def os_stat_abs)
    then obtain s2 s3 where "copyDir n (abs_path (p @ [x])) (abs_path ((p @ [x]) @ ys @ [x])) s2 = Some (s3, None)"
      using copy_entries_success[OF s1(3) map_of_SomeD[of es x nd] w(3)] w(2) jp(1) jq(1) by (auto simp: z)
    moreover have "path_ok (ys @ [x])" using Suc.prems(2) x by (simp add: z)
    ultimately show False using Suc.IH[of "p @ [x]" "ys @ [x]" s2 s3] jp(2) by simp
  qed
qed simp

text \<open>With nothing else in the way the copy goes on for ever.\<close>

lemma make_dirs_one:
  "walk t p = Inr (Dir m []) \<Longrightarrow>
     \<exists>t'. make_dirs md (p @ [x]) t = Inr t' \<and> walk t' p = Inr (Dir m [(x, Dir md [])])"
proof (induction t p rule: walk.induct)
  case (3 m' es y ys)
  then obtain n where n: "map_of es y = Some n" "walk n ys = Inr (Dir m [])"
    by (auto split: option.splits)
  then obtain n' where "make_dirs md (ys @ [x]) n = Inr n'" "walk n' ys = Inr (Dir m [(x, Dir md [])])"
    using "3.IH" by blast
  then show ?case using n(1) by simp
qed auto

lemma copyDir_endless:
  "path_ok p \<Longrightarrow> path_ok [x] \<Longrightarrow> walk (fs_root s) p = Inr (Dir m [])
     \<Longrightarrow> copyDir n (abs_path p) (abs_path (p @ [x])) s = None"
proof (induction n arbitrary: p s m)
  case (Suc n)
  have x: "plain_name x" "CHR 0x00 \<notin> set x" using Suc.prems(2) by simp_all
  have q: "path_ok (p @ [x])" using Suc.prems(1,2) by simp
  note jp = path_join_abs[OF Suc.prems(1) x] and jq = path_join_abs[OF q x]
  obtain md t where t: "os_mkdir_all m (abs_path (p @ [x])) s = Inr (s\<lparr>fs_root := t\<rparr>)"
      "walk t p = Inr (Dir m [(x, Dir md [])])"
    using make_dirs_one[OF Suc.prems(3), of "masked (fs_umask s) (and m 0x3FF)" x] q
    by (auto simp: os_mkdir_all_def on_tree_abs)
  let ?s1 = "s\<lparr>fs_root := t\<rparr>"
  have "walk (fs_root ?s1) (p @ [x]) = Inr (Dir md [])" using t(2) by (simp add: walk_append)
  then have "copyDir n (abs_path (p @ [x])) (abs_path (p @ [x, x])) ?s1 = None"
    using Suc.IH[OF jp(2) Suc.prems(2), of ?s1 md] by simp
  then show ?case
    using Suc.prems(1,3) t jp(1) jq(1) by (simp add: os_stat_abs os_read_dir_def Let_def)
qed simp

section \<open>Properties\<close>

text \<open>C21. Copying a directory ends when neither path is inside the other: as many recursive calls
  as the source has levels are enough. Only the destination changes, and when no error is
  reported every file of the source tree is there with its content.\<close>

theorem copy_tree_ends:
  assumes "path_ok p" "path_ok q" "path_clean src = abs_path p" "path_clean dst = abs_path q"
    and "\<not> prefix p q" "\<not> prefix q p"
    and "walk (fs_root s) p = Inr (Dir m es)" "tree_ok (Dir m es)" "tree_height (Dir m es) \<le> n"
  shows "\<exists>s' e. copyPath n src dst s = Some (s', e)
    \<and> (\<forall>x. \<not> prefix q x \<longrightarrow> file_at (fs_root s') x = file_at (fs_root s) x)
    \<and> (e = None \<longrightarrow> (\<forall>x b mo. file_at (fs_root s) (p @ x) = Some (mo, b) \<longrightarrow>
          (\<exists>m'. file_at (fs_root s') (q @ x) = Some (m', b))))"
proof -
  have "copy_pre p q" using assms(1,2,5,6) by (simp add: copy_pre_def apart_def)
  then obtain s' e where c: "copyDir n (abs_path p) (abs_path q) s = Some (s', e)" "only_below q s s'"
      "e = None \<Longrightarrow> copied (Dir m es) q s'"
    using copyDir_copies[OF _ assms(7-9), of q] by (auto simp: copies_def)
  have "copyPath n src dst s = Some (s', e)"
    using c(1) assms(1,3,4,7) by (simp add: copyPath_def Let_def os_stat_abs)
  moreover have "file_at (fs_root s) (p @ x) = file_at (Dir m es) x" for x
    using assms(7) by (simp add: file_at_def entry_def walk_append)
  ultimately show ?thesis using c(2,3) by (auto simp: only_below_def copied_def)
qed

text \<open>Copying a directory to a place inside itself never succeeds: the directory just made is
  among the entries to copy, so every level makes the next one. Where no error stops it, as for
  a directory that was empty, the recursion has no end.\<close>

theorem copy_into_itself:
  assumes "path_ok p" "path_ok z" "z \<noteq> []" "path_clean src = abs_path p" "path_clean dst = abs_path (p @ z)"
    and "is_dir (fs_root s) p"
  shows "copyPath n src dst s \<noteq> Some (s', None)
    \<and> (walk (fs_root s) p = Inr (Dir m []) \<and> length z = 1 \<longrightarrow> copyPath n src dst s = None)"
proof -
  obtain m' es where w: "walk (fs_root s) p = Inr (Dir m' es)" using assms(6) by (auto simp: walk_is_dir)
  have c: "copyPath n src dst s = copyDir n (abs_path p) (abs_path (p @ z)) s"
    using w assms(1,4,5) by (simp add: copyPath_def Let_def os_stat_abs)
  have "copyDir n (abs_path p) (abs_path (p @ z)) s = None"
    if "walk (fs_root s) p = Inr (Dir m [])" "length z = 1"
    using that assms(1,2) copyDir_endless[of p "hd z" s m n] by (cases z) auto
  then show ?thesis using c copyDir_inside[OF assms(1-3)] by simp
qed

section \<open>Witnesses\<close>

lemma demo_copy_paths:
  "path_ok [''home'', ''a'']" "path_ok [''b'']" "path_ok [''c'']"
  "path_clean ''/home/a'' = abs_path [''home'', ''a'']" "path_clean ''/b'' = abs_path [''b'']"
  "path_clean ''/b/c'' = abs_path ([''b''] @ [''c''])"
  by (simp_all add: plain_name_def path_clean_def abs_path_def is_rooted_def has_prefix_def)

theorem copy_tree_ends_witness:
  "\<exists>s' e. copyPath 1 ''/home/a'' ''/b'' demo_fs = Some (s', e)
    \<and> (e = None \<longrightarrow> (\<exists>m'. file_at (fs_root s') [''b'', ''f''] = Some (m', [1, 2])))"
proof -
  have w: "walk (fs_root demo_fs) [''home'', ''a''] = Inr (Dir 0x1ED [(''f'', File 0x1A4 [1, 2])])"
    by (simp add: demo_fs_def)
  have f: "file_at (fs_root demo_fs) ([''home'', ''a''] @ [''f'']) = Some (0x1A4, [1, 2])"
    by (simp add: demo_fs_def)
  show ?thesis
    using copy_tree_ends[OF demo_copy_paths(1,2,4,5) _ _ w, of 1] f
    by (fastforce simp: plain_name_def)
qed

theorem copy_into_itself_witness:
  "\<forall>n. copyPath n ''/b'' ''/b/c'' (demo_fs\<lparr>fs_root := Dir 0x1ED [(''b'', Dir 0x1ED [])]\<rparr>) = None"
proof
  fix n
  let ?s = "demo_fs\<lparr>fs_root := Dir 0x1ED [(''b'', Dir 0x1ED [])]\<rparr>"
  show "copyPath n ''/b'' ''/b/c'' ?s = None"
    using copy_into_itself[OF demo_copy_paths(2,3) _ demo_copy_paths(5,6), where s = ?s and n = n and m = "0x1ED"] by simp
qed

end
