(* ===== verification/Auth.thy ===== *)
theory Auth
  imports Go_Text
begin

text \<open>
  \<open>internal/auth/auth.go\<close>: a login is a successful SSH connection to the local \<open>sshd\<close> with the
  given credentials, and earns a signed JWT; a request is accepted when its JWT is. The JWT
  library and the SSH library are not part of the repository: their functions are arguments,
  and what the code relies on is the predicate \<open>jwt_ok\<close>. Times are nanoseconds.
\<close>

section \<open>The libraries\<close>

text \<open>The signing method in a token's header: HMAC with a hash of so many bits, or another one.\<close>

datatype sign_method = HMAC nat | OtherMethod string

text \<open>\<open>jwt.RegisteredClaims\<close>, the fields the code sets and reads.\<close>

record claims =
  jc_sub :: string
  jc_iat :: "int option"
  jc_exp :: "int option"

record jwt_token =
  jt_method :: sign_method
  jt_claims :: claims
  jt_valid :: bool

text \<open>
  \<open>jwt.NewNumericDate\<close>, \<open>NewWithClaims(SigningMethodHS256, claims).SignedString(key)\<close>, and
  \<open>ParseWithClaims\<close> with the key function it is given, at the time of the call.
\<close>

record jwt_lib =
  jl_date :: "int \<Rightarrow> int"
  jl_sign :: "bytes \<Rightarrow> claims \<Rightarrow> string + string"
  jl_parse :: "(sign_method \<Rightarrow> string + bytes) \<Rightarrow> int \<Rightarrow> string \<Rightarrow> string + jwt_token"

text \<open>
  The documented behaviour: what was signed is a text of three parts, so not empty, and parses again, as HS256 and with the same claims, as
  long as the key function gives the same key and the token has not expired; and what parses
  has got a key from the key function and has not expired.
\<close>

definition jwt_ok :: "jwt_lib \<Rightarrow> bool" where
  "jwt_ok lib \<longleftrightarrow>
     (\<forall>key c s kf now.
        jl_sign lib key c = Inr s \<and> kf (HMAC 256) = Inr key \<and>
        (\<forall>e. jc_exp c = Some e \<longrightarrow> now < e) \<longrightarrow>
        s \<noteq> [] \<and>
        jl_parse lib kf now s = Inr \<lparr>jt_method = HMAC 256, jt_claims = c, jt_valid = True\<rparr>) \<and>
     (\<forall>kf now s t. jl_parse lib kf now s = Inr t \<longrightarrow>
        (\<exists>key. kf (jt_method t) = Inr key) \<and> (\<forall>e. jc_exp (jt_claims t) = Some e \<longrightarrow> now < e))"

lemma jwt_okD:
  assumes "jwt_ok lib"
  shows "jl_sign lib key c = Inr s \<Longrightarrow> kf (HMAC 256) = Inr key \<Longrightarrow>
      (\<And>e. jc_exp c = Some e \<Longrightarrow> now < e) \<Longrightarrow>
      s \<noteq> [] \<and> jl_parse lib kf now s = Inr \<lparr>jt_method = HMAC 256, jt_claims = c, jt_valid = True\<rparr>"
    "jl_parse lib kf now s = Inr t \<Longrightarrow>
      (\<exists>key. kf (jt_method t) = Inr key) \<and> (\<forall>e. jc_exp (jt_claims t) = Some e \<longrightarrow> now < e)"
  using assms unfolding jwt_ok_def by blast+

text \<open>\<open>'k\<close> is the type of private keys.\<close>

datatype 'k ssh_auth = Password string | PublicKeys 'k

record 'k client_config =
  cc_user :: string
  cc_auth :: "'k ssh_auth"
  cc_timeout :: int

text \<open>The errors of the TCP connection, of the SSH handshake and of parsing a key, if any; the
  deadline of the context and the time.\<close>

record 'k ssh_env =
  se_now :: int
  se_deadline :: "int option"
  se_dial :: "string \<Rightarrow> string option"
  se_handshake :: "string \<Rightarrow> 'k client_config \<Rightarrow> string option"
  se_parse_key :: "bytes \<Rightarrow> string + 'k"

section \<open>The authenticator\<close>

definition DefaultSSHAddr :: string where
  "DefaultSSHAddr = ''localhost:22''"

definition second :: int where
  "second = 1000000000"

definition DefaultJWTTTL :: int where
  "DefaultJWTTTL = 24 * 3600 * second"

record authenticator =
  au_sshAddr :: string
  au_jwtSecret :: bytes
  au_jwtTTL :: int

definition auth_new :: "string \<Rightarrow> bytes \<Rightarrow> int \<Rightarrow> authenticator" where
  "auth_new sshAddr jwtSecret jwtTTL =
     \<lparr>au_sshAddr = (if sshAddr = [] then DefaultSSHAddr else sshAddr),
      au_jwtSecret = jwtSecret,
      au_jwtTTL = (if jwtTTL \<le> 0 then DefaultJWTTTL else jwtTTL)\<rparr>"

datatype auth_err =
    DeadlineExceeded
  | DialFailed string string
  | HandshakeFailed string
  | SignFailed string
  | AuthFailed auth_err
  | ParseKeyFailed string
  | InvalidToken string
  | InvalidClaims
  | MissingSub

text \<open>\<open>dialSSH\<close>; \<open>None\<close>: there is a connection.\<close>

definition dialSSH :: "authenticator \<Rightarrow> 'k ssh_env \<Rightarrow> 'k client_config \<Rightarrow> auth_err option" where
  "dialSSH a env cfg =
     (let t = (case se_deadline env of None \<Rightarrow> 10 * second | Some d \<Rightarrow> d - se_now env)
      in if se_deadline env \<noteq> None \<and> t \<le> 0 then Some DeadlineExceeded
         else
           (case se_dial env (au_sshAddr a) of
              Some e \<Rightarrow> Some (DialFailed (au_sshAddr a) e)
            | None \<Rightarrow>
                map_option HandshakeFailed
                  (se_handshake env (au_sshAddr a) (cfg\<lparr>cc_timeout := t\<rparr>))))"

definition issueJWT :: "jwt_lib \<Rightarrow> authenticator \<Rightarrow> int \<Rightarrow> string \<Rightarrow> auth_err + string" where
  "issueJWT lib a now username =
     (case jl_sign lib (au_jwtSecret a)
             \<lparr>jc_sub = username, jc_iat = Some (jl_date lib now),
              jc_exp = Some (jl_date lib (now + au_jwtTTL a))\<rparr> of
        Inl e \<Rightarrow> Inl (SignFailed e)
      | Inr s \<Rightarrow> Inr s)"

definition Authenticate ::
  "jwt_lib \<Rightarrow> authenticator \<Rightarrow> 'k ssh_env \<Rightarrow> int \<Rightarrow> string \<Rightarrow> string \<Rightarrow> auth_err + string" where
  "Authenticate lib a env now username password =
     (case dialSSH a env \<lparr>cc_user = username, cc_auth = Password password, cc_timeout = 0\<rparr> of
        Some e \<Rightarrow> Inl (AuthFailed e)
      | None \<Rightarrow> issueJWT lib a now username)"

definition AuthenticateKey ::
  "jwt_lib \<Rightarrow> authenticator \<Rightarrow> 'k ssh_env \<Rightarrow> int \<Rightarrow> string \<Rightarrow> bytes \<Rightarrow> auth_err + string" where
  "AuthenticateKey lib a env now username pem =
     (case se_parse_key env pem of
        Inl e \<Rightarrow> Inl (ParseKeyFailed e)
      | Inr signer \<Rightarrow>
          (case dialSSH a env \<lparr>cc_user = username, cc_auth = PublicKeys signer, cc_timeout = 0\<rparr> of
             Some e \<Rightarrow> Inl (AuthFailed e)
           | None \<Rightarrow> issueJWT lib a now username))"

text \<open>The key function accepts the HMAC methods only.\<close>

definition key_func :: "authenticator \<Rightarrow> sign_method \<Rightarrow> string + bytes" where
  "key_func a m =
     (case m of HMAC n \<Rightarrow> Inr (au_jwtSecret a)
      | OtherMethod alg \<Rightarrow> Inl (''unexpected signing method: '' @ alg))"

definition ValidateToken :: "jwt_lib \<Rightarrow> authenticator \<Rightarrow> int \<Rightarrow> string \<Rightarrow> auth_err + string" where
  "ValidateToken lib a now s =
     (case jl_parse lib (key_func a) now s of
        Inl e \<Rightarrow> Inl (InvalidToken e)
      | Inr t \<Rightarrow>
          if \<not> jt_valid t then Inl InvalidClaims
          else if jc_sub (jt_claims t) = [] then Inl MissingSub
          else Inr (jc_sub (jt_claims t)))"

section \<open>Logins and tokens\<close>

text \<open>A token is issued only after an SSH handshake as that user.\<close>

lemma Authenticate_ok:
  assumes "Authenticate lib a env now u pw = Inr tok"
  shows "\<exists>t. se_handshake env (au_sshAddr a) \<lparr>cc_user = u, cc_auth = Password pw, cc_timeout = t\<rparr> = None"
    "issueJWT lib a now u = Inr tok"
  using assms by (auto simp: Authenticate_def dialSSH_def Let_def split: option.splits if_splits)

lemma AuthenticateKey_ok:
  assumes "AuthenticateKey lib a env now u pem = Inr tok"
  shows "\<exists>k t. se_parse_key env pem = Inr k
      \<and> se_handshake env (au_sshAddr a) \<lparr>cc_user = u, cc_auth = PublicKeys k, cc_timeout = t\<rparr> = None"
    "issueJWT lib a now u = Inr tok"
  using assms
  by (auto simp: AuthenticateKey_def dialSSH_def Let_def split: option.splits sum.splits if_splits)

lemma issued_valid:
  assumes "jwt_ok lib" "issueJWT lib a now u = Inr tok" "u \<noteq> []" "later < jl_date lib (now + au_jwtTTL a)"
  shows "tok \<noteq> []" "ValidateToken lib a later tok = Inr u"
proof -
  let ?c = "\<lparr>jc_sub = u, jc_iat = Some (jl_date lib now), jc_exp = Some (jl_date lib (now + au_jwtTTL a))\<rparr>"
  have "jl_sign lib (au_jwtSecret a) ?c = Inr tok"
    using assms(2) by (auto simp: issueJWT_def split: sum.splits)
  moreover have "key_func a (HMAC 256) = Inr (au_jwtSecret a)" by (simp add: key_func_def)
  ultimately have "tok \<noteq> [] \<and> jl_parse lib (key_func a) later tok
      = Inr \<lparr>jt_method = HMAC 256, jt_claims = ?c, jt_valid = True\<rparr>"
    using assms(4) by (intro jwt_okD(1)[OF assms(1)]) simp_all
  then show "tok \<noteq> []" "ValidateToken lib a later tok = Inr u"
    using assms(3) by (simp_all add: ValidateToken_def)
qed

lemma validated:
  assumes "jwt_ok lib" "ValidateToken lib a now tok = Inr u"
  shows "\<exists>t n. jl_parse lib (key_func a) now tok = Inr t \<and> jt_valid t \<and> jt_method t = HMAC n
    \<and> jc_sub (jt_claims t) = u \<and> u \<noteq> [] \<and> (\<forall>e. jc_exp (jt_claims t) = Some e \<longrightarrow> now < e)"
proof -
  obtain t where t: "jl_parse lib (key_func a) now tok = Inr t" "jt_valid t" "jc_sub (jt_claims t) = u"
      "u \<noteq> []"
    using assms(2) by (auto simp: ValidateToken_def split: sum.splits if_splits)
  moreover obtain key where "key_func a (jt_method t) = Inr key"
    using assms(1) t(1) unfolding jwt_ok_def by blast
  then obtain n where "jt_method t = HMAC n" by (cases "jt_method t") (auto simp: key_func_def)
  moreover have "\<forall>e. jc_exp (jt_claims t) = Some e \<longrightarrow> now < e"
    using assms(1) t(1) unfolding jwt_ok_def by blast
  ultimately show ?thesis by blast
qed

end
