(* ===== verification/Http_Api.thy ===== *)
theory Http_Api
  imports Auth Go_Json
begin

text \<open>
  The HTTP endpoints of \<open>internal/server/server.go\<close> that check who is asking: the login at
  \<open>/auth\<close>, \<open>/validate\<close>, the upgrade at \<open>/ws\<close> and the guard of \<open>/_proxy/\<close>, with the CORS wrapper,
  and the choice of the secret in \<open>main.go\<close>.
\<close>

section \<open>Requests and responses\<close>

text \<open>A request as \<open>net/http\<close> presents it: header values by canonical name, decoded query
  parameters and cookies in order.\<close>

record http_req =
  rq_method :: string
  rq_path :: string
  rq_headers :: "string \<rightharpoonup> string list"
  rq_query :: "(string \<times> string) list"
  rq_cookies :: "(string \<times> string) list"
  rq_body :: bytes
  rq_host :: string
  rq_tls :: bool

text \<open>\<open>Header.Get\<close> and \<open>URL.Query().Get\<close>: the first value, or the empty string.\<close>

definition header_get :: "string \<Rightarrow> (string \<rightharpoonup> string list) \<Rightarrow> string" where
  "header_get k h = (case h k of Some (v # vs) \<Rightarrow> v | _ \<Rightarrow> [])"

definition query_get :: "string \<Rightarrow> http_req \<Rightarrow> string" where
  "query_get k r = (case map_of (rq_query r) k of None \<Rightarrow> [] | Some v \<Rightarrow> v)"

datatype http_resp = Response nat "(string \<times> string) list" string

text \<open>\<open>http.Error\<close>, and the two JSON responses of the server.\<close>

definition http_error :: "string \<Rightarrow> nat \<Rightarrow> http_resp" where
  "http_error msg status =
     Response status [(''Content-Type'', ''text/plain; charset=utf-8''),
                      (''X-Content-Type-Options'', ''nosniff'')] (msg @ [CHR 0x0A])"

definition writeJSON :: "nat \<Rightarrow> json \<Rightarrow> http_resp" where
  "writeJSON status v =
     Response status [(''Content-Type'', ''application/json'')] (render v @ [CHR 0x0A])"

definition writeError :: "nat \<Rightarrow> string \<Rightarrow> http_resp" where
  "writeError status msg = writeJSON status (JObj [(''error'', JStr msg)])"

definition cors_headers :: "(string \<times> string) list" where
  "cors_headers =
     [(''Access-Control-Allow-Origin'', ''*''),
      (''Access-Control-Allow-Methods'', ''GET, POST, OPTIONS''),
      (''Access-Control-Allow-Headers'', ''Content-Type, Authorization'')]"

text \<open>\<open>withCORS\<close>: the wrapped handler runs for every method but \<open>OPTIONS\<close>.\<close>

definition withCORS :: "(http_req \<Rightarrow> http_resp) \<Rightarrow> http_req \<Rightarrow> http_resp" where
  "withCORS h r =
     (if rq_method r = ''OPTIONS'' then Response 204 cors_headers []
      else case h r of Response status hs body \<Rightarrow> Response status (cors_headers @ hs) body)"

section \<open>Login\<close>

text \<open>\<open>json.Decoder.Decode\<close> takes the first value of the body and leaves what follows it.\<close>

definition decode_first :: "bytes \<Rightarrow> (string \<times> json) list option" where
  "decode_first body =
     Option.bind (List.find (\<lambda>n. json_of_string (string_of_bytes (take n body)) \<noteq> None)
                    [0..<length body + 1])
       (\<lambda>n. unmarshal_fields (take n body))"

record auth_request =
  ar_username :: string
  ar_password :: string
  ar_privateKeyPEM :: string

definition decode_auth_request :: "bytes \<Rightarrow> auth_request option" where
  "decode_auth_request body =
     Option.bind (decode_first body) (\<lambda>fs.
     Option.bind (string_field ''username'' fs) (\<lambda>u.
     Option.bind (string_field ''password'' fs) (\<lambda>p.
     Option.bind (string_field ''privateKeyPem'' fs) (\<lambda>k.
       Some \<lparr>ar_username = u, ar_password = p, ar_privateKeyPEM = k\<rparr>))))"

text \<open>The context handed to the authenticator has a deadline ten seconds from now, unless the
  request's own ends earlier.\<close>

definition with_timeout :: "int \<Rightarrow> 'k ssh_env \<Rightarrow> 'k ssh_env" where
  "with_timeout d env =
     env\<lparr>se_deadline := Some (case se_deadline env of
           None \<Rightarrow> se_now env + d | Some t \<Rightarrow> min t (se_now env + d))\<rparr>"

text \<open>\<open>now\<close> is the time when the connection has been made and the token is signed.\<close>

definition handleAuth ::
  "jwt_lib \<Rightarrow> authenticator \<Rightarrow> 'k ssh_env \<Rightarrow> int \<Rightarrow> http_req \<Rightarrow> http_resp" where
  "handleAuth lib a env now r =
     (if rq_method r \<noteq> ''POST'' then writeError 405 ''method not allowed''
      else
        (case decode_auth_request (rq_body r) of
           None \<Rightarrow> writeError 400 ''invalid request body''
         | Some req \<Rightarrow>
             if ar_username req = [] then writeError 400 ''username is required''
             else if ar_privateKeyPEM req = [] \<and> ar_password req = []
               then writeError 400 ''password or privateKeyPem is required''
             else
               (let ctx = with_timeout (10 * second) env
                in case (if ar_privateKeyPEM req \<noteq> []
                         then AuthenticateKey lib a ctx now (ar_username req)
                                (bytes_of_string (ar_privateKeyPEM req))
                         else Authenticate lib a ctx now (ar_username req) (ar_password req)) of
                     Inl e \<Rightarrow> writeError 401 ''authentication failed''
                   | Inr token \<Rightarrow> writeJSON 200 (JObj [(''token'', JStr token)]))))"

section \<open>Guards\<close>

definition validate_endpoint :: "jwt_lib \<Rightarrow> authenticator \<Rightarrow> int \<Rightarrow> http_req \<Rightarrow> http_resp" where
  "validate_endpoint lib a now r =
     (let token = (if query_get ''token'' r \<noteq> [] then query_get ''token'' r
                   else trim_prefix (header_get ''Authorization'' (rq_headers r)) ''Bearer '')
      in if token = [] then http_error ''missing token'' 401
         else
           (case ValidateToken lib a now token of
              Inl e \<Rightarrow> http_error ''invalid token'' 401
            | Inr u \<Rightarrow> Response 200 [] []))"

text \<open>\<open>handleWS\<close> up to the upgrade: a response, or the user whose session the socket joins.\<close>

definition ws_token :: "http_req \<Rightarrow> string" where
  "ws_token r =
     (if query_get ''token'' r \<noteq> [] then query_get ''token'' r
      else let h = header_get ''Authorization'' (rq_headers r)
           in if length h > length ''Bearer '' then drop (length ''Bearer '') h else [])"

definition ws_guard :: "jwt_lib \<Rightarrow> authenticator \<Rightarrow> int \<Rightarrow> http_req \<Rightarrow> http_resp + string" where
  "ws_guard lib a now r =
     (if ws_token r = [] then Inl (writeError 401 ''missing token'')
      else
        (case ValidateToken lib a now (ws_token r) of
           Inl e \<Rightarrow> Inl (writeError 401 ''invalid or expired token'')
         | Inr u \<Rightarrow> Inr u))"

text \<open>
  \<open>proxyPathRe\<close>, \<open>^/_proxy/(\d+)(/.*)?$\<close>: the port and the rest of a path. A dot does not match
  a newline.
\<close>

definition match_proxy_path :: "string \<Rightarrow> (string \<times> string) option" where
  "match_proxy_path p =
     (if has_prefix p ''/_proxy/'' then
        (let s = drop (length ''/_proxy/'') p;
             port = takeWhile is_digit s;
             rest = dropWhile is_digit s
         in if port \<noteq> [] \<and> (rest = [] \<or> has_prefix rest ''/'' \<and> CHR 0x0A \<notin> set rest)
            then Some (port, rest) else None)
      else None)"

text \<open>What \<open>handleHTTPProxy\<close> does with a request: answer it, relay a socket, or forward it. A
  target built from digits always parses. \<open>EqualFold\<close> compares folded names.\<close>

datatype proxy_route =
    ProxyAnswer http_resp
  | ProxySocket string string
  | ProxyForward string string

definition proxy_route ::
  "jwt_lib \<Rightarrow> authenticator \<Rightarrow> int \<Rightarrow> http_req \<Rightarrow> proxy_route" where
  "proxy_route lib a now r =
     (case map_of (rq_cookies r) ''wdd_token'' of
        None \<Rightarrow> ProxyAnswer (http_error ''missing auth cookie'' 401)
      | Some token \<Rightarrow>
          (case ValidateToken lib a now token of
             Inl e \<Rightarrow> ProxyAnswer (http_error ''invalid token'' 401)
           | Inr u \<Rightarrow>
               (case match_proxy_path (rq_path r) of
                  None \<Rightarrow> ProxyAnswer (http_error ''invalid proxy path (expected /_proxy/{port}/...)'' 400)
                | Some (port, rest) \<Rightarrow>
                    let rest = (if rest = [] then ''/'' else rest)
                    in if fold_name (header_get ''Upgrade'' (rq_headers r)) = fold_name ''websocket''
                       then ProxySocket port rest else ProxyForward port rest)))"

section \<open>Configuration\<close>

record config =
  cf_addr :: string
  cf_jwtSecret :: bytes
  cf_sshAddr :: string
  cf_jwtTTL :: int
  cf_version :: string

text \<open>\<open>main\<close>: the secret of the environment, or 32 random bytes; \<open>None\<close> when those cannot be had.\<close>

definition main_config ::
  "string \<Rightarrow> string \<Rightarrow> string \<Rightarrow> int \<Rightarrow> string \<Rightarrow> bytes option \<Rightarrow> config option" where
  "main_config version addr sshAddr jwtTTL secret random =
     map_option
       (\<lambda>key. \<lparr>cf_addr = addr, cf_jwtSecret = key, cf_sshAddr = sshAddr, cf_jwtTTL = jwtTTL,
               cf_version = version\<rparr>)
       (if secret = [] then random else Some (bytes_of_string secret))"

definition server_auth :: "config \<Rightarrow> authenticator" where
  "server_auth cfg = auth_new (cf_sshAddr cfg) (cf_jwtSecret cfg) (cf_jwtTTL cfg)"

section \<open>The first value of a body\<close>

text \<open>An object that has not been closed is no JSON value.\<close>

definition no_close :: "json_token list \<Rightarrow> bool" where
  "no_close ts \<longleftrightarrow> TEndObj \<notin> set ts \<and> TEndArr \<notin> set ts"

lemma no_close_simps [simp]: "no_close []" "no_close (a @ b) \<longleftrightarrow> no_close a \<and> no_close b"
  "no_close (t # ts) \<longleftrightarrow> t \<noteq> TEndObj \<and> t \<noteq> TEndArr \<and> no_close ts"
  by (auto simp: no_close_def)

lemma lex_token_no_close:
  "num_token s = Some ts \<Longrightarrow> no_close ts" "word_token w = Some ts \<Longrightarrow> no_close ts"
  by (auto simp: num_token_def word_token_def split: if_splits)

lemma lex_idle_no_close:
  "lex_idle c = Some (ts, st) \<Longrightarrow> c \<notin> {CHR ''}'', CHR '']''} \<Longrightarrow> no_close ts"
  by (auto simp: lex_idle_def split: if_splits)

lemma lex_step_no_close:
  assumes "lex_step st c = Some (ts, st')" "c \<notin> {CHR ''}'', CHR '']''}"
  shows "no_close ts"
  using assms lex_idle_no_close[of c] lex_token_no_close
  by (cases st) (auto simp: Let_def split: if_splits option.splits)

lemma lex_no_close:
  "lex st s = Some ts \<Longrightarrow> CHR ''}'' \<notin> set s \<Longrightarrow> CHR '']'' \<notin> set s \<Longrightarrow> no_close ts"
proof (induction st s arbitrary: ts rule: lex.induct)
  case (1 st)
  then show ?case using lex_token_no_close by (cases st) auto
next
  case (2 st c cs)
  then obtain us st' vs where "lex_step st c = Some (us, st')" "lex st' cs = Some vs" "ts = us @ vs"
    by (auto split: option.splits)
  then show ?case using 2 lex_step_no_close[of st c us st'] by auto
qed

definition still_open :: "json_ctx list \<Rightarrow> json_state \<Rightarrow> bool" where
  "still_open st ps \<longleftrightarrow> st \<noteq> [] \<or> ps = PKeyOrEnd \<or> (\<exists>fs. ps = PKey fs) \<or> (\<exists>fs k. ps = PColon fs k)"

lemma need_value_open:
  "need_value st t = Some (st', ps') \<Longrightarrow> st \<noteq> [] \<Longrightarrow> still_open st' ps'"
  by (cases t) (auto simp: still_open_def split: if_splits)

lemma parse_step_open:
  "parse_step st ps t = Some (st', ps') \<Longrightarrow> still_open st ps \<Longrightarrow> t \<noteq> TEndObj \<Longrightarrow> t \<noteq> TEndArr
     \<Longrightarrow> still_open st' ps'"
  by (cases "(st, ps, t)" rule: parse_step.cases) (auto simp: still_open_def split: if_splits dest: need_value_open)

lemma parse_open: "no_close ts \<Longrightarrow> still_open st ps \<Longrightarrow> parse st ps ts = None"
proof (induction ts arbitrary: st ps)
  case Nil
  then show ?case by (cases "(st, ps, [] :: json_token list)" rule: parse.cases) (auto simp: still_open_def)
next
  case (Cons t ts)
  then show ?case
    using parse_step_open[of st ps t] by (cases st; cases ps) (auto split: option.splits)
qed

lemma open_object_no_json:
  assumes "CHR ''}'' \<notin> set s" "CHR '']'' \<notin> set s"
  shows "json_of_string (CHR ''{'' # s) = None"
proof (cases "lex LexIdle (CHR ''{'' # s)")
  case (Some ts)
  then obtain us where "lex LexIdle s = Some us" "ts = TBeginObj # us"
    by (auto simp: lex_idle_def json_space_def split: option.splits)
  then show ?thesis
    using Some lex_no_close[OF _ assms] parse_open[of us "[]" PKeyOrEnd]
    by (simp add: json_of_string_def still_open_def max_depth_def)
qed (simp add: json_of_string_def)

lemma decode_first_object:
  assumes "CHR ''}'' \<notin> set s" "CHR '']'' \<notin> set s" "json_of_string (CHR ''{'' # s @ ''}'') = Some v"
  shows "decode_first (bytes_of_string (CHR ''{'' # s @ ''}'' @ rest)) = unmarshal_fields (bytes_of_string (CHR ''{'' # s @ ''}''))"
proof -
  let ?b = "bytes_of_string (CHR ''{'' # s @ ''}'' @ rest)" and ?n = "length s + 2"
  have take: "take n ?b = bytes_of_string (take n (CHR ''{'' # s @ ''}'' @ rest))" for n
    by (simp only: bytes_of_string_def take_map)
  have full: "take ?n ?b = bytes_of_string (CHR ''{'' # s @ ''}'')" by (simp only: take) simp
  have none: "json_of_string (string_of_bytes (take n ?b)) = None" if "n < ?n" for n
  proof (cases n)
    case 0
    then show ?thesis by (simp add: json_of_string_def string_of_bytes_def)
  next
    case (Suc m)
    then have "string_of_bytes (take n ?b) = CHR ''{'' # take m s"
      using that by (simp only: take string_of_bytes_of_string) simp
    then show ?thesis
      using open_object_no_json[of "take m s"] assms(1,2) by (auto dest: in_set_takeD)
  qed
  have "List.find (\<lambda>n. json_of_string (string_of_bytes (take n ?b)) \<noteq> None) [0..<length ?b + 1] = Some ?n"
    unfolding find_Some_iff using none full assms(3) by (intro exI[of _ ?n]) (auto simp del: upt_Suc)
  then show ?thesis using full by (simp add: decode_first_def)
qed

section \<open>Properties\<close>

lemma dial_ok:
  assumes "dialSSH a (with_timeout d env) cfg = None"
  shows "\<exists>t. 0 < t \<and> t \<le> d \<and> se_handshake env (au_sshAddr a) (cfg\<lparr>cc_timeout := t\<rparr>) = None"
proof -
  let ?t = "the (se_deadline (with_timeout d env)) - se_now env"
  have "0 < ?t" "se_handshake env (au_sshAddr a) (cfg\<lparr>cc_timeout := ?t\<rparr>) = None"
    using assms by (auto simp: dialSSH_def with_timeout_def Let_def split: option.splits if_splits)
  moreover have "?t \<le> d" by (simp add: with_timeout_def min_def split: option.split)
  ultimately show ?thesis by blast
qed

text \<open>A successful login has made the handshake, within the time of the request.\<close>

lemma password_dialled:
  assumes "Authenticate lib a (with_timeout (10 * second) env) now u pw = Inr tok"
  shows "\<exists>c. se_handshake env (au_sshAddr a) c = None \<and> cc_user c = u \<and> 0 < cc_timeout c
    \<and> cc_timeout c \<le> 10 * second \<and> cc_auth c = Password pw"
proof -
  let ?cfg = "\<lparr>cc_user = u, cc_auth = Password pw, cc_timeout = 0\<rparr>"
  have "dialSSH a (with_timeout (10 * second) env) ?cfg = None"
    using assms by (auto simp: Authenticate_def split: option.splits)
  then obtain t where "0 < t" "t \<le> 10 * second" "se_handshake env (au_sshAddr a) (?cfg\<lparr>cc_timeout := t\<rparr>) = None"
    using dial_ok by blast
  then show ?thesis by (intro exI[of _ "?cfg\<lparr>cc_timeout := t\<rparr>"]) simp
qed

lemma key_dialled:
  assumes "AuthenticateKey lib a (with_timeout (10 * second) env) now u pem = Inr tok"
  shows "\<exists>c k. se_handshake env (au_sshAddr a) c = None \<and> cc_user c = u \<and> 0 < cc_timeout c
    \<and> cc_timeout c \<le> 10 * second \<and> cc_auth c = PublicKeys k \<and> se_parse_key env pem = Inr k"
proof -
  obtain k where k: "se_parse_key env pem = Inr k"
      "dialSSH a (with_timeout (10 * second) env) \<lparr>cc_user = u, cc_auth = PublicKeys k, cc_timeout = 0\<rparr> = None"
    using assms by (auto simp: AuthenticateKey_def with_timeout_def split: option.splits sum.splits)
  let ?cfg = "\<lparr>cc_user = u, cc_auth = PublicKeys k, cc_timeout = 0\<rparr>"
  obtain t where "0 < t" "t \<le> 10 * second" "se_handshake env (au_sshAddr a) (?cfg\<lparr>cc_timeout := t\<rparr>) = None"
    using dial_ok[OF k(2)] by blast
  then show ?thesis using k(1) by (intro exI[of _ "?cfg\<lparr>cc_timeout := t\<rparr>"]) simp
qed

text \<open>C10. A login answers 200 only to a POST whose body names a user, and only after an SSH
  handshake as that user with the password or the key of the body, begun within ten seconds.
  The answer carries a token, and with it that user, and nobody else, is let in at \<open>/ws\<close>
  until it expires.\<close>

theorem login_needs_ssh:
  assumes "jwt_ok lib" and "handleAuth lib a env now r = Response 200 hs body"
  shows "\<exists>req tok c. rq_method r = ''POST'' \<and> decode_auth_request (rq_body r) = Some req
    \<and> Response 200 hs body = writeJSON 200 (JObj [(''token'', JStr tok)])
    \<and> se_handshake env (au_sshAddr a) c = None \<and> cc_user c = ar_username req \<and> ar_username req \<noteq> []
    \<and> 0 < cc_timeout c \<and> cc_timeout c \<le> 10 * second
    \<and> (case cc_auth c of
         Password pw \<Rightarrow> pw = ar_password req \<and> pw \<noteq> [] \<and> ar_privateKeyPEM req = []
       | PublicKeys k \<Rightarrow> se_parse_key env (bytes_of_string (ar_privateKeyPEM req)) = Inr k)
    \<and> (\<forall>later r'. later < jl_date lib (now + au_jwtTTL a) \<longrightarrow> ws_token r' = tok \<longrightarrow>
         ws_guard lib a later r' = Inr (ar_username req))"
proof -
  obtain req where req: "rq_method r = ''POST''" "decode_auth_request (rq_body r) = Some req"
      "ar_username req \<noteq> []" "ar_privateKeyPEM req \<noteq> [] \<or> ar_password req \<noteq> []"
    using assms(2)
    by (auto simp: handleAuth_def writeError_def writeJSON_def split: if_splits option.splits)
  let ?u = "ar_username req" and ?pem = "bytes_of_string (ar_privateKeyPEM req)"
  let ?ctx = "with_timeout (10 * second) env"
  let ?res = "if ar_privateKeyPEM req \<noteq> [] then AuthenticateKey lib a ?ctx now ?u ?pem
              else Authenticate lib a ?ctx now ?u (ar_password req)"
  obtain tok where tok: "?res = Inr tok" "Response 200 hs body = writeJSON 200 (JObj [(''token'', JStr tok)])"
    using assms(2) req
    by (cases ?res) (auto simp: handleAuth_def Let_def writeError_def writeJSON_def split: if_splits)
  have issue: "issueJWT lib a now ?u = Inr tok"
    using tok(1) Authenticate_ok(2) AuthenticateKey_ok(2) by (metis (full_types))
  note valid = issued_valid[OF assms(1) issue req(3)]
  have ws: "ws_guard lib a later r' = Inr ?u"
    if "later < jl_date lib (now + au_jwtTTL a)" "ws_token r' = tok" for later r'
    using valid[OF that(1)] that(2) by (simp add: ws_guard_def)
  have "\<exists>c. se_handshake env (au_sshAddr a) c = None \<and> cc_user c = ?u \<and> 0 < cc_timeout c
    \<and> cc_timeout c \<le> 10 * second
    \<and> (case cc_auth c of
         Password pw \<Rightarrow> pw = ar_password req \<and> pw \<noteq> [] \<and> ar_privateKeyPEM req = []
       | PublicKeys k \<Rightarrow> se_parse_key env ?pem = Inr k)"
  proof (cases "ar_privateKeyPEM req = []")
    case True
    then show ?thesis using tok(1) req(4) by (fastforce dest: password_dialled)
  next
    case False
    then show ?thesis using tok(1) by (fastforce dest: key_dialled)
  qed
  then show ?thesis using req tok(2) ws by blast
qed

text \<open>A token that is accepted: signed with HMAC under the server's key, for this user, in time.\<close>

definition token_accepted :: "jwt_lib \<Rightarrow> authenticator \<Rightarrow> int \<Rightarrow> string \<Rightarrow> string \<Rightarrow> bool" where
  "token_accepted lib a now s u \<longleftrightarrow>
     (\<exists>t n. jl_parse lib (key_func a) now s = Inr t \<and> jt_valid t \<and> jt_method t = HMAC n
        \<and> jc_sub (jt_claims t) = u \<and> u \<noteq> [] \<and> (\<forall>e. jc_exp (jt_claims t) = Some e \<longrightarrow> now < e))"

lemma match_proxy_path_iff:
  "match_proxy_path p = Some (port, rest) \<longleftrightarrow>
     p = ''/_proxy/'' @ port @ rest \<and> port \<noteq> [] \<and> list_all is_digit port \<and>
     (rest = [] \<or> (\<exists>t. rest = CHR ''/'' # t) \<and> CHR 0x0A \<notin> set rest)"
proof
  assume "match_proxy_path p = Some (port, rest)"
  then obtain s where "p = ''/_proxy/'' @ s" "port = takeWhile is_digit s" "rest = dropWhile is_digit s"
      "port \<noteq> []" "rest = [] \<or> has_prefix rest ''/'' \<and> CHR 0x0A \<notin> set rest"
    by (auto simp: match_proxy_path_def Let_def has_prefix_iff split: if_splits)
  then show "p = ''/_proxy/'' @ port @ rest \<and> port \<noteq> [] \<and> list_all is_digit port \<and>
     (rest = [] \<or> (\<exists>t. rest = CHR ''/'' # t) \<and> CHR 0x0A \<notin> set rest)"
    by (auto simp: list_all_iff has_prefix_iff dest: set_takeWhileD)
next
  assume r: "p = ''/_proxy/'' @ port @ rest \<and> port \<noteq> [] \<and> list_all is_digit port \<and>
     (rest = [] \<or> (\<exists>t. rest = CHR ''/'' # t) \<and> CHR 0x0A \<notin> set rest)"
  then have d: "\<forall>c \<in> set port. is_digit c" "rest = [] \<or> \<not> is_digit (hd rest)"
    by (auto simp: list_all_iff is_digit_def less_eq_char_def)
  then have "takeWhile is_digit (port @ rest) = port" "dropWhile is_digit (port @ rest) = rest"
    by (cases rest; simp add: takeWhile_append2 dropWhile_append2)+
  moreover have "p = ''/_proxy/'' @ (port @ rest)" using r by simp
  ultimately show "match_proxy_path p = Some (port, rest)"
    using r by (auto simp: match_proxy_path_def has_prefix_iff Let_def)
qed

text \<open>Nothing behind the guards is reached without an accepted token: a WebSocket joins the
  session of exactly the token's user, and the HTTP proxy forwards only requests that carry one
  in the cookie, to the port named in the path and with exactly what follows it.\<close>

theorem guards_need_token:
  assumes "jwt_ok lib"
  shows "(ws_guard lib a now r = Inr u \<longrightarrow> token_accepted lib a now (ws_token r) u)
    \<and> (proxy_route lib a now r = ProxySocket port path \<or> proxy_route lib a now r = ProxyForward port path \<longrightarrow>
        (\<exists>s v. map_of (rq_cookies r) ''wdd_token'' = Some s \<and> token_accepted lib a now s v)
        \<and> port \<noteq> [] \<and> list_all is_digit port
        \<and> (rq_path r = ''/_proxy/'' @ port @ path \<or> rq_path r = ''/_proxy/'' @ port \<and> path = ''/''))
    \<and> (validate_endpoint lib a now r = Response 200 [] [] \<longrightarrow> (\<exists>s v. token_accepted lib a now s v))"
proof -
  have acc: "token_accepted lib a now s v" if "ValidateToken lib a now s = Inr v" for s v
    using validated[OF assms that] by (auto simp: token_accepted_def)
  have ws: "ws_guard lib a now r = Inr u \<longrightarrow> token_accepted lib a now (ws_token r) u"
    using acc by (auto simp: ws_guard_def split: if_splits sum.splits)
  have va: "validate_endpoint lib a now r = Response 200 [] [] \<longrightarrow> (\<exists>s v. token_accepted lib a now s v)"
    using acc by (auto simp: validate_endpoint_def http_error_def Let_def split: if_splits sum.splits)
  have "(\<exists>s v. map_of (rq_cookies r) ''wdd_token'' = Some s \<and> token_accepted lib a now s v)
      \<and> port \<noteq> [] \<and> list_all is_digit port
      \<and> (rq_path r = ''/_proxy/'' @ port @ path \<or> rq_path r = ''/_proxy/'' @ port \<and> path = ''/'')"
    if route: "proxy_route lib a now r = ProxySocket port path \<or> proxy_route lib a now r = ProxyForward port path"
  proof -
    have ans: "\<nexists>x. proxy_route lib a now r = ProxyAnswer x" using route by auto
    obtain s where s: "map_of (rq_cookies r) ''wdd_token'' = Some s"
      using ans by (cases "map_of (rq_cookies r) ''wdd_token''") (simp_all add: proxy_route_def)
    obtain v where v: "ValidateToken lib a now s = Inr v"
      using ans s by (cases "ValidateToken lib a now s") (simp_all add: proxy_route_def)
    obtain pt rest where m: "match_proxy_path (rq_path r) = Some (pt, rest)"
      using ans s v by (cases "match_proxy_path (rq_path r)") (auto simp: proxy_route_def)
    have "port = pt \<and> path = (if rest = [] then ''/'' else rest)"
      using route unfolding proxy_route_def s v m option.case sum.case prod.case Let_def
      by (simp split: if_split_asm)
    then show ?thesis using acc[OF v] s m unfolding match_proxy_path_iff by (cases "rest = []") auto
  qed
  then show ?thesis using ws va by blast
qed

section \<open>Witnesses\<close>

text \<open>A library that signs one token, an \<open>sshd\<close> that knows one password, and the request.\<close>

definition demo_auth :: authenticator where
  "demo_auth = auth_new [] [1] 0"

definition demo_claims :: claims where
  "demo_claims = \<lparr>jc_sub = ''a'', jc_iat = Some 0, jc_exp = Some DefaultJWTTTL\<rparr>"

definition demo_jwt :: jwt_lib where
  "demo_jwt = \<lparr>jl_date = id,
     jl_sign = (\<lambda>key c. if key = [1] \<and> c = demo_claims then Inr ''x.y.z'' else Inl ''error''),
     jl_parse = (\<lambda>kf now s.
       if s = ''x.y.z'' \<and> kf (HMAC 256) = Inr [1] \<and> now < DefaultJWTTTL
       then Inr \<lparr>jt_method = HMAC 256, jt_claims = demo_claims, jt_valid = True\<rparr> else Inl ''error'')\<rparr>"

lemma demo_jwt_ok: "jwt_ok demo_jwt"
  by (auto simp: jwt_ok_def demo_jwt_def demo_claims_def split: if_splits)

definition demo_ssh :: "unit ssh_env" where
  "demo_ssh = \<lparr>se_now = 0, se_deadline = None, se_dial = (\<lambda>_. None),
     se_handshake = (\<lambda>_ c. if cc_auth c = Password ''p'' then None else Some ''no''),
     se_parse_key = (\<lambda>_. Inl ''no'')\<rparr>"

definition demo_fields :: string where
  "demo_fields = quote ''username'' @ '':'' @ quote ''a'' @ '','' @ quote ''password'' @ '':'' @ quote ''p''"

definition demo_login :: http_req where
  "demo_login = \<lparr>rq_method = ''POST'', rq_path = ''/auth'', rq_headers = Map.empty,
     rq_query = [(''token'', ''x.y.z'')], rq_cookies = [(''wdd_token'', ''x.y.z'')],
     rq_body = bytes_of_string (CHR ''{'' # demo_fields @ ''}''), rq_host = [], rq_tls = False\<rparr>"

lemma demo_lex:
  "lex LexIdle (CHR ''{'' # demo_fields @ ''}'')
     = Some [TBeginObj, TValue (JStr ''username''), TColon, TValue (JStr ''a''), TComma,
             TValue (JStr ''password''), TColon, TValue (JStr ''p''), TEndObj]"
  "CHR ''}'' \<notin> set demo_fields \<and> CHR '']'' \<notin> set demo_fields"
  by code_simp+

lemma demo_decoded:
  "decode_auth_request (rq_body demo_login)
     = Some \<lparr>ar_username = ''a'', ar_password = ''p'', ar_privateKeyPEM = []\<rparr>"
proof -
  let ?fs = "[(''username'', JStr ''a''), (''password'', JStr ''p'')]"
  have j: "json_of_string (CHR ''{'' # demo_fields @ ''}'') = Some (JObj ?fs)"
    by (simp only: json_of_string_def demo_lex(1)) (simp add: max_depth_def)
  have "decode_first (rq_body demo_login) = Some ?fs"
    using decode_first_object[OF _ _ j, of "[]"] demo_lex(2) j
    by (simp add: demo_login_def unmarshal_fields_def)
  moreover have "string_field ''username'' ?fs = Some ''a''" "string_field ''password'' ?fs = Some ''p''"
    "string_field ''privateKeyPem'' ?fs = Some []"
    by code_simp+
  ultimately show ?thesis by (simp add: decode_auth_request_def)
qed

theorem login_needs_ssh_witness:
  "\<exists>hs body tok. handleAuth demo_jwt demo_auth demo_ssh 0 demo_login = Response 200 hs body
     \<and> Response 200 hs body = writeJSON 200 (JObj [(''token'', JStr tok)])"
proof -
  obtain hs body where r: "handleAuth demo_jwt demo_auth demo_ssh 0 demo_login = Response 200 hs body"
  proof -
    have m: "rq_method demo_login = ''POST''" by (simp add: demo_login_def)
    have "Authenticate demo_jwt demo_auth (with_timeout (10 * second) demo_ssh) 0 ''a'' ''p'' = Inr ''x.y.z''"
      by (simp add: Authenticate_def dialSSH_def with_timeout_def demo_ssh_def issueJWT_def demo_jwt_def
          demo_auth_def auth_new_def demo_claims_def second_def Let_def)
    then have "handleAuth demo_jwt demo_auth demo_ssh 0 demo_login
        = writeJSON 200 (JObj [(''token'', JStr ''x.y.z'')])"
      by (simp add: handleAuth_def m demo_decoded)
    then show thesis using that by (simp add: writeJSON_def)
  qed
  then show ?thesis using login_needs_ssh[OF demo_jwt_ok r] by blast
qed

theorem guards_need_token_witness:
  "token_accepted demo_jwt demo_auth 0 ''x.y.z'' ''a''"
proof -
  have "ws_guard demo_jwt demo_auth 0 demo_login = Inr ''a''"
    by (simp add: ws_guard_def ws_token_def query_get_def demo_login_def ValidateToken_def demo_jwt_def
        demo_auth_def auth_new_def key_func_def demo_claims_def DefaultJWTTTL_def second_def)
  moreover have "ws_token demo_login = ''x.y.z''"
    by (simp add: ws_token_def query_get_def demo_login_def)
  ultimately show ?thesis using guards_need_token[OF demo_jwt_ok, of demo_auth 0 demo_login "''a''"] by simp
qed

end
