(* ===== verification/Go_Case.thy ===== *)
theory Go_Case
  imports Go_Json
begin

text \<open>
  \<open>strings.ToLower\<close> and \<open>bytes.ToLower\<close>: byte by byte on ASCII text, rune by rune on other text.
  The table of \<open>unicode.ToLower\<close> is an argument.
\<close>

section \<open>Lower case\<close>

text \<open>ASCII letters; \<open>lo\<close> stands for \<open>unicode.ToLower\<close>. Text that is not all ASCII is decoded, a
  byte that starts no encoding as U+FFFD, and encoded again.\<close>

definition ascii_lower :: "char \<Rightarrow> char" where
  "ascii_lower c = (if in_range 0x41 0x5A c then char_of (of_char c + 32 :: nat) else c)"

definition rune_of :: "string \<Rightarrow> nat" where
  "rune_of s =
     (case map of_char s of
        [a] \<Rightarrow> a
      | [a, b] \<Rightarrow> (a - 0xC0) * 64 + (b - 0x80)
      | [a, b, c] \<Rightarrow> (a - 0xE0) * 4096 + (b - 0x80) * 64 + (c - 0x80)
      | [a, b, c, d] \<Rightarrow> (a - 0xF0) * 262144 + (b - 0x80) * 4096 + (c - 0x80) * 64 + (d - 0x80)
      | _ \<Rightarrow> 0xFFFD)"

fun map_runes :: "(nat \<Rightarrow> nat) \<Rightarrow> string \<Rightarrow> string" where
  "map_runes lo [] = []"
| "map_runes lo (c # cs) =
     (let n = utf8_len (c # cs)
      in if n = 0 then utf8_encode (lo 0xFFFD) @ map_runes lo cs
         else utf8_encode (lo (rune_of (take n (c # cs)))) @ map_runes lo (drop (n - 1) cs))"

definition is_ascii :: "string \<Rightarrow> bool" where
  "is_ascii s \<longleftrightarrow> list_all (in_range 0 0x7F) s"

definition to_lower :: "(nat \<Rightarrow> nat) \<Rightarrow> string \<Rightarrow> string" where
  "to_lower lo s = (if is_ascii s then map ascii_lower s else map_runes lo s)"

end
