(* ===== verification/Http_Rewrite.thy ===== *)
theory Http_Rewrite
  imports Http_Api Go_Case
begin

text \<open>
  How \<open>handleHTTPProxy\<close> of \<open>internal/server/server.go\<close> changes what passes through it: the
  headers of the forwarded request, and the headers and HTML bodies of the response. The parts
  of \<open>net/url\<close> and the cookie syntax of \<open>net/http\<close> are arguments.
\<close>

section \<open>Headers\<close>

type_synonym headers = "string \<rightharpoonup> string list"

definition header_set :: "string \<Rightarrow> string \<Rightarrow> headers \<Rightarrow> headers" where
  "header_set k v h = h(k \<mapsto> [v])"

definition header_del :: "string \<Rightarrow> headers \<Rightarrow> headers" where
  "header_del k h = h(k := None)"

definition header_add :: "string \<Rightarrow> string \<Rightarrow> headers \<Rightarrow> headers" where
  "header_add k v h = h(k \<mapsto> (case h k of None \<Rightarrow> [] | Some vs \<Rightarrow> vs) @ [v])"

definition proxy_mount :: "string \<Rightarrow> string" where
  "proxy_mount port = ''/_proxy/'' @ port"

definition forwardedProto :: "http_req \<Rightarrow> string" where
  "forwardedProto r = (if rq_tls r then ''https'' else ''http'')"

definition stripProxyCookie :: "string \<Rightarrow> string \<Rightarrow> string" where
  "stripProxyCookie cookieHeader name =
     join '';'' (filter (\<lambda>p. \<not> has_prefix (trim_space p) (name @ ''='')) (split_on CHR '';'' cookieHeader))"

text \<open>The proxy's director, after the one of \<open>NewSingleHostReverseProxy\<close>.\<close>

definition forward_headers :: "http_req \<Rightarrow> string \<Rightarrow> headers \<Rightarrow> headers" where
  "forward_headers r port h =
     (let h1 = header_del ''Accept-Encoding'' h;
          h2 = header_set ''X-Forwarded-Host'' (rq_host r) h1;
          h3 = header_set ''X-Forwarded-Prefix'' (proxy_mount port) h2;
          h4 = header_set ''X-Forwarded-Proto'' (forwardedProto r) h3;
          h5 = header_set ''Forwarded'' (''host='' @ rq_host r @ '';proto='' @ forwardedProto r) h4;
          cookie = header_get ''Cookie'' h5
      in if cookie \<noteq> [] then header_set ''Cookie'' (stripProxyCookie cookie ''wdd_token'') h5 else h5)"

text \<open>The cookies a relayed socket request carries.\<close>

definition socket_cookie :: "http_req \<Rightarrow> string option" where
  "socket_cookie r =
     (let parts = map (\<lambda>(n, v). n @ ''='' @ v) (filter (\<lambda>(n, v). n \<noteq> ''wdd_token'') (rq_cookies r))
      in if parts = [] then None else Some (join ''; '' parts))"

section \<open>Searching\<close>

definition contains :: "string \<Rightarrow> string \<Rightarrow> bool" where
  "contains s sub \<longleftrightarrow> index_of s sub \<noteq> None"

section \<open>The response\<close>

definition removeCSPDirective :: "(nat \<Rightarrow> nat) \<Rightarrow> string \<Rightarrow> string \<Rightarrow> string" where
  "removeCSPDirective lo csp directive =
     join '';'' (filter (\<lambda>d. \<not> has_prefix (to_lower lo (trim_space d)) directive) (split_on CHR '';'' csp))"

definition rewriteCookiePath :: "string \<Rightarrow> string \<Rightarrow> string" where
  "rewriteCookiePath path mount =
     (if path = [] \<or> path = ''/'' then trim_suffix mount ''/''
      else if has_prefix path mount then path
      else if has_prefix path ''/'' then trim_suffix mount ''/'' @ path
      else trim_suffix mount ''/'' @ ''/'' @ path)"

text \<open>A parsed \<open>Set-Cookie\<close> line: domain, path, and the rest. \<open>net/http\<close> parses and prints it.\<close>

record 'c set_cookie =
  sc_domain :: string
  sc_path :: string
  sc_rest :: 'c

definition rewriteSetCookieHeaders ::
  "(string \<Rightarrow> 'c set_cookie option) \<Rightarrow> ('c set_cookie \<Rightarrow> string) \<Rightarrow> string \<Rightarrow> headers \<Rightarrow> headers" where
  "rewriteSetCookieHeaders rd pr mount h =
     (case h ''Set-Cookie'' of
        None \<Rightarrow> h
      | Some [] \<Rightarrow> h
      | Some vs \<Rightarrow>
          fold (\<lambda>raw. header_add ''Set-Cookie''
                  (case rd raw of
                     None \<Rightarrow> raw
                   | Some c \<Rightarrow> pr (c\<lparr>sc_domain := [], sc_path := rewriteCookiePath (sc_path c) mount\<rparr>)))
            vs (header_del ''Set-Cookie'' h))"

text \<open>\<open>url.Parse\<close>, the host, resolving against a path, and \<open>String\<close> without scheme and host.\<close>

record 'u url_lib =
  ul_parse :: "string \<Rightarrow> 'u option"
  ul_host :: "'u \<Rightarrow> string"
  ul_resolve :: "string \<Rightarrow> 'u \<Rightarrow> 'u"
  ul_local :: "'u \<Rightarrow> string"

definition rewrite_location :: "'u url_lib \<Rightarrow> string \<Rightarrow> string \<Rightarrow> string \<Rightarrow> string option" where
  "rewrite_location ul port rest loc =
     map_option
       (\<lambda>u. proxy_mount port @
          ul_local ul (if ul_host ul u = [] \<and> \<not> has_prefix loc ''/'' then ul_resolve ul rest u else u))
       (ul_parse ul loc)"

definition base_tag :: "string \<Rightarrow> string" where
  "base_tag href = ''<base href='' @ [CHR 0x22] @ href @ [CHR 0x22] @ ''>''"

text \<open>\<open>None\<close>: the slice is out of range and the handler panics.\<close>

definition injectBaseHref :: "(nat \<Rightarrow> nat) \<Rightarrow> string \<Rightarrow> string \<Rightarrow> string option" where
  "injectBaseHref lo body href =
     (let lower = to_lower lo body
      in if contains lower ''<base'' then Some body
         else
           (case index_of lower ''<head'' of
              None \<Rightarrow> Some (base_tag href @ body)
            | Some headIdx \<Rightarrow>
                (case index_of (drop headIdx lower) ''>'' of
                   None \<Rightarrow> Some (base_tag href @ body)
                 | Some endIdx \<Rightarrow>
                     let insertAt = headIdx + endIdx + 1
                     in if insertAt > length body then None
                        else Some (take insertAt body @ base_tag href @ drop insertAt body))))"

text \<open>\<open>ModifyResponse\<close> on the headers and the body that was read.\<close>

definition modify_response ::
  "(nat \<Rightarrow> nat) \<Rightarrow> (string \<Rightarrow> 'c set_cookie option) \<Rightarrow> ('c set_cookie \<Rightarrow> string) \<Rightarrow> 'u url_lib \<Rightarrow>
   string \<Rightarrow> string \<Rightarrow> headers \<Rightarrow> string \<Rightarrow> (headers \<times> string) option" where
  "modify_response lo rd pr ul port rest h body =
     (let h1 = header_del ''X-Frame-Options'' h;
          csp = header_get ''Content-Security-Policy'' h1;
          h2 = (if csp = [] then h1
                else header_set ''Content-Security-Policy'' (removeCSPDirective lo csp ''frame-ancestors'') h1);
          h3 = rewriteSetCookieHeaders rd pr (proxy_mount port) h2;
          loc = header_get ''Location'' h3;
          h4 = (if loc = [] then h3
                else case rewrite_location ul port rest loc of
                  None \<Rightarrow> h3 | Some l \<Rightarrow> header_set ''Location'' l h3);
          ct = to_lower lo (header_get ''Content-Type'' h4)
      in if contains ct ''text/html'' \<or> contains ct ''application/xhtml+xml'' then
           map_option (\<lambda>b. (header_del ''Transfer-Encoding'' (header_del ''Content-Length'' h4), b))
             (injectBaseHref lo body (proxy_mount port @ ''/''))
         else Some (h4, body))"

section \<open>Cookies of the server\<close>

lemma split_on_join_filter:
  assumes "filter P (split_on c s) \<noteq> []"
  shows "split_on c (join [c] (filter P (split_on c s))) = filter P (split_on c s)"
  using assms split_on_pieces[of _ c s] by (intro split_on_join) auto

lemma strip_parts:
  "p \<in> set (split_on CHR '';'' (stripProxyCookie h name)) \<Longrightarrow> \<not> has_prefix (trim_space p) (name @ ''='')"
proof (cases "filter (\<lambda>p. \<not> has_prefix (trim_space p) (name @ ''='')) (split_on CHR '';'' h) = []")
  case True
  then show "p \<in> set (split_on CHR '';'' (stripProxyCookie h name)) \<Longrightarrow> ?thesis"
    by (simp add: stripProxyCookie_def trim_space_def has_prefix_def)
next
  case False
  from split_on_join_filter[OF False]
  show "p \<in> set (split_on CHR '';'' (stripProxyCookie h name)) \<Longrightarrow> ?thesis"
    by (simp add: stripProxyCookie_def)
qed

section \<open>Searching\<close>

lemma index_of_Some: "index_of s sub = Some i \<Longrightarrow> \<exists>a b. s = a @ sub @ b \<and> length a = i"
proof (induction s sub arbitrary: i rule: index_of.induct)
  case (2 x xs sub)
  show ?case
  proof (cases "take (length sub) (x # xs) = sub")
    case True
    then have "x # xs = [] @ sub @ drop (length sub) (x # xs)"
      using append_take_drop_id[of "length sub" "x # xs"] by simp
    moreover have "i = 0" using 2(2) True by simp
    ultimately show ?thesis by (metis list.size(3))
  next
    case False
    then obtain j where j: "index_of xs sub = Some j" "i = Suc j" using 2(2) by auto
    then obtain a b where "xs = a @ sub @ b" "length a = j" using 2(1) False by blast
    then show ?thesis using j(2) by (intro exI[of _ "x # a"] exI[of _ b]) simp
  qed
qed (auto split: if_splits)

lemma index_of_char:
  "index_of s [c] = Some i \<Longrightarrow> \<exists>a b. s = a @ c # b \<and> length a = i \<and> c \<notin> set a"
proof (induction s "[c]" arbitrary: i rule: index_of.induct)
  case (2 x xs)
  show ?case
  proof (cases "x = c")
    case True
    then show ?thesis using 2(2) by (intro exI[of _ "[]"] exI[of _ xs]) simp
  next
    case False
    then obtain j where j: "index_of xs [c] = Some j" "i = Suc j" using 2(2) by auto
    then obtain a b where "xs = a @ c # b" "length a = j" "c \<notin> set a" using 2(1) False by auto
    then show ?thesis using j(2) False by (intro exI[of _ "x # a"] exI[of _ b]) simp
  qed
qed simp

lemma index_of_None: "index_of s sub = None \<longleftrightarrow> (\<nexists>a b. s = a @ sub @ b)"
proof (induction s sub rule: index_of.induct)
  case (2 x xs sub)
  have "take (length sub) (x # xs) = sub \<longleftrightarrow> (\<exists>b. x # xs = sub @ b)"
    by (metis append_eq_conv_conj append_take_drop_id)
  moreover have "(\<exists>a b. x # xs = a @ sub @ b) \<longleftrightarrow> (\<exists>b. x # xs = sub @ b) \<or> (\<exists>a b. xs = a @ sub @ b)"
    by (metis append_Cons append_Nil list.sel(3) neq_Nil_conv)
  ultimately show ?case using 2 by auto
qed auto

lemma contains_iff: "contains s sub \<longleftrightarrow> (\<exists>a b. s = a @ sub @ b)"
  by (simp add: contains_def index_of_None)

lemma contains_append: "contains s sub \<Longrightarrow> contains (a @ s @ b) sub"
  unfolding contains_iff by (metis append.assoc)

lemma is_ascii_append [simp]: "is_ascii (a @ b) \<longleftrightarrow> is_ascii a \<and> is_ascii b"
  by (simp add: is_ascii_def)

lemma is_ascii_part: "is_ascii s \<Longrightarrow> is_ascii (take i s) \<and> is_ascii (drop i s)"
  by (auto simp: is_ascii_def list_all_iff dest: in_set_takeD in_set_dropD)

lemma lower_tag: "map ascii_lower (base_tag href) = ''<base href='' @ [CHR 0x22] @ map ascii_lower href @ [CHR 0x22] @ ''>''"
  by (simp add: base_tag_def ascii_lower_def in_range_def)

lemma base_tag_contains: "contains (map ascii_lower (base_tag href)) ''<base''"
  unfolding contains_iff lower_tag by (rule exI[of _ "[]"]) simp

lemma ascii_lower_other:
  assumes "ascii_lower c = d" "\<not> in_range 0x61 0x7A d"
  shows "c = d"
proof (rule ccontr)
  assume "c \<noteq> d"
  then have u: "in_range 0x41 0x5A c" "d = char_of (of_char c + 32 :: nat)"
    using assms(1) by (auto simp: ascii_lower_def split: if_splits)
  then have "of_char d = (of_char c + 32 :: nat)" by (simp add: in_range_def)
  then show False using u(1) assms(2) by (simp add: in_range_def)
qed

lemma index_of_least: "index_of s sub = Some i \<Longrightarrow> s = p @ sub @ q \<Longrightarrow> i \<le> length p"
proof (induction s sub arbitrary: i p rule: index_of.induct)
  case (2 x xs sub)
  show ?case
  proof (cases p)
    case Nil
    then have "take (length sub) (x # xs) = sub" using 2(3) by simp
    then show ?thesis using 2(2) by simp
  next
    case (Cons y p')
    then have "xs = p' @ sub @ q" using 2(3) by simp
    then show ?thesis using 2(1)[of _ p'] 2(2) Cons by (auto split: if_splits)
  qed
qed (auto split: if_splits)

lemma index_of_first: "c \<notin> set a \<Longrightarrow> index_of (a @ c # b) [c] = Some (length a)"
  by (induction a) auto

text \<open>The first head tag of a page: from the first \<open><head\<close>, in either case, to the first closing
  bracket after it.\<close>

definition head_tag :: "string \<Rightarrow> string \<Rightarrow> string \<Rightarrow> string \<Rightarrow> bool" where
  "head_tag body before tag rest \<longleftrightarrow>
     body = before @ tag @ rest
     \<and> (\<exists>t. tag = t @ ''>'' \<and> CHR ''>'' \<notin> set t \<and> has_prefix (map ascii_lower t) ''<head'')
     \<and> (\<forall>p q. map ascii_lower body = p @ ''<head'' @ q \<longrightarrow> length before \<le> length p)"

lemma lower_bracket: "ascii_lower c = CHR ''>'' \<longleftrightarrow> c = CHR ''>''"
  using ascii_lower_other[of c "CHR ''>''"] by (auto simp: in_range_def ascii_lower_def)

lemma lower_no_bracket: "CHR ''>'' \<in> set (map ascii_lower s) \<longleftrightarrow> CHR ''>'' \<in> set s"
proof (induction s)
  case (Cons x xs)
  then show ?case using lower_bracket[of x] by (simp del: set_map) metis
qed simp

lemma head_tag_index:
  assumes "head_tag body before tag rest"
  shows "index_of (map ascii_lower body) ''<head'' = Some (length before)"
    "index_of (drop (length before) (map ascii_lower body)) ''>'' = Some (length tag - 1)"
proof -
  let ?l = "map ascii_lower body"
  have bt: "body = before @ tag @ rest"
    and ex: "\<exists>t u. tag = t @ ''>'' \<and> CHR ''>'' \<notin> set t \<and> map ascii_lower t = ''<head'' @ u"
    and least: "\<And>p q. ?l = p @ ''<head'' @ q \<Longrightarrow> length before \<le> length p"
    using assms by (simp_all add: head_tag_def has_prefix_iff)
  obtain t u where t: "tag = t @ ''>''" "CHR ''>'' \<notin> set t" "map ascii_lower t = ''<head'' @ u"
    using ex by (elim exE conjE)
  have b: "body = before @ t @ ''>'' @ rest" by (simp only: bt t(1) append_assoc)
  have l: "?l = map ascii_lower before @ ''<head'' @ (u @ map ascii_lower (''>'' @ rest))"
    by (simp only: b map_append t(3) append_assoc)
  then have "index_of ?l ''<head'' \<noteq> None" by (simp only: index_of_None not_not) blast
  then obtain h where h: "index_of ?l ''<head'' = Some h" by blast
  obtain p q where "?l = p @ ''<head'' @ q" "length p = h" using index_of_Some[OF h] by blast
  then have "length before \<le> h" using least by blast
  moreover have "h \<le> length before" using index_of_least[OF h l] by simp
  ultimately show "index_of ?l ''<head'' = Some (length before)" using h by simp
  have "drop (length before) ?l = map ascii_lower t @ CHR ''>'' # map ascii_lower rest"
    by (simp add: b lower_bracket)
  then show "index_of (drop (length before) ?l) ''>'' = Some (length tag - 1)"
    using index_of_first[of "CHR ''>''" "map ascii_lower t"] t(1,2) lower_no_bracket[of t] by (simp del: set_map)
qed

lemma head_tag_exists:
  assumes h: "index_of (map ascii_lower body) ''<head'' = Some h"
    and e: "index_of (drop h (map ascii_lower body)) ''>'' = Some e"
  shows "head_tag body (take h body) (take (e + 1) (drop h body)) (drop (h + e + 1) body)"
proof -
  let ?l = "map ascii_lower body" and ?t = "take e (drop h body)"
  obtain a b where ab: "?l = a @ ''<head'' @ b" "length a = h" using index_of_Some[OF h] by blast
  obtain c d where cd: "drop h ?l = c @ CHR ''>'' # d" "length c = e" "CHR ''>'' \<notin> set c"
    using index_of_char[OF e] by blast
  have c: "map ascii_lower ?t = c" using cd(1,2) by (simp flip: take_map drop_map)
  have n: "e < length (drop h body)" using arg_cong[OF cd(1), of length] cd(2) by simp
  have "ascii_lower (drop h body ! e) = drop h ?l ! e" using n by (simp flip: drop_map)
  also have "\<dots> = CHR ''>''" unfolding cd(1) by (simp flip: cd(2))
  finally have tag: "take (e + 1) (drop h body) = ?t @ ''>''"
    using n by (simp add: take_Suc_conv_app_nth lower_bracket)
  have "take 5 (drop h ?l) = ''<head''" unfolding ab by (simp add: ab(2)[symmetric])
  moreover have "''<head'' = take 5 c"
  proof (cases "5 \<le> e")
    case False
    then have "CHR ''>'' \<in> set (take 5 (drop h ?l))" unfolding cd(1) using cd(2) by (auto simp: take_Cons')
    then show ?thesis using calculation by simp
  qed (use calculation cd in simp)
  ultimately have hc: "take 5 c = ''<head''" by simp
  have "length ''<head'' = 5" by simp
  then have "take (length ''<head'') c = take 5 c" by (simp only:)
  then have "take (length ''<head'') c = ''<head''" unfolding hc .
  then have "has_prefix (map ascii_lower ?t) ''<head''" unfolding c has_prefix_def .
  moreover have "CHR ''>'' \<notin> set ?t" using cd(3) c lower_no_bracket by metis
  moreover have "\<forall>p q. ?l = p @ ''<head'' @ q \<longrightarrow> length (take h body) \<le> length p"
    using index_of_least[OF h] by (auto simp: min_def intro: order_trans)
  moreover have "body = take h body @ take (e + 1) (drop h body) @ drop (h + e + 1) body"
    by (metis add.assoc add.commute append_take_drop_id drop_drop)
  ultimately show ?thesis unfolding head_tag_def tag by blast
qed

text \<open>Where the tag goes in an ASCII page.\<close>

lemma inject_ascii:
  assumes "is_ascii body"
  shows "contains (map ascii_lower body) ''<base'' \<Longrightarrow> injectBaseHref lo body href = Some body"
    "\<not> contains (map ascii_lower body) ''<base'' \<Longrightarrow> head_tag body before tag rest \<Longrightarrow>
       injectBaseHref lo body href = Some (before @ tag @ base_tag href @ rest)"
    "\<not> contains (map ascii_lower body) ''<base'' \<Longrightarrow> \<nexists>before tag rest. head_tag body before tag rest \<Longrightarrow>
       injectBaseHref lo body href = Some (base_tag href @ body)"
proof -
  have l: "to_lower lo body = map ascii_lower body" using assms by (simp add: to_lower_def)
  show "contains (map ascii_lower body) ''<base'' \<Longrightarrow> injectBaseHref lo body href = Some body"
    by (simp add: injectBaseHref_def l)
  show "injectBaseHref lo body href = Some (before @ tag @ base_tag href @ rest)"
    if "\<not> contains (map ascii_lower body) ''<base''" and h: "head_tag body before tag rest"
  proof -
    have b: "body = before @ tag @ rest" "tag \<noteq> []" using h by (auto simp: head_tag_def)
    then have n: "length before + (length tag - 1) + 1 = length (before @ tag)" by simp
    have "injectBaseHref lo body href
      = (let insertAt = length (before @ tag)
         in if insertAt > length body then None
            else Some (take insertAt body @ base_tag href @ drop insertAt body))"
      unfolding injectBaseHref_def l Let_def head_tag_index[OF h] option.case n using that(1) by simp
    then show ?thesis by (simp add: b)
  qed
  show "injectBaseHref lo body href = Some (base_tag href @ body)"
    if "\<not> contains (map ascii_lower body) ''<base''" and n: "\<nexists>before tag rest. head_tag body before tag rest"
  proof -
    have "index_of (map ascii_lower body) ''<head'' = None
        \<or> (\<exists>h. index_of (map ascii_lower body) ''<head'' = Some h
             \<and> index_of (drop h (map ascii_lower body)) ''>'' = None)"
      using n head_tag_exists[of body] by (metis not_None_eq)
    then show ?thesis using that(1) by (auto simp: injectBaseHref_def l Let_def)
  qed
qed

text \<open>The standard library's table: ASCII letters, and U+FFFD is its own lower case.\<close>

definition lower_ok :: "(nat \<Rightarrow> nat) \<Rightarrow> bool" where
  "lower_ok lo \<longleftrightarrow> lo 0xFFFD = 0xFFFD \<and> (\<forall>c. in_range 0 0x7F c \<longrightarrow> lo (of_char c) = of_char (ascii_lower c))"

lemma map_runes_ascii:
  assumes "lower_ok lo" "is_ascii s"
  shows "map_runes lo s = map ascii_lower s"
  using assms(2)
proof (induction s)
  case (Cons c cs)
  have c: "in_range 0 0x7F c" using Cons.prems by (simp add: is_ascii_def)
  then have r: "lo (of_char c) = of_char (ascii_lower c)" using assms(1) by (simp add: lower_ok_def)
  have a: "of_char (ascii_lower c) < (0x80 :: nat)"
    using c by (auto simp: ascii_lower_def in_range_def)
  have "utf8_encode (of_char (ascii_lower c)) = [ascii_lower c]" using a by (simp add: utf8_encode_def)
  then show ?case
    using Cons c r by (simp add: utf8_len_def rune_of_def is_ascii_def Let_def)
qed simp

lemma char_codes: "char_of (0xEF :: nat) = CHR 0xEF" "char_of (0xBF :: nat) = CHR 0xBF" "char_of (0xBD :: nat) = CHR 0xBD"
proof -
  have "(0xEF :: nat) = of_char (CHR 0xEF)" "(0xBF :: nat) = of_char (CHR 0xBF)"
    "(0xBD :: nat) = of_char (CHR 0xBD)" by simp_all
  then show "char_of (0xEF :: nat) = CHR 0xEF" "char_of (0xBF :: nat) = CHR 0xBF"
    "char_of (0xBD :: nat) = CHR 0xBD" by (simp_all only: char_of_char)
qed

lemma map_runes_latin:
  assumes "lower_ok lo" "is_ascii s"
  shows "map_runes lo (replicate n (CHR 0xE9) @ s)
       = concat (replicate n utf8_error) @ map ascii_lower s"
proof (induction n)
  case (Suc n)
  have u: "utf8_len (CHR 0xE9 # replicate n (CHR 0xE9) @ s) = 0"
  proof (cases "replicate n (CHR 0xE9) @ s")
    case (Cons c1 r1)
    have "\<not> utf8_cont c1"
      using Cons assms(2) by (cases n; cases s) (auto simp: in_range_def is_ascii_def)
    then show ?thesis by (auto simp: Cons utf8_len_def in_range_def split: list.split)
  qed (simp add: utf8_len_def in_range_def)
  have "utf8_encode 0xFFFD = utf8_error" by (simp add: utf8_encode_def char_codes)
  then have "utf8_encode (lo 0xFFFD) = utf8_error" using assms(1) by (simp add: lower_ok_def)
  then show ?case using Suc u by (simp add: Let_def)
qed (simp add: map_runes_ascii[OF assms])

lemma index_of_skip:
  "\<forall>x \<in> set a. x \<noteq> c \<Longrightarrow> index_of (a @ s) (c # sub) = map_option (\<lambda>i. length a + i) (index_of s (c # sub))"
  by (induction a) (auto simp: option.map_comp comp_def map_option_case split: option.splits)

lemma inject_latin:
  assumes "lower_ok lo" "0 < n" "is_ascii post" "\<not> contains (map ascii_lower post) ''<base''"
  shows "injectBaseHref lo (replicate n (CHR 0xE9) @ ''<head>'' @ post) href
    = (if length post < 2 * n then None
       else Some (replicate n (CHR 0xE9) @ ''<head>'' @ take (2 * n) post @ base_tag href @ drop (2 * n) post))"
proof -
  let ?body = "replicate n (CHR 0xE9) @ ''<head>'' @ post"
  let ?e = "concat (replicate n utf8_error)" and ?p = "map ascii_lower post"
  have na: "\<not> is_ascii ?body" using assms(2) by (cases n) (auto simp: is_ascii_def in_range_def)
  have asc: "is_ascii (''<head>'' @ post)" using assms(3) by (simp add: is_ascii_def in_range_def)
  have "to_lower lo ?body = map_runes lo ?body" using na by (simp only: to_lower_def if_False)
  then have low: "to_lower lo ?body = ?e @ ''<head>'' @ ?p"
    using map_runes_latin[OF assms(1) asc, of n] by (simp add: ascii_lower_def in_range_def)
  have e: "\<forall>x \<in> set ?e. x \<noteq> CHR ''<''" by auto
  have len: "length ?e = 3 * n" by (induction n) simp_all
  have b: "\<not> contains (?e @ ''<head>'' @ ?p) ''<base''"
    using assms(4) unfolding contains_def index_of_skip[OF e] by (simp add: index_of_skip)
  have h: "index_of (?e @ ''<head>'' @ ?p) ''<head'' = Some (3 * n)"
    unfolding index_of_skip[OF e] by (simp add: len)
  have g: "index_of (drop (3 * n) (?e @ ''<head>'' @ ?p)) ''>'' = Some 5"
    using len by simp
  then have "injectBaseHref lo ?body href
      = (if 3 * n + 5 + 1 > length ?body then None
         else Some (take (3 * n + 5 + 1) ?body @ base_tag href @ drop (3 * n + 5 + 1) ?body))"
    by (simp only: injectBaseHref_def low Let_def b if_False h g option.case)
  moreover have "3 * n + 5 + 1 = 3 * n + 6" by simp
  moreover have "take (3 * n + 6) ?body = replicate n (CHR 0xE9) @ ''<head>'' @ take (2 * n) post"
    "drop (3 * n + 6) ?body = drop (2 * n) post"
  proof -
    have x: "take (m + k) (x @ y) = x @ take k y" "drop (m + k) (x @ y) = drop k y"
      if "length x = m" for m k and x y :: string
      using that by simp_all
    have "length (replicate n (CHR 0xE9) @ ''<head>'') = n + 6" by simp
    note x = x[OF this, of "2 * n" post]
    have "n + 6 + 2 * n = 3 * n + 6" by simp
    note x = x[unfolded this append.assoc]
    show "take (3 * n + 6) ?body = replicate n (CHR 0xE9) @ ''<head>'' @ take (2 * n) post"
      "drop (3 * n + 6) ?body = drop (2 * n) post" by (rule x)+
  qed
  ultimately show ?thesis by (simp only: length_append length_replicate) simp
qed

section \<open>Properties\<close>

text \<open>The server's own cookie is not passed on: the Cookie header of a forwarded request has
  exactly the other cookies of the header, as they were written and in their order.\<close>

theorem token_cookie_stripped:
  assumes "header_get ''Cookie'' h = cookies" and "cookies \<noteq> []"
    and "kept = filter (\<lambda>p. \<not> has_prefix (trim_space p) ''wdd_token='') (split_on CHR '';'' cookies)"
  shows "\<exists>v. forward_headers r port h ''Cookie'' = Some [v]
    \<and> (if kept = [] then v = [] else split_on CHR '';'' v = kept)"
proof -
  have "forward_headers r port h ''Cookie'' = Some [stripProxyCookie cookies ''wdd_token'']"
    using assms(1,2) by (simp add: forward_headers_def header_set_def header_del_def header_get_def Let_def)
  then show ?thesis
    using split_on_join_filter[of "\<lambda>p. \<not> has_prefix (trim_space p) ''wdd_token=''" "CHR '';''" cookies]
    by (simp add: stripProxyCookie_def assms(3))
qed

text \<open>C38. Where an upstream's cookies apply. A rewritten path always starts with the text of the
  proxy's mount point and rewriting it again changes nothing; but it lies inside the mount point
  only if the path did not merely continue the port number, as \<open>/_proxy/8080\<close> does for port 80.\<close>

theorem cookie_scope:
  assumes "port \<noteq> []" "list_all is_digit port" "mount = proxy_mount port"
    and "path = rewriteCookiePath p mount"
  shows "has_prefix path mount \<and> rewriteCookiePath path mount = path
    \<and> ((path = mount \<or> has_prefix path (mount @ ''/'')) \<longleftrightarrow> (\<nexists>c t. p = mount @ c # t \<and> c \<noteq> CHR ''/''))"
proof -
  have "is_digit (last port)" using assms(1,2) last_in_set by (auto simp: list_all_iff)
  then have "last mount \<noteq> CHR ''/''" "mount \<noteq> []"
    using assms(1) by (auto simp: assms(3) proxy_mount_def list_all_iff is_digit_def less_eq_char_def)
  then have "trim_suffix mount ''/'' = mount"
    by (auto simp: trim_suffix_def has_suffix_iff)
  then have path: "path = (if p = [] \<or> p = ''/'' then mount else if has_prefix p mount then p
      else if has_prefix p ''/'' then mount @ p else mount @ ''/'' @ p)"
    by (simp add: assms(4) rewriteCookiePath_def)
  have m: "mount \<noteq> ''/''" "has_prefix mount ''/''" by (simp_all add: assms(3) proxy_mount_def has_prefix_def)
  then have hp: "has_prefix path mount" "path \<noteq> []" "path \<noteq> ''/''"
    unfolding path by (auto simp: has_prefix_iff assms(3) proxy_mount_def Cons_eq_append_conv append_eq_Cons_conv)
  then have "rewriteCookiePath path mount = path" by (simp add: rewriteCookiePath_def)
  moreover have "(path = mount \<or> has_prefix path (mount @ ''/'')) \<longleftrightarrow> (\<nexists>c t. p = mount @ c # t \<and> c \<noteq> CHR ''/'')"
  proof (cases "p = [] \<or> p = ''/''")
    case True
    then show ?thesis unfolding path by (auto simp: assms(3) proxy_mount_def)
  next
    case False
    show ?thesis
    proof (cases "has_prefix p mount")
      case True
      then obtain t where "p = mount @ t" by (auto simp: has_prefix_iff)
      then show ?thesis using False True unfolding path by (cases t) (auto simp: has_prefix_iff)
    next
      case np: False
      then show ?thesis using False unfolding path by (auto simp: has_prefix_iff)
    qed
  qed
  ultimately show ?thesis using hp(1) by blast
qed

text \<open>C32. In an ASCII page the base tag is inserted once, at its place, and nothing is lost. A page
  that mentions a base tag is left alone. Otherwise, if the page has a head tag, the new tag
  stands directly after the first one; if it has none, at the beginning. Doing it again changes
  nothing.\<close>

theorem base_tag_injected:
  assumes "is_ascii body" and "is_ascii href"
  shows "\<exists>out. injectBaseHref lo body href = Some out
    \<and> (if contains (map ascii_lower body) ''<base'' then out = body
       else if \<exists>before tag rest. head_tag body before tag rest
         then \<forall>before tag rest. head_tag body before tag rest \<longrightarrow> out = before @ tag @ base_tag href @ rest
       else out = base_tag href @ body)
    \<and> injectBaseHref lo out href' = Some out"
proof -
  let ?b = "contains (map ascii_lower body) ''<base''"
  obtain pre post where p: "body = pre @ post"
    "injectBaseHref lo body href = Some (if ?b then body else pre @ base_tag href @ post)"
  proof (cases "?b \<or> (\<nexists>before tag rest. head_tag body before tag rest)")
    case True
    then show thesis using inject_ascii(1,3)[OF assms(1)] by (intro that[of "[]" body]) auto
  next
    case False
    then obtain before tag rest where h: "head_tag body before tag rest" by blast
    then show thesis
      using False inject_ascii(2)[OF assms(1) _ h]
      by (intro that[of "before @ tag" rest]) (auto simp: head_tag_def)
  qed
  define out where "out = (if ?b then body else pre @ base_tag href @ post)"
  have o: "injectBaseHref lo body href = Some out" by (simp add: p(2) out_def)
  have "is_ascii out" using assms p(1) by (auto simp: out_def base_tag_def is_ascii_def in_range_def)
  moreover have "contains (map ascii_lower out) ''<base''"
    using contains_append[OF base_tag_contains] by (simp add: out_def)
  ultimately have "injectBaseHref lo out href' = Some out" by (rule inject_ascii(1))
  moreover note inject_ascii[OF assms(1), where lo = lo and href = href, unfolded o option.inject]
  ultimately show ?thesis using o by (intro exI[of _ out]) (simp split: if_split)
qed

text \<open>C39. Positions found in the lower-case copy are used in the page itself, and the copy is longer
  when the page has bytes that are not UTF-8, each of which becomes three. A page that starts
  with \<open>n\<close> Latin-1 letters before its head tag gets the base tag \<open>2 n\<close> bytes too late; with fewer
  than \<open>2 n\<close> bytes after the head tag the handler panics.\<close>

theorem base_tag_misplaced:
  assumes "lower_ok lo" and "0 < n" and "is_ascii post"
    and "\<not> contains (map ascii_lower post) ''<base''"
  shows "injectBaseHref lo (replicate n (CHR 0xE9) @ ''<head>'' @ post) href
    = (if length post < 2 * n then None
       else Some (replicate n (CHR 0xE9) @ ''<head>'' @ take (2 * n) post @ base_tag href @ drop (2 * n) post))"
  using assms by (rule inject_latin)

section \<open>Witnesses\<close>

theorem token_cookie_stripped_witness:
  "\<forall>r. \<exists>v. forward_headers r ''80'' [''Cookie'' \<mapsto> [''a=1;wdd_token=t; b=2'']] ''Cookie'' = Some [v]
     \<and> split_on CHR '';'' v = [''a=1'', '' b=2'']"
proof
  fix r
  let ?c = "''a=1;wdd_token=t; b=2''"
  have k: "[''a=1'', '' b=2''] = filter (\<lambda>p. \<not> has_prefix (trim_space p) ''wdd_token='') (split_on CHR '';'' ?c)"
    by code_simp
  have "header_get ''Cookie'' [''Cookie'' \<mapsto> [?c]] = ?c" by (simp add: header_get_def)
  from token_cookie_stripped[OF this _ k, of r "''80''"]
  show "\<exists>v. forward_headers r ''80'' [''Cookie'' \<mapsto> [?c]] ''Cookie'' = Some [v]
     \<and> split_on CHR '';'' v = [''a=1'', '' b=2'']" by simp
qed

theorem cookie_scope_witness:
  "rewriteCookiePath ''/_proxy/8080/x'' (proxy_mount ''80'') = ''/_proxy/8080/x''
   \<and> \<not> has_prefix ''/_proxy/8080/x'' (proxy_mount ''80'' @ ''/'')"
proof -
  have p: "''80'' \<noteq> []" "list_all is_digit ''80''"
    by (simp_all add: is_digit_def less_eq_char_def)
  have r: "rewriteCookiePath ''/_proxy/8080/x'' (proxy_mount ''80'') = ''/_proxy/8080/x''"
    by (simp add: rewriteCookiePath_def proxy_mount_def has_prefix_def)
  have "\<exists>c t. ''/_proxy/8080/x'' = proxy_mount ''80'' @ c # t \<and> c \<noteq> CHR ''/''"
    by (simp add: proxy_mount_def)
  then show ?thesis using cookie_scope[OF p refl refl, of "''/_proxy/8080/x''"] r by metis
qed

theorem base_tag_injected_witness:
  "injectBaseHref id ''<p><Head x><p>'' ''/'' = Some (''<p><Head x>'' @ base_tag ''/'' @ ''<p>'')"
proof -
  let ?body = "''<p><Head x><p>''"
  have h: "head_tag ?body ''<p>'' ''<Head x>'' ''<p>''"
  proof -
    have l: "index_of (map ascii_lower ?body) ''<head'' = Some 3"
      "index_of (drop 3 (map ascii_lower ?body)) ''>'' = Some 7" by code_simp+
    from head_tag_exists[OF this] show ?thesis by simp
  qed
  have a: "is_ascii ?body" "is_ascii ''/''" by (simp_all add: is_ascii_def in_range_def)
  have "\<not> contains (map ascii_lower ?body) ''<base''" by code_simp
  then obtain out where "injectBaseHref id ?body ''/'' = Some out"
    "\<forall>before tag rest. head_tag ?body before tag rest \<longrightarrow> out = before @ tag @ base_tag ''/'' @ rest"
    using base_tag_injected[OF a, of id] h by metis
  then show ?thesis using h by simp
qed

theorem base_tag_misplaced_witness:
  "injectBaseHref (\<lambda>r. if r < 0x80 then of_char (ascii_lower (char_of r)) else r)
     (CHR 0xE9 # ''<head></head>'') ''/'' = Some (CHR 0xE9 # ''<head></'' @ base_tag ''/'' @ ''head>'')"
proof -
  let ?lo = "\<lambda>r :: nat. if r < 0x80 then of_char (ascii_lower (char_of r)) else r"
  have "lower_ok ?lo" by (auto simp: lower_ok_def in_range_def)
  moreover have "\<not> contains (map ascii_lower ''</head>'') ''<base''"
    by (simp add: contains_def ascii_lower_def in_range_def)
  ultimately show ?thesis
    using base_tag_misplaced[of ?lo 1 "''</head>''" "''/''"] by (simp add: is_ascii_def in_range_def)
qed

end
