(* ===== verification/Relay.thy ===== *)
theory Relay
  imports Wd_Prelude
begin

text \<open>
  Two connections joined by two \<open>io.Copy\<close> goroutines: \<open>forward\<close> of \<open>cmd/tunnel/main.go\<close> and the
  end of \<open>proxyWebSocket\<close> in \<open>internal/server/server.go\<close>. Once either copy has ended both
  connections are closed. The peers send and end their sending side when they like; a copy
  reads any part of what has arrived and writes it in a second step.
\<close>

section \<open>State and steps\<close>

text \<open>From the near side (the browser, the local connection) to the far side, and back.\<close>

datatype dir = Forth | Back

fun opposite :: "dir \<Rightarrow> dir" where
  "opposite Forth = Back"
| "opposite Back = Forth"

record pipe =
  pp_sent :: bytes        \<comment> \<open>history: all the sending peer has sent\<close>
  pp_unread :: bytes      \<comment> \<open>arrived and not read\<close>
  pp_ended :: bool        \<comment> \<open>the peer has shut down its sending side\<close>
  pp_buffer :: bytes      \<comment> \<open>read and not written\<close>
  pp_delivered :: bytes
  pp_copying :: bool      \<comment> \<open>the copy has not returned\<close>

record relay =
  ry_pipe :: "dir \<Rightarrow> pipe"
  ry_open :: bool

definition pipe_new :: pipe where
  "pipe_new = \<lparr>pp_sent = [], pp_unread = [], pp_ended = False, pp_buffer = [], pp_delivered = [],
               pp_copying = True\<rparr>"

definition relay_new :: relay where
  "relay_new = \<lparr>ry_pipe = (\<lambda>_. pipe_new), ry_open = True\<rparr>"

definition upd_pipe :: "dir \<Rightarrow> (pipe \<Rightarrow> pipe) \<Rightarrow> relay \<Rightarrow> relay" where
  "upd_pipe d g r = r\<lparr>ry_pipe := (ry_pipe r)(d := g (ry_pipe r d))\<rparr>"

definition copy_read :: "nat \<Rightarrow> pipe \<Rightarrow> pipe" where
  "copy_read n p = p\<lparr>pp_buffer := take n (pp_unread p), pp_unread := drop n (pp_unread p)\<rparr>"

definition copy_write :: "pipe \<Rightarrow> pipe" where
  "copy_write p = p\<lparr>pp_delivered := pp_delivered p @ pp_buffer p, pp_buffer := []\<rparr>"

text \<open>Reading, writing and returning are the steps of \<open>io.Copy\<close>; a closed connection ends it.\<close>

inductive relay_step :: "relay \<Rightarrow> relay \<Rightarrow> bool" where
  send: "ry_open r \<Longrightarrow> \<not> pp_ended (ry_pipe r d) \<Longrightarrow>
      relay_step r (upd_pipe d (\<lambda>p. p\<lparr>pp_sent := pp_sent p @ bs, pp_unread := pp_unread p @ bs\<rparr>) r)"
| peer_end: "relay_step r (upd_pipe d (\<lambda>p. p\<lparr>pp_ended := True\<rparr>) r)"
| read: "ry_open r \<Longrightarrow> pp_copying (ry_pipe r d) \<Longrightarrow> pp_buffer (ry_pipe r d) = [] \<Longrightarrow>
      0 < n \<Longrightarrow> n \<le> length (pp_unread (ry_pipe r d)) \<Longrightarrow> relay_step r (upd_pipe d (copy_read n) r)"
| written: "ry_open r \<Longrightarrow> pp_copying (ry_pipe r d) \<Longrightarrow> pp_buffer (ry_pipe r d) \<noteq> [] \<Longrightarrow>
      relay_step r (upd_pipe d copy_write r)"
| write_error: "pp_copying (ry_pipe r d) \<Longrightarrow> pp_buffer (ry_pipe r d) \<noteq> [] \<Longrightarrow>
      relay_step r (upd_pipe d (\<lambda>p. p\<lparr>pp_copying := False\<rparr>) r)"
| copied: "pp_copying (ry_pipe r d) \<Longrightarrow> pp_buffer (ry_pipe r d) = [] \<Longrightarrow>
      \<not> ry_open r \<or> (pp_ended (ry_pipe r d) \<and> pp_unread (ry_pipe r d) = []) \<Longrightarrow>
      relay_step r (upd_pipe d (\<lambda>p. p\<lparr>pp_copying := False\<rparr>) r)"
| close_both: "\<not> pp_copying (ry_pipe r d) \<Longrightarrow> relay_step r (r\<lparr>ry_open := False\<rparr>)"

text \<open>Reachable states, and the runs that go on from a state.\<close>

inductive relay_run :: "relay \<Rightarrow> relay \<Rightarrow> bool" for r where
  here: "relay_run r r"
| further: "relay_run r r' \<Longrightarrow> relay_step r' r'' \<Longrightarrow> relay_run r r''"

inductive_cases relay_stepE: "relay_step r r'"

inductive_simps closed_steps: "relay_step (r\<lparr>ry_open := False\<rparr>) r'"

lemma relay_run_one: "relay_step r r' \<Longrightarrow> relay_run r r'"
  by (rule relay_run.further[OF relay_run.here])

lemma relay_run_trans: "relay_run r r' \<Longrightarrow> relay_run r' r'' \<Longrightarrow> relay_run r r''"
  by (rotate_tac 1, induction rule: relay_run.induct) (auto intro: relay_run.further)

lemma ry_upd_pipe [simp]:
  "ry_pipe (upd_pipe d g r) e = (if e = d then g (ry_pipe r d) else ry_pipe r e)"
  "ry_open (upd_pipe d g r) = ry_open r"
  by (auto simp: upd_pipe_def)

lemmas pipe_simps = copy_read_def copy_write_def

section \<open>What is delivered\<close>

text \<open>Every byte sent is delivered, in the hands of a copy, or unread, in this order. A connection
  is closed only after a copy has returned; a copy that returned before with nothing in its
  hands had reached the end of what its peer sent.\<close>

definition pipe_inv :: "bool \<Rightarrow> pipe \<Rightarrow> bool" where
  "pipe_inv opened p \<longleftrightarrow>
     pp_sent p = pp_delivered p @ pp_buffer p @ pp_unread p
     \<and> (opened \<and> \<not> pp_copying p \<and> pp_buffer p = [] \<longrightarrow> pp_ended p \<and> pp_unread p = [])"

definition relay_inv :: "relay \<Rightarrow> bool" where
  "relay_inv r \<longleftrightarrow>
     (\<forall>d. pipe_inv (ry_open r) (ry_pipe r d)) \<and> (ry_open r \<or> (\<exists>d. \<not> pp_copying (ry_pipe r d)))"

lemma all_dir: "(\<forall>d. P d) \<longleftrightarrow> P Forth \<and> P Back"
  by (metis dir.exhaust)

lemma ex_dir: "(\<exists>d. P d) \<longleftrightarrow> P Forth \<or> P Back"
  by (metis dir.exhaust)

lemma relay_inv_new: "relay_inv relay_new"
  by (simp add: relay_inv_def pipe_inv_def relay_new_def pipe_new_def)

lemma relay_inv_upd:
  assumes "relay_inv r" "pipe_inv (ry_open r) (g (ry_pipe r d))"
    and "\<not> pp_copying (ry_pipe r d) \<Longrightarrow> \<not> pp_copying (g (ry_pipe r d))"
  shows "relay_inv (upd_pipe d g r)"
  using assms unfolding relay_inv_def by auto metis

lemma relay_inv_step:
  assumes "relay_step r r'" "relay_inv r"
  shows "relay_inv r'"
  using assms(1)
proof (cases rule: relay_step.cases)
  case (close_both d)
  then show ?thesis using assms(2) by (auto simp: relay_inv_def pipe_inv_def)
qed (use assms(2)[unfolded relay_inv_def, THEN conjunct1] in
      \<open>auto intro!: relay_inv_upd[OF assms(2)] simp: pipe_inv_def pipe_simps\<close>)

lemma relay_inv_run: "relay_run r r' \<Longrightarrow> relay_inv r \<Longrightarrow> relay_inv r'"
  by (induction rule: relay_run.induct) (auto intro: relay_inv_step)

lemmas relay_inv_reach = relay_inv_run[OF _ relay_inv_new]

text \<open>Nothing is delivered once the connections are closed.\<close>

lemma closed_step: "relay_step r r' \<Longrightarrow> \<not> ry_open r \<Longrightarrow>
    \<not> ry_open r' \<and> pp_delivered (ry_pipe r' d) = pp_delivered (ry_pipe r d)"
  by (cases rule: relay_step.cases) (auto simp: pipe_simps)

lemma closed_run: "relay_run r r' \<Longrightarrow> \<not> ry_open r \<Longrightarrow>
    \<not> ry_open r' \<and> pp_delivered (ry_pipe r' d) = pp_delivered (ry_pipe r d)"
  by (induction rule: relay_run.induct) (auto dest: closed_step[where d = d])

section \<open>Runs of one copy\<close>

lemma run_write:
  assumes "ry_open r" "pp_copying (ry_pipe r d)"
  shows "\<exists>r'. relay_run r r' \<and> ry_open r' \<and> ry_pipe r' (opposite d) = ry_pipe r (opposite d)
    \<and> ry_pipe r' d = copy_write (ry_pipe r d)"
proof (cases "pp_buffer (ry_pipe r d) = []")
  case True
  then have "copy_write (ry_pipe r d) = ry_pipe r d" by (simp add: copy_write_def)
  then show ?thesis using assms relay_run.here by metis
next
  case False
  from relay_run_one[OF relay_step.written[OF assms False]] show ?thesis
    using assms(1) by (intro exI[of _ "upd_pipe d copy_write r"]) (cases d; simp)
qed

lemma run_read:
  assumes "ry_open r" "pp_copying (ry_pipe r d)" "pp_buffer (ry_pipe r d) = []"
  shows "\<exists>r'. relay_run r r' \<and> ry_open r' \<and> ry_pipe r' (opposite d) = ry_pipe r (opposite d)
    \<and> ry_pipe r' d = (ry_pipe r d)\<lparr>pp_buffer := pp_unread (ry_pipe r d), pp_unread := []\<rparr>"
proof (cases "pp_unread (ry_pipe r d) = []")
  case True
  then have "(ry_pipe r d)\<lparr>pp_buffer := pp_unread (ry_pipe r d), pp_unread := []\<rparr> = ry_pipe r d"
    using assms(3) by simp
  then show ?thesis using assms relay_run.here by metis
next
  case False
  then have "relay_run r (upd_pipe d (copy_read (length (pp_unread (ry_pipe r d)))) r)"
    using assms by (intro relay_run_one relay_step.read) simp_all
  then show ?thesis
    using assms(1) by (intro exI[of _ "upd_pipe d (copy_read (length (pp_unread (ry_pipe r d)))) r"])
      (cases d; simp add: copy_read_def)
qed

text \<open>A copy can bring over all that has been sent.\<close>

lemma run_all:
  assumes "ry_open r" "pp_copying (ry_pipe r d)" "pipe_inv True (ry_pipe r d)"
  obtains r' where "relay_run r r'" "ry_open r'" "ry_pipe r' (opposite d) = ry_pipe r (opposite d)"
    "ry_pipe r' d = (ry_pipe r d)\<lparr>pp_buffer := [], pp_unread := [], pp_delivered := pp_sent (ry_pipe r d)\<rparr>"
proof -
  obtain r1 where r1: "relay_run r r1" "ry_open r1" "ry_pipe r1 (opposite d) = ry_pipe r (opposite d)"
    "ry_pipe r1 d = copy_write (ry_pipe r d)" using run_write[OF assms(1,2)] by blast
  obtain r2 where r2: "relay_run r1 r2" "ry_open r2" "ry_pipe r2 (opposite d) = ry_pipe r1 (opposite d)"
    "ry_pipe r2 d = (ry_pipe r1 d)\<lparr>pp_buffer := pp_unread (ry_pipe r1 d), pp_unread := []\<rparr>"
    using run_read[of r1 d] r1 assms(2) by (auto simp: copy_write_def)
  obtain r3 where r3: "relay_run r2 r3" "ry_open r3" "ry_pipe r3 (opposite d) = ry_pipe r2 (opposite d)"
    "ry_pipe r3 d = copy_write (ry_pipe r2 d)"
    using run_write[of r2 d] r1 r2 assms(2) by (auto simp: copy_write_def)
  show ?thesis
  proof (rule that)
    show "relay_run r r3" using r1(1) r2(1) r3(1) relay_run_trans by blast
    show "ry_pipe r3 d = (ry_pipe r d)\<lparr>pp_buffer := [], pp_unread := [], pp_delivered := pp_sent (ry_pipe r d)\<rparr>"
      using assms(3) by (simp add: r1 r2 r3 copy_write_def pipe_inv_def)
  qed (use r1 r2 r3 in simp_all)
qed

lemma run_close:
  assumes "\<not> pp_copying (ry_pipe r d)"
  obtains r' where "relay_run r r'" "\<not> ry_open r'" "ry_pipe r' d = ry_pipe r d"
    "\<not> pp_copying (ry_pipe r' (opposite d))"
proof -
  let ?c = "r\<lparr>ry_open := False\<rparr>" and ?e = "opposite d"
  let ?s = "upd_pipe ?e (\<lambda>p. p\<lparr>pp_copying := False\<rparr>) ?c"
  have c: "relay_run r ?c" by (rule relay_run_one[OF relay_step.close_both[OF assms]])
  have e: "?e \<noteq> d" by (cases d) simp_all
  show ?thesis
  proof (cases "pp_copying (ry_pipe r ?e)")
    case True
    then have "relay_step ?c ?s"
      by (cases "pp_buffer (ry_pipe r ?e) = []") (auto intro: relay_step.copied relay_step.write_error)
    with c have "relay_run r ?s" by (rule relay_run.further)
    then show ?thesis by (rule that) (use e in simp_all)
  qed (rule that[OF c], simp_all)
qed

text \<open>A request is sent, its sender ends its side, and an answer is on its way.\<close>

lemma run_exchange:
  obtains r where "relay_run relay_new r" "ry_open r"
    "ry_pipe r Forth = pipe_new\<lparr>pp_sent := request, pp_unread := request, pp_ended := True\<rparr>"
    "ry_pipe r Back = pipe_new\<lparr>pp_sent := answer, pp_unread := answer\<rparr>"
proof -
  let ?send = "\<lambda>bs p. p\<lparr>pp_sent := pp_sent p @ bs, pp_unread := pp_unread p @ bs\<rparr>"
  let ?r1 = "upd_pipe Forth (?send request) relay_new"
  let ?r2 = "upd_pipe Back (?send answer) ?r1"
  let ?r3 = "upd_pipe Forth (\<lambda>p. p\<lparr>pp_ended := True\<rparr>) ?r2"
  have n: "ry_open relay_new" "ry_pipe relay_new = (\<lambda>_. pipe_new)" "\<not> pp_ended pipe_new"
    by (simp_all add: relay_new_def pipe_new_def)
  have 1: "relay_step relay_new ?r1" by (rule relay_step.send) (simp_all add: n)
  have 2: "relay_step ?r1 ?r2" by (rule relay_step.send) (simp_all add: n)
  have 3: "relay_step ?r2 ?r3" by (rule relay_step.peer_end)
  show ?thesis
  proof (rule that)
    show "relay_run relay_new ?r3"
      by (rule relay_run.further[OF relay_run.further[OF relay_run_one[OF 1] 2] 3])
  qed (simp_all add: n, simp_all add: pipe_new_def)
qed

section \<open>Properties\<close>


text \<open>A relay comes to its end. In every state in which a peer has ended its side and its copy
  still runs, some run delivers all that this peer sent, then both copies return and both
  connections are closed.\<close>
theorem relay_ends:
  assumes "relay_run relay_new r" and "ry_open r" "pp_ended (ry_pipe r d)" "pp_copying (ry_pipe r d)"
  shows "\<exists>r'. relay_run r r' \<and> \<not> ry_open r' \<and> (\<forall>e. \<not> pp_copying (ry_pipe r' e))
    \<and> pp_delivered (ry_pipe r' d) = pp_sent (ry_pipe r d)"
proof -
  have i: "pipe_inv True (ry_pipe r d)"
    using relay_inv_reach[OF assms(1)] assms(2) by (simp add: relay_inv_def)
  obtain r1 where r1: "relay_run r r1" "ry_open r1"
    "ry_pipe r1 d = (ry_pipe r d)\<lparr>pp_buffer := [], pp_unread := [], pp_delivered := pp_sent (ry_pipe r d)\<rparr>"
    using run_all[OF assms(2,4) i] by blast
  let ?s = "upd_pipe d (\<lambda>p. p\<lparr>pp_copying := False\<rparr>) r1"
  have "relay_step r1 ?s" using assms(3,4) r1 by (intro relay_step.copied) simp_all
  with r1(1) have s: "relay_run r ?s" by (rule relay_run.further)
  obtain r2 where "relay_run ?s r2" "\<not> ry_open r2" "ry_pipe r2 d = ry_pipe ?s d"
    "\<not> pp_copying (ry_pipe r2 (opposite d))" using run_close[of ?s d] by auto
  then have r2: "relay_run r r2" "\<not> ry_open r2" "\<not> pp_copying (ry_pipe r2 d)"
      "\<not> pp_copying (ry_pipe r2 (opposite d))" "pp_delivered (ry_pipe r2 d) = pp_sent (ry_pipe r d)"
    using relay_run_trans[OF s] r1(3) by simp_all
  have "\<not> pp_copying (ry_pipe r2 e)" for e
    using r2(3,4) by (cases d; cases e) simp_all
  with r2 show ?thesis by blast
qed

text \<open>C40. A relay does not support a half-closed connection. When a client sends a request and ends
  its side, the connections may be closed while the answer is under way: for every request and
  every answer there is a run that delivers the request and after which nothing of the answer
  can be delivered any more.\<close>
theorem relay_half_close:
  "\<exists>r. relay_run relay_new r \<and> pp_delivered (ry_pipe r Forth) = request \<and> pp_ended (ry_pipe r Forth)
    \<and> pp_sent (ry_pipe r Back) = answer
    \<and> (\<forall>r'. relay_run r r' \<longrightarrow> pp_delivered (ry_pipe r' Back) = [])"
proof -
  obtain r3 where r3: "relay_run relay_new r3" "ry_open r3"
    "ry_pipe r3 Forth = pipe_new\<lparr>pp_sent := request, pp_unread := request, pp_ended := True\<rparr>"
    "ry_pipe r3 Back = pipe_new\<lparr>pp_sent := answer, pp_unread := answer\<rparr>"
    by (rule run_exchange)
  have o: "pp_copying (ry_pipe r3 Forth)" "pipe_inv True (ry_pipe r3 Forth)"
    by (simp_all add: r3 pipe_new_def pipe_inv_def)
  obtain r4 where r4: "relay_run r3 r4" "ry_open r4" "ry_pipe r4 Back = ry_pipe r3 Back"
    "ry_pipe r4 Forth = (ry_pipe r3 Forth)\<lparr>pp_buffer := [], pp_unread := [],
        pp_delivered := pp_sent (ry_pipe r3 Forth)\<rparr>"
    using run_all[OF r3(2) o] by (metis opposite.simps(1))
  let ?r5 = "upd_pipe Forth (\<lambda>p. p\<lparr>pp_copying := False\<rparr>) r4"
  have "relay_step r4 ?r5"
    using r3 r4 by (intro relay_step.copied) (simp_all add: pipe_new_def)
  then have r5: "relay_run relay_new ?r5"
    by (rule relay_run.further[OF relay_run_trans[OF r3(1) r4(1)]])
  obtain r6 where r6: "relay_run ?r5 r6" "\<not> ry_open r6" "ry_pipe r6 Forth = ry_pipe ?r5 Forth"
    "pp_sent (ry_pipe r6 Back) = answer" "pp_delivered (ry_pipe r6 Back) = []"
  proof
    show "relay_run ?r5 (?r5\<lparr>ry_open := False\<rparr>)"
      by (rule relay_run_one, rule relay_step.close_both[of _ Forth]) simp
  qed (simp_all add: r3 r4 pipe_new_def)
  have "pp_delivered (ry_pipe r' Back) = []" if "relay_run r6 r'" for r'
    using closed_run[OF that r6(2), of Back] r6(5) by simp
  moreover have "pp_delivered (ry_pipe r6 Forth) = request" "pp_ended (ry_pipe r6 Forth)"
    by (simp_all add: r6(3) r4(4) r3(3))
  ultimately show ?thesis using relay_run_trans[OF r5 r6(1)] r6(4) by blast
qed

section \<open>Witnesses\<close>


theorem relay_ends_witness:
  "\<exists>r. relay_run relay_new r \<and> \<not> ry_open r \<and> pp_delivered (ry_pipe r Forth) = [1, 2]"
proof -
  obtain r where r: "relay_run relay_new r" "ry_open r"
    "ry_pipe r Forth = pipe_new\<lparr>pp_sent := [1, 2], pp_unread := [1, 2], pp_ended := True\<rparr>"
    by (rule run_exchange)
  then have "pp_ended (ry_pipe r Forth)" "pp_copying (ry_pipe r Forth)" "pp_sent (ry_pipe r Forth) = [1, 2]"
    by (simp_all add: pipe_new_def)
  then show ?thesis using relay_ends[OF r(1,2), of Forth] relay_run_trans[OF r(1)] by metis
qed

theorem relay_half_close_witness:
  "\<exists>r. relay_run relay_new r \<and> pp_delivered (ry_pipe r Forth) = [7] \<and> pp_sent (ry_pipe r Back) = [8]
     \<and> (\<nexists>r'. relay_run r r' \<and> pp_delivered (ry_pipe r' Back) \<noteq> [])"
  using relay_half_close[of "[7]" "[8]"] by blast

end
