(* ===== verification/Http_Forward.thy ===== *)
theory Http_Forward
  imports Http_Rewrite Relay
begin

text \<open>
  What \<open>handleHTTPProxy\<close> and \<open>proxyWebSocket\<close> of \<open>internal/server/server.go\<close> send to the local
  server: the path of a forwarded request in its decoded and in its raw form, and the request
  that opens a relayed WebSocket. How \<open>net/http\<close> dials, writes and hijacks is an argument; the
  relay that follows is the one of theory \<open>Relay\<close>.
\<close>

section \<open>Percent encoding\<close>

definition hex_digit_val :: "char \<Rightarrow> nat option" where
  "hex_digit_val c =
     (if is_digit c then Some (digit_val c)
      else if in_range 0x61 0x66 c then Some (of_char c - 87)
      else if in_range 0x41 0x46 c then Some (of_char c - 55)
      else None)"

text \<open>\<open>url.PathUnescape\<close>; \<open>None\<close> is the error for a percent sign without two digits.\<close>

fun path_unescape :: "string \<Rightarrow> string option" where
  "path_unescape [] = Some []"
| "path_unescape (c # cs) =
     (if c \<noteq> CHR ''%'' then map_option (Cons c) (path_unescape cs)
      else
        (case cs of
           a # b # rest \<Rightarrow>
             (case (hex_digit_val a, hex_digit_val b) of
                (Some x, Some y) \<Rightarrow> map_option (Cons (char_of (16 * x + y))) (path_unescape rest)
              | _ \<Rightarrow> None)
         | _ \<Rightarrow> None))"

text \<open>\<open>url.Parse\<close> on a text after scheme and host. The fragment is cut off at the first number sign;
  what is before it must have no control characters, and what is after it no broken escapes. The
  query begins after the first question mark, and the path is decoded. \<open>None\<close> is an error.\<close>

definition is_control :: "char \<Rightarrow> bool" where
  "is_control c \<longleftrightarrow> of_char c < (0x20 :: nat) \<or> c = CHR 0x7F"

definition url_path_query :: "string \<Rightarrow> (string \<times> string) option" where
  "url_path_query s =
     (let u = takeWhile (\<lambda>c. c \<noteq> CHR ''#'') s;
          fragment = drop 1 (dropWhile (\<lambda>c. c \<noteq> CHR ''#'') s)
      in if list_ex is_control u \<or> path_unescape fragment = None then None
         else map_option (\<lambda>path. (path, drop 1 (dropWhile (\<lambda>c. c \<noteq> CHR ''?'') u)))
                (path_unescape (takeWhile (\<lambda>c. c \<noteq> CHR ''?'') u)))"

section \<open>Forwarded requests\<close>

record forwarded =
  fw_path :: string
  fw_rawPath :: string
  fw_host :: string
  fw_headers :: headers

text \<open>The clone of the request: its path without the mount point, its raw path (\<open>r.URL.RawPath\<close>,
  empty when the default encoding of the path is meant) without the text of the mount point.
  The headers are those that the director then sets.\<close>

definition forward_request :: "http_req \<Rightarrow> string \<Rightarrow> string \<Rightarrow> string \<Rightarrow> forwarded" where
  "forward_request r port rest rawPath =
     \<lparr>fw_path = rest,
      fw_rawPath =
        (if rawPath \<noteq> [] then
           (let raw = trim_prefix rawPath (''/_proxy/'' @ port) in if raw = [] then ''/'' else raw)
         else rawPath),
      fw_host = ''127.0.0.1:'' @ port,
      fw_headers = forward_headers r port (rq_headers r)\<rparr>"

section \<open>Relayed sockets\<close>

record socket_request =
  sr_url :: string
  sr_host :: string
  sr_headers :: headers

definition socket_path :: "string \<Rightarrow> string \<Rightarrow> string" where
  "socket_path path rawQuery = (if rawQuery \<noteq> [] then path @ ''?'' @ rawQuery else path)"

text \<open>\<open>EqualFold\<close> compares folded names.\<close>

definition socket_headers :: "http_req \<Rightarrow> string \<Rightarrow> headers" where
  "socket_headers r port =
     (let h0 = (\<lambda>k. if fold_name k \<noteq> fold_name ''host'' \<and> fold_name k \<noteq> fold_name ''cookie''
                    then rq_headers r k else None);
          h1 = header_set ''X-Forwarded-Host'' (rq_host r) h0;
          h2 = header_set ''X-Forwarded-Prefix'' (''/_proxy/'' @ port) h1;
          h3 = header_set ''X-Forwarded-Proto'' (forwardedProto r) h2;
          h4 = header_set ''Forwarded'' (''host='' @ rq_host r @ '';proto='' @ forwardedProto r) h3
      in case socket_cookie r of None \<Rightarrow> h4 | Some v \<Rightarrow> header_set ''Cookie'' v h4)"

definition socket_request :: "http_req \<Rightarrow> string \<Rightarrow> string \<Rightarrow> string \<Rightarrow> socket_request" where
  "socket_request r port path rawQuery =
     \<lparr>sr_url = ''http://127.0.0.1:'' @ port @ socket_path path rawQuery,
      sr_host = ''127.0.0.1:'' @ port, sr_headers = socket_headers r port\<rparr>"

text \<open>How far the set-up gets.\<close>

record socket_env =
  se_dial :: "string option"      \<comment> \<open>the text of the error of \<open>DialTimeout\<close>\<close>
  se_write :: bool
  se_hijacker :: bool
  se_hijack :: bool

text \<open>\<open>NewRequest\<close> fails when the address does not parse: its method is valid, and its scheme and host
  are. The answer to the browser if there is one, the connection to the local server if it has been
  opened and not closed again, and the relay that starts.\<close>

datatype socket_outcome =
    SocketAnswer http_resp
  | SocketDropped
  | SocketRelayed socket_request relay

definition proxyWebSocket ::
  "socket_env \<Rightarrow> http_req \<Rightarrow> string \<Rightarrow> string \<Rightarrow> string \<Rightarrow> socket_outcome \<times> bool" where
  "proxyWebSocket se r port path rawQuery =
     (case se_dial se of
        Some err \<Rightarrow> (SocketAnswer (http_error (''upstream unreachable: '' @ err) 502), False)
      | None \<Rightarrow>
          if url_path_query (socket_path path rawQuery) = None then (SocketAnswer (http_error ''bad upstream request'' 500), False)
          else if \<not> se_write se then (SocketAnswer (http_error ''upstream write error'' 502), False)
          else if \<not> se_hijacker se then (SocketAnswer (http_error ''hijack unsupported'' 500), False)
          else if \<not> se_hijack se then (SocketDropped, False)
          else (SocketRelayed (socket_request r port path rawQuery) relay_new, True))"

text \<open>The answer when the transport fails.\<close>

definition proxy_error :: "string \<Rightarrow> http_resp" where
  "proxy_error err = http_error (''proxy error: '' @ err) 502"

text \<open>\<open>handleHTTPProxy\<close> as a whole, up to the transport.\<close>

datatype proxy_action =
    Answer http_resp
  | Forward forwarded
  | Socket socket_outcome

definition handleHTTPProxy ::
  "jwt_lib \<Rightarrow> authenticator \<Rightarrow> int \<Rightarrow> socket_env \<Rightarrow> http_req \<Rightarrow> string \<Rightarrow> string \<Rightarrow> proxy_action" where
  "handleHTTPProxy lib a now se r rawPath rawQuery =
     (case proxy_route lib a now r of
        ProxyAnswer resp \<Rightarrow> Answer resp
      | ProxySocket port rest \<Rightarrow> Socket (fst (proxyWebSocket se r port rest rawQuery))
      | ProxyForward port rest \<Rightarrow> Forward (forward_request r port rest rawPath))"

section \<open>Paths\<close>

lemma path_unescape_plain: "CHR ''%'' \<notin> set s \<Longrightarrow> path_unescape (s @ t) = map_option (append s) (path_unescape t)"
  by (cases "path_unescape t"; induction s) auto

lemma digits_plain: "list_all is_digit s \<Longrightarrow> CHR ''%'' \<notin> set s"
  by (auto simp: list_all_iff is_digit_def less_eq_char_def)

lemma match_proxy_path_parts:
  assumes "match_proxy_path p = Some (port, rest)"
  shows "p = ''/_proxy/'' @ port @ rest" "list_all is_digit port" "port \<noteq> []" "rest = [] \<or> has_prefix rest ''/''"
  using assms
  by (auto simp: match_proxy_path_def has_prefix_iff list_all_iff Let_def dest: set_takeWhileD split: if_splits)
    (metis takeWhile_dropWhile_id)+

lemma path_unescape_length: "path_unescape s = Some t \<Longrightarrow> length t \<le> length s"
  by (induction s arbitrary: t rule: path_unescape.induct)
    (auto split: if_splits list.splits option.splits, fastforce+)

lemma takeWhile_shorter: "c \<in> set s \<Longrightarrow> length (takeWhile (\<lambda>x. x \<noteq> c) s) < length s"
  by (induction s) auto

lemma cut_at:
  assumes "c \<notin> set p"
  shows "takeWhile (\<lambda>x. x \<noteq> c) (p @ c # q) = p" "dropWhile (\<lambda>x. x \<noteq> c) (p @ c # q) = c # q"
    "takeWhile (\<lambda>x. x \<noteq> c) p = p" "dropWhile (\<lambda>x. x \<noteq> c) p = []"
  using assms by (induction p) auto

lemma url_plain:
  assumes "CHR ''?'' \<notin> set path" "CHR ''#'' \<notin> set path" "CHR ''#'' \<notin> set tail"
    and "tail = [] \<or> hd tail = CHR ''?''"
  shows "url_path_query (path @ tail)
    = (if list_ex is_control (path @ tail) then None
       else map_option (\<lambda>p. (p, drop 1 tail)) (path_unescape path))"
proof -
  have "CHR ''#'' \<notin> set (path @ tail)" using assms(2,3) by simp
  note f = cut_at(3,4)[OF this]
  have "takeWhile (\<lambda>c. c \<noteq> CHR ''?'') (path @ tail) = path
      \<and> drop 1 (dropWhile (\<lambda>c. c \<noteq> CHR ''?'') (path @ tail)) = drop 1 tail"
    using assms(1,4) by (cases tail) (simp_all add: cut_at)
  then show ?thesis unfolding url_path_query_def Let_def f by simp
qed

text \<open>With one of the two signs in the path only a proper beginning of it is decoded.\<close>

lemma url_cut:
  assumes "CHR ''?'' \<in> set path \<or> CHR ''#'' \<in> set path" "url_path_query (path @ tail) = Some (t, q)"
  shows "length t < length path"
proof -
  let ?u = "takeWhile (\<lambda>c. c \<noteq> CHR ''#'') (path @ tail)"
  let ?v = "takeWhile (\<lambda>c. c \<noteq> CHR ''?'') ?u"
  have "path_unescape ?v = Some t"
    using assms(2) by (auto simp: url_path_query_def Let_def split: if_splits)
  then have l: "length t \<le> length ?v" by (rule path_unescape_length)
  show ?thesis
  proof (cases "CHR ''#'' \<in> set path")
    case True
    then have "?u = takeWhile (\<lambda>c. c \<noteq> CHR ''#'') path" by (rule takeWhile_append1) simp
    then have "length ?u < length path" using takeWhile_shorter[OF True] by (simp only:)
    moreover have "length ?v \<le> length ?u" by (rule length_takeWhile_le)
    ultimately show ?thesis using l by linarith
  next
    case False
    then have "?u = path @ takeWhile (\<lambda>c. c \<noteq> CHR ''#'') tail" by (intro takeWhile_append2) auto
    moreover have q: "CHR ''?'' \<in> set path" using assms(1) False by simp
    ultimately have "?v = takeWhile (\<lambda>c. c \<noteq> CHR ''?'') path" by (simp add: takeWhile_append1)
    then show ?thesis using takeWhile_shorter[OF q] l by simp
  qed
qed

section \<open>Properties\<close>

text \<open>The raw path that is forwarded still means the path that is forwarded: when the raw path of
  the browser's request decodes to its path and begins with the text of the mount point, what
  is left of it is not empty and decodes to what is left of the path.\<close>
theorem raw_path_forwarded:
  assumes "match_proxy_path (rq_path r) = Some (port, rest)" "path = (if rest = [] then ''/'' else rest)"
    and "path_unescape raw = Some (rq_path r)" "has_prefix raw (proxy_mount port)"
  shows "let f = forward_request r port path raw
    in fw_path f = path \<and> fw_rawPath f \<noteq> [] \<and> path_unescape (fw_rawPath f) = Some (fw_path f)"
proof -
  note m = match_proxy_path_parts[OF assms(1)]
  obtain t where t: "raw = proxy_mount port @ t" using assms(4) by (auto simp: has_prefix_iff)
  have "CHR ''%'' \<notin> set (proxy_mount port)" using digits_plain[OF m(2)] by (simp add: proxy_mount_def)
  from path_unescape_plain[OF this, of t] have u: "path_unescape t = Some rest"
    using assms(3) m(1) by (auto simp: t proxy_mount_def)
  have "trim_prefix raw (''/_proxy/'' @ port) = t"
    by (simp add: t trim_prefix_def has_prefix_def proxy_mount_def)
  moreover have "raw \<noteq> []" by (simp add: t proxy_mount_def)
  moreover have "rest = [] \<longleftrightarrow> t = []"
    using u by (cases t) (auto split: if_splits list.splits option.splits prod.splits)
  ultimately show ?thesis
    using u by (simp add: forward_request_def assms(2))
qed

text \<open>C36. Where a relayed WebSocket goes. The decoded path is written into the address of the new
  request without encoding it again: the local server sees the browser's path and query exactly
  when the path has no question mark, no number sign and nothing that looks like an escape, and
  neither has a control character. When the address does not parse, as with a control character
  in the path or a percent sign without two digits, the browser gets an error and nothing is sent.\<close>
theorem socket_target:
  assumes "CHR ''#'' \<notin> set rawQuery"
  shows "(url_path_query (socket_path path rawQuery) = Some (path, rawQuery)
      \<longleftrightarrow> CHR ''?'' \<notin> set path \<and> CHR ''#'' \<notin> set path \<and> path_unescape path = Some path
        \<and> \<not> list_ex is_control (path @ rawQuery))
    \<and> (se_dial se = None \<and> url_path_query (socket_path path rawQuery) = None \<longrightarrow>
        proxyWebSocket se r port path rawQuery = (SocketAnswer (http_error ''bad upstream request'' 500), False))"
proof -
  let ?tail = "if rawQuery = [] then [] else CHR ''?'' # rawQuery"
  have sp: "socket_path path rawQuery = path @ ?tail" "CHR ''#'' \<notin> set ?tail"
    using assms by (simp_all add: socket_path_def)
  have "url_path_query (path @ ?tail) = Some (path, rawQuery)
      \<longleftrightarrow> CHR ''?'' \<notin> set path \<and> CHR ''#'' \<notin> set path \<and> path_unescape path = Some path
        \<and> \<not> list_ex is_control (path @ rawQuery)"
  proof (cases "CHR ''?'' \<in> set path \<or> CHR ''#'' \<in> set path")
    case True
    then show ?thesis using url_cut[OF True, of ?tail path rawQuery] by auto
  next
    case False
    then have n: "CHR ''?'' \<notin> set path" "CHR ''#'' \<notin> set path" by simp_all
    have "list_ex is_control (path @ ?tail) \<longleftrightarrow> list_ex is_control (path @ rawQuery)"
      by (simp add: is_control_def)
    then show ?thesis using n url_plain[OF n sp(2)] by auto
  qed
  moreover have "url_path_query (socket_path path rawQuery) = None \<Longrightarrow> se_dial se = None \<Longrightarrow>
      proxyWebSocket se r port path rawQuery = (SocketAnswer (http_error ''bad upstream request'' 500), False)"
    by (simp add: proxyWebSocket_def)
  ultimately show ?thesis unfolding sp(1) by blast
qed

text \<open>C29. What a relayed WebSocket request carries: every header of the browser's request but Host and
  Cookie, the four forwarding headers of the proxy, and the cookies that are not the server's
  own, or no Cookie header when there are none.\<close>
theorem socket_request_headers:
  fixes r port path rawQuery
  defines "h \<equiv> sr_headers (socket_request r port path rawQuery)"
    and "others \<equiv> filter (\<lambda>c. fst c \<noteq> ''wdd_token'') (rq_cookies r)"
  assumes "fold_name k \<noteq> fold_name ''host''" "fold_name k \<noteq> fold_name ''cookie''"
    and "k \<notin> {''X-Forwarded-Host'', ''X-Forwarded-Prefix'', ''X-Forwarded-Proto'', ''Forwarded''}"
  shows "h k = rq_headers r k \<and> h ''Host'' = None
    \<and> h ''X-Forwarded-Prefix'' = Some [proxy_mount port] \<and> h ''X-Forwarded-Host'' = Some [rq_host r]
    \<and> h ''X-Forwarded-Proto'' = Some [if rq_tls r then ''https'' else ''http'']
    \<and> h ''Forwarded'' = Some [''host='' @ rq_host r @ '';proto='' @ (if rq_tls r then ''https'' else ''http'')]
    \<and> h ''Cookie'' = (if others = [] then None
         else Some [join ''; '' (map (\<lambda>(n, v). n @ ''='' @ v) others)])"
proof -
  have c: "socket_cookie r = (if others = [] then None else Some (join ''; '' (map (\<lambda>(n, v). n @ ''='' @ v) others)))"
    by (simp add: socket_cookie_def others_def case_prod_unfold Let_def)
  have f: "fold_name ''Host'' = fold_name ''host''" "fold_name ''Cookie'' = fold_name ''cookie''" by code_simp+
  then have n: "k \<noteq> ''Cookie''" using assms(4) by metis
  show ?thesis
    using assms(3-5) n
    by (simp add: h_def socket_request_def socket_headers_def forwardedProto_def c header_set_def proxy_mount_def f Let_def del: fold_name.simps)
qed

section \<open>Witnesses\<close>

definition demo_request :: "string \<Rightarrow> http_req" where
  "demo_request path =
     \<lparr>rq_method = ''GET'', rq_path = path,
      rq_headers = [''Upgrade'' \<mapsto> [''websocket''], ''Cookie'' \<mapsto> [''wdd_token=t; a=1''], ''Host'' \<mapsto> [''h'']],
      rq_query = [], rq_cookies = [(''wdd_token'', ''t''), (''a'', ''1'')], rq_body = [], rq_host = ''h'', rq_tls = False\<rparr>"

theorem raw_path_forwarded_witness:
  "path_unescape (fw_rawPath (forward_request (demo_request ''/_proxy/80/a/b'') ''80'' ''/a/b'' ''/_proxy/80/a%2Fb''))
     = Some ''/a/b''"
proof -
  have m: "match_proxy_path (rq_path (demo_request ''/_proxy/80/a/b'')) = Some (''80'', ''/a/b'')"
    by (simp add: demo_request_def match_proxy_path_def has_prefix_def is_digit_def less_eq_char_def)
  have u: "path_unescape ''/_proxy/80/a%2Fb'' = Some (rq_path (demo_request ''/_proxy/80/a/b''))"
    unfolding demo_request_def by code_simp
  have p: "has_prefix ''/_proxy/80/a%2Fb'' (proxy_mount ''80'')" by (simp add: has_prefix_def proxy_mount_def)
  show ?thesis using raw_path_forwarded[OF m refl u p] by (simp add: Let_def forward_request_def)
qed

theorem socket_target_witness:
  "url_path_query (socket_path ''/a?b'' ''c'') \<noteq> Some (''/a?b'', ''c'')
   \<and> url_path_query (socket_path [CHR ''/'', CHR 0x09] ''c'') \<noteq> Some ([CHR ''/'', CHR 0x09], ''c'')
   \<and> url_path_query (socket_path ''/a'' ''c'') = Some (''/a'', ''c'')"
  using socket_target[of "''c''" "''/a?b''"] socket_target[of "''c''" "''/a''"]
    socket_target[of "''c''" "[CHR ''/'', CHR 0x09]"] by (simp add: is_control_def)

theorem socket_request_headers_witness:
  "sr_headers (socket_request (demo_request ''/_proxy/80/x'') ''80'' ''/x'' []) ''Upgrade'' = Some [''websocket'']
   \<and> sr_headers (socket_request (demo_request ''/_proxy/80/x'') ''80'' ''/x'' []) ''Cookie'' = Some [''a=1'']
   \<and> sr_headers (socket_request (demo_request ''/_proxy/80/x'') ''80'' ''/x'' []) ''X-Forwarded-Proto'' = Some [''http'']"
proof -
  have f: "fold_name ''Upgrade'' \<noteq> fold_name ''host''" "fold_name ''Upgrade'' \<noteq> fold_name ''cookie''" by code_simp+
  from socket_request_headers[OF f, of "demo_request ''/_proxy/80/x''" "''80''" "''/x''" "[]"]
  show ?thesis by (simp add: demo_request_def)
qed

end
