(* ===== verification/Server_Http.thy ===== *)
theory Server_Http
  imports Http_Forward Session_Control
begin

text \<open>
  The server as one program: \<open>main\<close> of \<open>main.go\<close>, and \<open>New\<close>, \<open>SetAssets\<close>, \<open>Handler\<close>, \<open>handleWS\<close> and
  \<open>spaHandler\<close> of \<open>internal/server/server.go\<close>. It ties the endpoints of \<open>Http_Api\<close> and
  \<open>Http_Forward\<close> to the state of \<open>Control_Plane\<close>. The routes are looked up as \<open>http.ServeMux\<close>
  does it; \<open>http.FileServer\<close> is given a path and is not modelled further.
\<close>

section \<open>The routes\<close>

datatype endpoint =
    AuthEndpoint | WsEndpoint | HealthEndpoint | ValidateEndpoint | ProxyEndpoint | StaticEndpoint

text \<open>The patterns of \<open>Handler\<close>; the static files are there if there are any.\<close>

definition handler_routes :: "bool \<Rightarrow> (string \<times> endpoint) list" where
  "handler_routes assets =
     [(''/auth'', AuthEndpoint), (''/ws'', WsEndpoint), (''/health'', HealthEndpoint),
      (''/validate'', ValidateEndpoint), (''/_proxy/'', ProxyEndpoint)]
     @ (if assets then [(''/'', StaticEndpoint)] else [])"

text \<open>
  \<open>ServeMux\<close> matches the encoded path segment by segment, each one decoded. A pattern that ends
  in a slash matches every path below it, and the longest of the patterns that match is chosen.
\<close>

definition path_segment :: "string \<Rightarrow> string" where
  "path_segment s = (case path_unescape s of Some t \<Rightarrow> t | None \<Rightarrow> s)"

definition path_segments :: "string \<Rightarrow> string list" where
  "path_segments path = map path_segment (split_on CHR ''/'' (drop 1 path))"

definition pattern_parts :: "string \<Rightarrow> string list" where
  "pattern_parts pat = split_on CHR ''/'' (drop 1 pat)"

definition pattern_matches :: "string \<Rightarrow> string list \<Rightarrow> bool" where
  "pattern_matches pat segs \<longleftrightarrow>
     (if has_suffix pat ''/'' then
        length (pattern_parts pat) \<le> length segs
        \<and> take (length (pattern_parts pat) - 1) segs = butlast (pattern_parts pat)
      else segs = pattern_parts pat)"

fun longest_match :: "string list \<Rightarrow> (string \<times> endpoint) list \<Rightarrow> (string \<times> endpoint) option" where
  "longest_match segs [] = None"
| "longest_match segs ((pat, e) # routes) =
     (let best = longest_match segs routes
      in if pattern_matches pat segs then
           (case best of
              None \<Rightarrow> Some (pat, e)
            | Some (pat', e') \<Rightarrow> if length pat' \<le> length pat then Some (pat, e) else best)
         else best)"

definition mux_match :: "(string \<times> endpoint) list \<Rightarrow> string \<Rightarrow> (string \<times> endpoint) option" where
  "mux_match routes path = (if path = [] then None else longest_match (path_segments path) routes)"

text \<open>An exact match leaves nothing for the part of the pattern after its last slash.\<close>

definition slashes :: "string \<Rightarrow> nat" where
  "slashes s = length (filter (\<lambda>c. c = CHR ''/'') s)"

definition mux_exact :: "(string \<times> endpoint) option \<Rightarrow> string \<Rightarrow> bool" where
  "mux_exact m path =
     (case m of
        None \<Rightarrow> False
      | Some (pat, e) \<Rightarrow>
          if \<not> has_suffix pat ''/'' then True
          else (path = [] \<or> has_suffix path ''/'') \<and> slashes path = length (pattern_parts pat))"

definition clean_path :: "string \<Rightarrow> string" where
  "clean_path p =
     (if p = [] then ''/''
      else let p = (if hd p \<noteq> CHR ''/'' then CHR ''/'' # p else p);
               np = path_clean p
           in if has_suffix p ''/'' \<and> np \<noteq> ''/'' then np @ ''/'' else np)"

text \<open>A request is redirected to the path with a slash when only that has a route of its own, and
  to the clean form of its path; the path of \<open>CONNECT\<close> is taken as it is.\<close>

datatype mux_outcome = MuxServe endpoint | MuxRedirect | MuxNotFound | MuxBadRequest

definition mux_handler :: "(string \<times> endpoint) list \<Rightarrow> string \<Rightarrow> string \<Rightarrow> mux_outcome" where
  "mux_handler routes method escaped =
     (if escaped = ''*'' then MuxBadRequest
      else
        let path = (if method = ''CONNECT'' then escaped else clean_path escaped);
            m = mux_match routes path
        in if \<not> mux_exact m path \<and> \<not> has_suffix path ''/'' \<and> path \<noteq> []
              \<and> mux_exact (mux_match routes (path @ ''/'')) (path @ ''/'') then MuxRedirect
           else if method \<noteq> ''CONNECT'' \<and> path \<noteq> escaped then MuxRedirect
           else case m of None \<Rightarrow> MuxNotFound | Some (pat, e) \<Rightarrow> MuxServe e)"

section \<open>The server\<close>

record server =
  srv_cfg :: config
  srv_auth :: authenticator
  srv_assets :: "(string \<Rightarrow> bool) option"    \<comment> \<open>the paths that \<open>Open\<close> finds\<close>
  srv_world :: world

definition server_New :: "config \<Rightarrow> world \<Rightarrow> server" where
  "server_New cfg w =
     \<lparr>srv_cfg = cfg, srv_auth = server_auth cfg, srv_assets = None, srv_world = w\<rparr>"

definition SetAssets :: "(string \<Rightarrow> bool) \<Rightarrow> server \<Rightarrow> server" where
  "SetAssets opens srv = srv\<lparr>srv_assets := Some opens\<rparr>"

text \<open>\<open>%q\<close> on a version, which is ASCII.\<close>

definition hex_nibble :: "nat \<Rightarrow> char" where
  "hex_nibble n = ''0123456789abcdef'' ! n"

definition quote_char :: "char \<Rightarrow> string" where
  "quote_char c =
     (if c = CHR 0x22 \<or> c = CHR 0x5C then [CHR 0x5C, c]
      else if c = CHR 0x07 then CHR 0x5C # ''a''
      else if c = CHR 0x08 then CHR 0x5C # ''b''
      else if c = CHR 0x0C then CHR 0x5C # ''f''
      else if c = CHR 0x0A then CHR 0x5C # ''n''
      else if c = CHR 0x0D then CHR 0x5C # ''r''
      else if c = CHR 0x09 then CHR 0x5C # ''t''
      else if c = CHR 0x0B then CHR 0x5C # ''v''
      else if in_range 0x20 0x7E c then [c]
      else CHR 0x5C # ''x'' @ [hex_nibble (of_char c div 16), hex_nibble (of_char c mod 16)])"

definition go_quote :: "string \<Rightarrow> string" where
  "go_quote s = [CHR 0x22] @ concat (map quote_char s) @ [CHR 0x22]"

definition health_endpoint :: "string \<Rightarrow> http_resp" where
  "health_endpoint version =
     Response 200 [(''Content-Type'', ''application/json'')]
       (''{'' @ [CHR 0x22] @ ''status'' @ [CHR 0x22] @ '':'' @ [CHR 0x22] @ ''ok'' @ [CHR 0x22] @ '',''
        @ [CHR 0x22] @ ''version'' @ [CHR 0x22] @ '':'' @ go_quote version @ ''}'')"

text \<open>The path that the file server gets: the one asked for if it exists, or the start page.\<close>

definition spaHandler :: "(string \<Rightarrow> bool) \<Rightarrow> string \<Rightarrow> string" where
  "spaHandler opens path = (if opens path then path else ''/'')"

text \<open>
  What the rest of the system contributes to one request: the encoded forms of its path and query,
  the libraries, the time, and the answers of the operating system.
\<close>

record 'k request_env =
  re_escaped :: string        \<comment> \<open>\<open>r.URL.EscapedPath()\<close>\<close>
  re_rawPath :: string
  re_rawQuery :: string
  re_jwt :: jwt_lib
  re_ssh :: "'k ssh_env"
  re_now :: int
  re_socket :: socket_env
  re_upgrade :: bool          \<comment> \<open>the upgrade of the connection succeeds\<close>
  re_ctl :: ctl_env

datatype served =
    Reply http_resp
  | Joined string             \<comment> \<open>a WebSocket in the session of this user\<close>
  | UpgradeFailed             \<comment> \<open>answered by the upgrader\<close>
  | Proxied proxy_action
  | StaticFile string
  | Redirected
  | NotFound
  | BadRequest

text \<open>\<open>handleWS\<close> up to \<open>Run\<close>, behind \<open>withCORS\<close>, which answers \<open>OPTIONS\<close> itself and adds its
  headers to what the handler answers.\<close>

definition handleWS :: "'k request_env \<Rightarrow> server \<Rightarrow> http_req \<Rightarrow> served \<times> server" where
  "handleWS env srv r =
     (case ws_guard (re_jwt env) (srv_auth srv) (re_now env) r of
        Inl resp \<Rightarrow> (Reply resp, srv)
      | Inr u \<Rightarrow>
          if \<not> re_upgrade env then (UpgradeFailed, srv)
          else (Joined u, srv\<lparr>srv_world := ws_connect (re_ctl env) u (srv_world srv)\<rparr>))"

definition withCORS_ws ::
  "(http_req \<Rightarrow> served \<times> server) \<Rightarrow> server \<Rightarrow> http_req \<Rightarrow> served \<times> server" where
  "withCORS_ws h srv r =
     (if rq_method r = ''OPTIONS'' then (Reply (Response 204 cors_headers []), srv)
      else case h r of
             (Reply (Response status hs body), srv') \<Rightarrow> (Reply (Response status (cors_headers @ hs) body), srv')
           | res \<Rightarrow> res)"

definition serve_endpoint ::
  "'k request_env \<Rightarrow> server \<Rightarrow> http_req \<Rightarrow> endpoint \<Rightarrow> served \<times> server" where
  "serve_endpoint env srv r e =
     (case e of
        AuthEndpoint \<Rightarrow>
          (Reply (withCORS (handleAuth (re_jwt env) (srv_auth srv) (re_ssh env) (re_now env)) r), srv)
      | WsEndpoint \<Rightarrow> withCORS_ws (handleWS env srv) srv r
      | HealthEndpoint \<Rightarrow> (Reply (health_endpoint (cf_version (srv_cfg srv))), srv)
      | ValidateEndpoint \<Rightarrow> (Reply (validate_endpoint (re_jwt env) (srv_auth srv) (re_now env) r), srv)
      | ProxyEndpoint \<Rightarrow>
          (Proxied (handleHTTPProxy (re_jwt env) (srv_auth srv) (re_now env) (re_socket env) r
                      (re_rawPath env) (re_rawQuery env)), srv)
      | StaticEndpoint \<Rightarrow>
          (case srv_assets srv of
             None \<Rightarrow> (NotFound, srv) | Some opens \<Rightarrow> (StaticFile (spaHandler opens (rq_path r)), srv)))"

definition server_serve :: "'k request_env \<Rightarrow> server \<Rightarrow> http_req \<Rightarrow> served \<times> server" where
  "server_serve env srv r =
     (case mux_handler (handler_routes (srv_assets srv \<noteq> None)) (rq_method r) (re_escaped env) of
        MuxServe e \<Rightarrow> serve_endpoint env srv r e
      | MuxRedirect \<Rightarrow> (Redirected, srv)
      | MuxNotFound \<Rightarrow> (NotFound, srv)
      | MuxBadRequest \<Rightarrow> (BadRequest, srv))"

section \<open>The program\<close>

text \<open>The flags with their defaults; \<open>hour\<close> in nanoseconds.\<close>

definition main_flags :: "string option \<Rightarrow> string option \<Rightarrow> int option \<Rightarrow> string \<times> string \<times> int" where
  "main_flags addr sshAddr jwtTTL =
     (case addr of None \<Rightarrow> '':8080'' | Some a \<Rightarrow> a,
      case sshAddr of None \<Rightarrow> ''localhost:22'' | Some a \<Rightarrow> a,
      case jwtTTL of None \<Rightarrow> 24 * 3600 * second | Some t \<Rightarrow> t)"

text \<open>\<open>main\<close>: it exits before listening without a secret or without the frontend's files;
  otherwise the server listens at the address, from the state \<open>w\<close>, until that fails.\<close>

datatype main_end = MainExit nat | MainListens string server

definition server_main ::
  "string \<Rightarrow> string \<times> string \<times> int \<Rightarrow> string \<Rightarrow> bytes option \<Rightarrow> (string \<Rightarrow> bool) option \<Rightarrow> world \<Rightarrow> main_end" where
  "server_main version flags secret random sub w =
     (case flags of
        (addr, sshAddr, jwtTTL) \<Rightarrow>
          (case main_config version addr sshAddr jwtTTL secret random of
             None \<Rightarrow> MainExit 1
           | Some cfg \<Rightarrow>
               (case sub of
                  None \<Rightarrow> MainExit 1
                | Some opens \<Rightarrow> MainListens (cf_addr cfg) (SetAssets opens (server_New cfg w)))))"

section \<open>Clean paths\<close>

lemma abs_path_not_Nil [simp]: "abs_path es \<noteq> []"
  by (simp add: abs_path_def)

lemma abs_path_suffix: "list_all plain_name es \<Longrightarrow> has_suffix (abs_path es) ''/'' \<longleftrightarrow> es = []"
proof (cases es rule: rev_cases)
  case (snoc xs x)
  assume "list_all plain_name es"
  then have "x \<noteq> []" "CHR ''/'' \<notin> set x" using snoc by (simp_all add: plain_name_def)
  then have "last x \<noteq> CHR ''/''" using last_in_set by metis
  then have "last (abs_path es) \<noteq> CHR ''/''"
    using \<open>x \<noteq> []\<close> by (cases "xs = []") (simp_all add: snoc abs_path_def join_snoc)
  then show ?thesis using snoc by (auto simp: has_suffix_iff)
qed (simp add: abs_path_def has_suffix_def)

lemma clean_elems_snoc_Nil: "clean_elems r acc (ws @ [[]]) = clean_elems r acc ws"
  by (induction r acc ws rule: clean_elems.induct) (auto split: list.splits)

lemma abs_path_slash:
  assumes "list_all plain_name es"
  shows "path_clean (abs_path es @ ''/'') = abs_path es"
proof (cases "es = []")
  case False
  have "is_rooted (abs_path es @ ''/'')" by (simp add: is_rooted_def abs_path_def has_prefix_def)
  then have "path_clean (abs_path es @ ''/'') = abs_path (clean_elems True [] ([] # es @ [[]]))"
    using False assms by (simp add: path_clean_rooted split_on_snoc_sep split_abs_path)
  then show ?thesis using clean_elems_snoc_Nil[of True "[]" "[] # es"] clean_elems_plain[OF assms] by simp
qed (simp add: path_clean_def is_rooted_def has_prefix_def abs_path_def)

lemma clean_path_abs:
  assumes "list_all plain_name es"
  shows "clean_path (abs_path es) = abs_path es"
    "es \<noteq> [] \<Longrightarrow> clean_path (abs_path es @ ''/'') = abs_path es @ ''/''"
proof -
  have h: "abs_path es \<noteq> []" "hd (abs_path es) = CHR ''/''" "hd (abs_path es @ ''/'') = CHR ''/''"
    by (simp_all add: abs_path_def)
  have r: "abs_path es = ''/'' \<longleftrightarrow> es = []"
    using abs_path_suffix[OF assms] by (cases "es = []") (auto simp: abs_path_def has_suffix_def)
  show "clean_path (abs_path es) = abs_path es"
    using h abs_path_suffix[OF assms] r by (simp add: clean_path_def path_clean_abs_path[OF assms])
  show "es \<noteq> [] \<Longrightarrow> clean_path (abs_path es @ ''/'') = abs_path es @ ''/''"
    using h r by (simp add: clean_path_def abs_path_slash[OF assms] has_suffix_iff)
qed

lemma clean_path_cases:
  obtains es where "list_all plain_name es" "clean_path p = abs_path es"
  | es where "list_all plain_name es" "es \<noteq> []" "clean_path p = abs_path es @ ''/''"
proof (cases "p = []")
  case True
  then show ?thesis using that(1)[of "[]"] by (simp add: clean_path_def abs_path_def)
next
  case False
  let ?p = "if hd p \<noteq> CHR ''/'' then CHR ''/'' # p else p"
  have "is_rooted ?p" using False by (cases p) (auto simp: is_rooted_def has_prefix_def)
  then obtain es where es: "list_all plain_name es" "path_clean ?p = abs_path es"
    by (rule path_clean_abs)
  have "clean_path p = (if has_suffix ?p ''/'' \<and> path_clean ?p \<noteq> ''/'' then path_clean ?p @ ''/'' else path_clean ?p)"
    using False by (simp add: clean_path_def Let_def)
  moreover have "abs_path [] = ''/''" by (simp add: abs_path_def)
  ultimately have "clean_path p = (if has_suffix ?p ''/'' \<and> es \<noteq> [] then abs_path es @ ''/'' else abs_path es)"
    using es abs_path_suffix[OF es(1)] by (cases "es = []") (auto simp: has_suffix_def)
  then show ?thesis using that es by (cases "has_suffix ?p ''/'' \<and> es \<noteq> []") simp_all
qed

lemma clean_path_twice [simp]: "clean_path (clean_path p) = clean_path p"
  by (cases p rule: clean_path_cases) (simp_all add: clean_path_abs)

section \<open>Matching\<close>

lemma clean_path_rooted: obtains q where "clean_path p = CHR ''/'' # q"
  by (cases p rule: clean_path_cases) (auto simp: abs_path_def)

text \<open>What the patterns match.\<close>

lemma parts_simps [simp]:
  "pattern_parts ''/auth'' = [''auth'']" "pattern_parts ''/ws'' = [''ws'']"
  "pattern_parts ''/health'' = [''health'']" "pattern_parts ''/validate'' = [''validate'']"
  "pattern_parts ''/_proxy/'' = [''_proxy'', []]" "pattern_parts ''/'' = [[]]"
  "has_suffix ''/auth'' ''/'' = False" "has_suffix ''/ws'' ''/'' = False"
  "has_suffix ''/health'' ''/'' = False" "has_suffix ''/validate'' ''/'' = False"
  "has_suffix ''/_proxy/'' ''/'' = True" "has_suffix ''/'' ''/'' = True"
  by (simp_all add: pattern_parts_def has_suffix_def)

lemma matches_proxy: "pattern_matches ''/_proxy/'' segs \<longleftrightarrow> 2 \<le> length segs \<and> segs ! 0 = ''_proxy''"
  by (cases segs) (auto simp: pattern_matches_def)

lemma match_routes:
  assumes "path \<noteq> []"
  shows "mux_match (handler_routes assets) path =
    (let segs = path_segments path
     in if segs = [''auth''] then Some (''/auth'', AuthEndpoint)
        else if segs = [''ws''] then Some (''/ws'', WsEndpoint)
        else if segs = [''health''] then Some (''/health'', HealthEndpoint)
        else if segs = [''validate''] then Some (''/validate'', ValidateEndpoint)
        else if 2 \<le> length segs \<and> segs ! 0 = ''_proxy'' then Some (''/_proxy/'', ProxyEndpoint)
        else if assets then Some (''/'', StaticEndpoint) else None)"
proof -
  have "path_segments path \<noteq> []" by (simp add: path_segments_def)
  then have "1 \<le> length (path_segments path)" by (simp add: Suc_le_eq)
  then show ?thesis
    using assms matches_proxy by (auto simp: mux_match_def handler_routes_def pattern_matches_def Let_def)
qed

lemma segments_slash: "path \<noteq> [] \<Longrightarrow> path_segments (path @ ''/'') = path_segments path @ [[]]"
  by (cases path) (simp_all add: path_segments_def split_on_snoc_sep path_segment_def)

lemma split_on_length: "length (split_on c s) = Suc (length (filter (\<lambda>x. x = c) s))"
proof (induction s)
  case (Cons x xs)
  then show ?case using split_on_neq_Nil[of c xs] by (auto split: list.split)
qed simp

lemma slashes_segments: "slashes (CHR ''/'' # q) = length (path_segments (CHR ''/'' # q))"
  by (simp add: slashes_def path_segments_def split_on_length)

text \<open>Only the name of the proxy alone is redirected to the path with a slash.\<close>

lemma exact_with_slash:
  assumes "path = CHR ''/'' # q"
  shows "mux_exact (mux_match (handler_routes assets) (path @ ''/'')) (path @ ''/'')
    \<longleftrightarrow> path_segments path = [''_proxy'']"
proof -
  let ?s = "path_segments path"
  have s: "path_segments (path @ ''/'') = ?s @ [[]]" "slashes (path @ ''/'') = Suc (length ?s)" "?s \<noteq> []"
    using segments_slash[of path] slashes_segments[of q] assms
    by (simp_all add: slashes_def path_segments_def)
  then have n: "?s = [''_proxy''] \<longleftrightarrow> length ?s = 1 \<and> (?s @ [[]]) ! 0 = ''_proxy''"
    by (cases ?s) auto
  have "\<And>t. ?s @ [[]] \<noteq> [t]" using s(3) by simp
  then show ?thesis
    using s n by (auto simp: match_routes mux_exact_def has_suffix_iff Let_def)
qed

text \<open>The outcome for every path that a client can send.\<close>

lemma handler_outcome:
  assumes "method \<noteq> ''CONNECT''"
  shows "mux_handler (handler_routes assets) method escaped =
    (if escaped = ''*'' then MuxBadRequest
     else if clean_path escaped \<noteq> escaped \<or> path_segments escaped = [''_proxy''] then MuxRedirect
     else case mux_match (handler_routes assets) escaped of None \<Rightarrow> MuxNotFound | Some (pat, e) \<Rightarrow> MuxServe e)"
proof (cases "clean_path escaped = escaped")
  case True
  obtain q where q: "escaped = CHR ''/'' # q" using True by (metis clean_path_rooted)
  have "\<not> has_suffix escaped ''/'' \<and> \<not> mux_exact (mux_match (handler_routes assets) escaped) escaped"
    if "path_segments escaped = [''_proxy'']"
  proof -
    have "\<not> has_suffix escaped ''/''"
    proof
      assume "has_suffix escaped ''/''"
      then obtain t where t: "escaped = t @ ''/''" by (auto simp: has_suffix_iff)
      then show False using that segments_slash[of t] by (cases t) (auto simp: path_segments_def path_segment_def)
    qed
    then show ?thesis using that q by (simp add: match_routes mux_exact_def Let_def)
  qed
  then show ?thesis
    using assms True exact_with_slash[OF q, of assets] q by (auto simp: mux_handler_def Let_def)
qed (use assms in \<open>auto simp: mux_handler_def Let_def\<close>)

lemma reorder_routes:
  fixes segs :: "string list"
  assumes "segs \<noteq> []"
  shows "(if segs = [''_proxy''] then R else if segs = [''auth''] then A else if segs = [''ws''] then W
      else if segs = [''health''] then H else if segs = [''validate''] then V
      else if 2 \<le> length segs \<and> segs ! 0 = ''_proxy'' then P else S)
    = (if segs = [''auth''] then A else if segs = [''ws''] then W
      else if segs = [''health''] then H else if segs = [''validate''] then V
      else if segs = [''_proxy''] then R else if segs ! 0 = ''_proxy'' then P else S)"
proof (cases "tl segs = []")
  case True
  then obtain s where "segs = [s]" using assms by (cases segs) auto
  then show ?thesis by simp
next
  case False
  then obtain s s' ss where "segs = s # s' # ss" using assms by (cases segs; cases "tl segs") auto
  then show ?thesis by simp
qed

lemma outcome_routes:
  assumes "method \<noteq> ''CONNECT''"
  shows "mux_handler (handler_routes assets) method escaped =
    (let segs = path_segments escaped
     in if escaped = ''*'' then MuxBadRequest
        else if escaped \<noteq> clean_path escaped then MuxRedirect
        else if segs = [''auth''] then MuxServe AuthEndpoint
        else if segs = [''ws''] then MuxServe WsEndpoint
        else if segs = [''health''] then MuxServe HealthEndpoint
        else if segs = [''validate''] then MuxServe ValidateEndpoint
        else if segs = [''_proxy''] then MuxRedirect
        else if segs ! 0 = ''_proxy'' then MuxServe ProxyEndpoint
        else if assets then MuxServe StaticEndpoint else MuxNotFound)"
proof (cases "clean_path escaped = escaped")
  case True
  obtain q where "clean_path escaped = CHR ''/'' # q" by (rule clean_path_rooted)
  then have ne: "escaped \<noteq> []" using True by simp
  define g where "g = case_option MuxNotFound (\<lambda>(pat :: string, e). MuxServe e)"
  have g: "g None = MuxNotFound" "\<And>pat e. g (Some (pat, e)) = MuxServe e" by (simp_all add: g_def)
  have n: "path_segments escaped \<noteq> []" by (simp add: path_segments_def)
  have "mux_handler (handler_routes assets) method escaped =
    (if escaped = ''*'' then MuxBadRequest
     else if path_segments escaped = [''_proxy''] then MuxRedirect
     else g (mux_match (handler_routes assets) escaped))"
    unfolding handler_outcome[OF assms] g_def using True by simp
  also have "\<dots> = (if escaped = ''*'' then MuxBadRequest
     else if path_segments escaped = [''_proxy''] then MuxRedirect
     else if path_segments escaped = [''auth''] then MuxServe AuthEndpoint
     else if path_segments escaped = [''ws''] then MuxServe WsEndpoint
     else if path_segments escaped = [''health''] then MuxServe HealthEndpoint
     else if path_segments escaped = [''validate''] then MuxServe ValidateEndpoint
     else if 2 \<le> length (path_segments escaped) \<and> path_segments escaped ! 0 = ''_proxy'' then MuxServe ProxyEndpoint
     else if assets then MuxServe StaticEndpoint else MuxNotFound)"
    unfolding match_routes[OF ne] Let_def if_distrib[of g] g by (rule refl)
  finally show ?thesis
    unfolding reorder_routes[OF n] Let_def by (simp only: True simp_thms if_False)
qed (simp add: handler_outcome[OF assms] Let_def)

section \<open>Properties\<close>

text \<open>C30. What the server answers to a request of any method but CONNECT, by its encoded path. A path
  that is not in clean form is redirected, and the clean form is its own clean form. Of the
  clean paths, the four one-segment names, written plainly or with escapes, reach the login, the
  WebSocket, the health and the token endpoints; the name of the proxy alone is redirected, and
  everything below it goes to the HTTP proxy; everything else gets the frontend's file at the
  path, or the start page if there is none. Only the WebSocket endpoint can change the state.\<close>

theorem server_routes:
  assumes "rq_method r \<noteq> ''CONNECT''"
  shows "clean_path (clean_path (re_escaped env)) = clean_path (re_escaped env)
    \<and> server_serve env srv r =
       (let segs = path_segments (re_escaped env)
        in if re_escaped env = ''*'' then (BadRequest, srv)
           else if re_escaped env \<noteq> clean_path (re_escaped env) then (Redirected, srv)
           else if segs = [''auth''] then
             (Reply (withCORS (handleAuth (re_jwt env) (srv_auth srv) (re_ssh env) (re_now env)) r), srv)
           else if segs = [''ws''] then withCORS_ws (Server_Http.handleWS env srv) srv r
           else if segs = [''health''] then (Reply (health_endpoint (cf_version (srv_cfg srv))), srv)
           else if segs = [''validate''] then
             (Reply (validate_endpoint (re_jwt env) (srv_auth srv) (re_now env) r), srv)
           else if segs = [''_proxy''] then (Redirected, srv)
           else if segs ! 0 = ''_proxy'' then
             (Proxied (handleHTTPProxy (re_jwt env) (srv_auth srv) (re_now env) (re_socket env) r
                (re_rawPath env) (re_rawQuery env)), srv)
           else case srv_assets srv of
                  None \<Rightarrow> (NotFound, srv)
                | Some opens \<Rightarrow> (StaticFile (if opens (rq_path r) then rq_path r else ''/''), srv))"
proof -
  define f where "f = case_mux_outcome (serve_endpoint env srv r) (Redirected, srv) (NotFound, srv) (BadRequest, srv)"
  have s: "server_serve env srv r = f (mux_handler (handler_routes (srv_assets srv \<noteq> None)) (rq_method r) (re_escaped env))"
    by (simp add: server_serve_def f_def)
  have f: "f MuxBadRequest = (BadRequest, srv)" "f MuxRedirect = (Redirected, srv)" "f MuxNotFound = (NotFound, srv)"
    "\<And>e. f (MuxServe e) = serve_endpoint env srv r e" by (simp_all add: f_def)
  have st: "(if srv_assets srv \<noteq> None then serve_endpoint env srv r StaticEndpoint else (NotFound, srv))
      = (case srv_assets srv of None \<Rightarrow> (NotFound, srv)
         | Some opens \<Rightarrow> (StaticFile (if opens (rq_path r) then rq_path r else ''/''), srv))"
    by (cases "srv_assets srv") (simp_all add: serve_endpoint_def spaHandler_def)
  show ?thesis
    unfolding s outcome_routes[OF assms] Let_def if_distrib[of f] f st clean_path_twice
    by (simp only: serve_endpoint_def endpoint.case simp_thms)
qed

text \<open>C2. What a request can reach without a token: pages, redirects and answers. The state changes
  only when a WebSocket joins, for a token that is accepted, and then by a connection of exactly
  that token's user; the HTTP proxy passes a request on only with an accepted token in its cookie.\<close>

theorem server_guarded:
  assumes "jwt_ok (re_jwt env)" and "server_serve env srv r = (out, srv')"
  shows "(srv' = srv \<and> (\<forall>u. out \<noteq> Joined u) \<and> (\<forall>act. out = Proxied act \<longrightarrow> (\<exists>resp. act = Answer resp)))
    \<or> (\<exists>u. out = Joined u \<and> rq_method r \<noteq> ''OPTIONS''
        \<and> token_accepted (re_jwt env) (srv_auth srv) (re_now env) (ws_token r) u
        \<and> srv' = srv\<lparr>srv_world := ws_connect (re_ctl env) u (srv_world srv)\<rparr>)
    \<or> (\<exists>act s v. out = Proxied act \<and> srv' = srv \<and> map_of (rq_cookies r) ''wdd_token'' = Some s
        \<and> token_accepted (re_jwt env) (srv_auth srv) (re_now env) s v)"
proof (cases "mux_handler (handler_routes (srv_assets srv \<noteq> None)) (rq_method r) (re_escaped env)")
  case (MuxServe e)
  let ?lib = "re_jwt env" and ?a = "srv_auth srv" and ?now = "re_now env"
  note g = guards_need_token[OF assms(1), of ?a ?now r]
  have s: "serve_endpoint env srv r e = (out, srv')" using assms(2) MuxServe by (simp add: server_serve_def)
  show ?thesis
  proof (cases e)
    case WsEndpoint
    show ?thesis
    proof (cases "rq_method r = ''OPTIONS''")
      case False
      then show ?thesis
        using s WsEndpoint g
        by (auto simp: serve_endpoint_def withCORS_ws_def handleWS_def split: sum.splits http_resp.splits if_splits)
    qed (use s WsEndpoint in \<open>auto simp: serve_endpoint_def withCORS_ws_def\<close>)
  next
    case ProxyEndpoint
    then have "srv' = srv" "out = Proxied (handleHTTPProxy ?lib ?a ?now (re_socket env) r (re_rawPath env) (re_rawQuery env))"
      using s by (auto simp: serve_endpoint_def)
    then show ?thesis
      using g by (cases "proxy_route ?lib ?a ?now r") (auto simp: handleHTTPProxy_def)
  qed (use s in \<open>auto simp: serve_endpoint_def split: option.splits\<close>)
qed (use assms(2) in \<open>simp_all add: server_serve_def\<close>)

section \<open>Witnesses\<close>

definition demo_request :: "unit request_env" where
  "demo_request = \<lparr>re_escaped = ''/ws'', re_rawPath = [], re_rawQuery = [], re_jwt = demo_jwt,
     re_ssh = demo_ssh, re_now = 0,
     re_socket = \<lparr>se_dial = None, se_write = True, se_hijacker = True, se_hijack = True\<rparr>,
     re_upgrade = True, re_ctl = demo_ctl\<rparr>"

definition demo_server :: server where
  "demo_server = SetAssets (\<lambda>_. True)
     (server_New \<lparr>cf_addr = [], cf_jwtSecret = [1], cf_sshAddr = [], cf_jwtTTL = 0, cf_version = ''dev''\<rparr>
        (world_init demo_fs None None))"

theorem server_routes_witness:
  "server_serve (demo_request\<lparr>re_escaped := ''/he%61lth''\<rparr>) demo_server demo_login
     = (Reply (health_endpoint ''dev''), demo_server)
   \<and> server_serve (demo_request\<lparr>re_escaped := ''/x/../_proxy''\<rparr>) demo_server demo_login = (Redirected, demo_server)
   \<and> server_serve (demo_request\<lparr>re_escaped := ''/app.js''\<rparr>) demo_server (demo_login\<lparr>rq_path := ''/app.js''\<rparr>)
     = (StaticFile ''/app.js'', demo_server)"
proof -
  have "clean_path ''/he%61lth'' = ''/he%61lth''" "path_segments ''/he%61lth'' = [''health'']"
    "clean_path ''/x/../_proxy'' \<noteq> ''/x/../_proxy''"
    "clean_path ''/app.js'' = ''/app.js''" "path_segments ''/app.js'' = [''app.js'']"
    by code_simp+
  then show ?thesis
    using server_routes[of demo_login "demo_request\<lparr>re_escaped := ''/he%61lth''\<rparr>" demo_server]
      server_routes[of demo_login "demo_request\<lparr>re_escaped := ''/x/../_proxy''\<rparr>" demo_server]
      server_routes[of "demo_login\<lparr>rq_path := ''/app.js''\<rparr>" "demo_request\<lparr>re_escaped := ''/app.js''\<rparr>" demo_server]
    by (simp add: demo_request_def demo_server_def SetAssets_def server_New_def demo_login_def)
qed

theorem server_guarded_witness:
  "\<exists>srv. server_serve demo_request demo_server (demo_login\<lparr>rq_path := ''/ws''\<rparr>) = (Joined ''a'', srv)
     \<and> srv_world srv = ws_connect demo_ctl ''a'' (srv_world demo_server)
     \<and> token_accepted demo_jwt (srv_auth demo_server) 0 ''x.y.z'' ''a''"
proof -
  let ?r = "demo_login\<lparr>rq_path := ''/ws''\<rparr>"
  have m: "mux_handler (handler_routes True) ''POST'' ''/ws'' = MuxServe WsEndpoint" by code_simp
  have t: "ws_token ?r = ''x.y.z''" by (simp add: ws_token_def query_get_def demo_login_def)
  have a: "srv_auth demo_server = demo_auth"
    by (simp add: demo_server_def SetAssets_def server_New_def server_auth_def demo_auth_def auth_new_def)
  have "ws_guard demo_jwt demo_auth 0 ?r = Inr ''a''"
    unfolding ws_guard_def t
    by (simp add: ValidateToken_def demo_jwt_def demo_auth_def auth_new_def key_func_def demo_claims_def
        DefaultJWTTTL_def second_def)
  then have "fst (server_serve demo_request demo_server ?r) = Joined ''a''"
    using m a by (simp add: server_serve_def serve_endpoint_def withCORS_ws_def handleWS_def demo_request_def
        demo_login_def demo_server_def SetAssets_def)
  then obtain srv where s: "server_serve demo_request demo_server ?r = (Joined ''a'', srv)"
    by (cases "server_serve demo_request demo_server ?r") simp
  have "jwt_ok (re_jwt demo_request)" using demo_jwt_ok by (simp add: demo_request_def)
  then show ?thesis using server_guarded[OF _ s] s t by (auto simp: demo_request_def)
qed

end
