(* ===== verification/Tunnel.thy ===== *)
theory Tunnel
  imports Relay Go_Text
begin

text \<open>
  \<open>cmd/tunnel/main.go\<close>: connections accepted on a local port are relayed to one port of the remote
  machine through an SSH connection. The flags and what the network answers are arguments.
\<close>

record tunnel_flags =
  tf_host :: string
  tf_port :: string
  tf_localPort :: string
  tf_remotePort :: string

text \<open>\<open>forward\<close>: the relay that starts, or none when the remote port cannot be reached; the local
  connection is then closed at once.\<close>

definition forward :: "(string \<Rightarrow> bool) \<Rightarrow> string \<Rightarrow> relay option" where
  "forward dial remoteAddr = (if dial remoteAddr then Some relay_new else None)"

datatype tunnel_end = SSHDialFailed | ListenFailed string | AcceptFailed

text \<open>The accept loop over what \<open>Accept\<close> returns: \<open>True\<close> for a connection. \<open>None\<close>: still waiting.\<close>

fun accept_loop :: "(nat \<Rightarrow> string \<Rightarrow> bool) \<Rightarrow> string \<Rightarrow> nat \<Rightarrow> bool list \<Rightarrow> relay option list \<times> tunnel_end option" where
  "accept_loop dial remoteAddr n [] = ([], None)"
| "accept_loop dial remoteAddr n (ok # rest) =
     (if \<not> ok then ([], Some AcceptFailed)
      else case accept_loop dial remoteAddr (n + 1) rest of
             (rs, e) \<Rightarrow> (forward (dial n) remoteAddr # rs, e))"

text \<open>\<open>main\<close>: the addresses it dials and listens on, and what becomes of every connection. \<open>dial n\<close>
  tells whether the remote port answers the \<open>n\<close>th connection.\<close>

definition tunnel_main ::
  "tunnel_flags \<Rightarrow> (string \<Rightarrow> bool) \<Rightarrow> (string \<Rightarrow> bool) \<Rightarrow> (nat \<Rightarrow> string \<Rightarrow> bool) \<Rightarrow> bool list
     \<Rightarrow> relay option list \<times> tunnel_end option" where
  "tunnel_main tf sshDial listen dial accepts =
     (let sshAddr = tf_host tf @ '':'' @ tf_port tf; localAddr = ''127.0.0.1:'' @ tf_localPort tf
      in if \<not> sshDial sshAddr then ([], Some SSHDialFailed)
         else if \<not> listen localAddr then ([], Some (ListenFailed localAddr))
         else accept_loop dial (''127.0.0.1:'' @ tf_remotePort tf) 0 accepts)"

text \<open>One unreachable remote port does not end the tunnel: as many connections are served as were
  accepted before the first failing \<open>Accept\<close>, each on its own.\<close>

lemma accept_loop_served:
  "fst (accept_loop dial a n accepts) =
     map (\<lambda>i. forward (dial (n + i)) a) [0..<length (takeWhile id accepts)]"
proof (induction accepts arbitrary: n)
  case (Cons ok rest)
  show ?case
    using Cons[of "Suc n"]
    by (auto simp: upt_conv_Cons map_Suc_upt [symmetric] comp_def split: prod.split simp del: upt_Suc)
qed simp

end
