(* ===== verification/Deploy.thy ===== *)
theory Deploy
  imports Go_Case File_System
begin

text \<open>
  \<open>cmd/deploy/main.go\<close>: the tool that builds the server, uploads it over SSH and starts it with a
  JWT secret that it keeps on the remote machine. The remote machine is an argument: what it
  answers to a command may depend on all commands before. The commands sent are part of the
  result, so that their order can be stated. A fatal log entry ends the tool.
\<close>

section \<open>Quoting and parsing\<close>

text \<open>\<open>strings.ReplaceAll(s, c, w)\<close> for a one-byte pattern.\<close>

definition replace_char :: "char \<Rightarrow> string \<Rightarrow> string \<Rightarrow> string" where
  "replace_char c w s = concat (map (\<lambda>x. if x = c then w else [x]) s)"

definition squote :: char where "squote = CHR 0x27"
definition dquote :: char where "dquote = CHR 0x22"

definition shellQuote :: "string \<Rightarrow> string" where
  "shellQuote s =
     [squote] @ replace_char squote [squote, dquote, squote, dquote, squote] s @ [squote]"

fun env_lines :: "string list \<Rightarrow> string" where
  "env_lines [] = []"
| "env_lines (line # lines) =
     (let line = trim_space line
      in if has_prefix line ''JWT_SECRET='' then trim_prefix line ''JWT_SECRET='' else env_lines lines)"

definition parseJWTSecretEnv :: "string \<Rightarrow> string" where
  "parseJWTSecretEnv content = env_lines (split_on CHR 0x0A content)"

definition hex_lower :: "nat \<Rightarrow> char" where
  "hex_lower d = ''0123456789abcdef'' ! d"

definition hex_encode :: "bytes \<Rightarrow> string" where
  "hex_encode bs = concat (map (\<lambda>b. [hex_lower (unat b div 16), hex_lower (unat b mod 16)]) bs)"

text \<open>\<open>None\<close> when the system gives no random bytes.\<close>

definition generateJWTSecret :: "bytes option \<Rightarrow> string option" where
  "generateJWTSecret rnd = map_option hex_encode rnd"

section \<open>The remote machine\<close>

datatype scp_err =
    ScpOpen | ScpStat | ScpSession | ScpPipe | ScpStart | ScpHeader | ScpCopy | ScpNull | ScpWait

text \<open>What happens to an upload: the steps that fail, and what the local file holds.\<close>

record scp_env =
  sp_file :: "bytes option"
  sp_stat :: "int option"          \<comment> \<open>\<open>info.Size()\<close>\<close>
  sp_session :: bool
  sp_pipe :: bool
  sp_start :: bool
  sp_header :: bool
  sp_copy :: bool
  sp_null :: bool
  sp_wait :: bool

record remote =
  rm_dial :: bool
  rm_answer :: "string list \<Rightarrow> string \<Rightarrow> (string \<times> bool) option"
      \<comment> \<open>output and success of a command after the given ones; \<open>None\<close>: no session\<close>
  rm_scp :: "string list \<Rightarrow> scp_env"

datatype fatal =
    PassRequired | DialFailed | NoSession | CommandFailed string | UnknownArch string
  | NoRandom | PersistFailed | BuildFailed | UploadFailed scp_err

text \<open>A step takes the commands sent so far and gives those sent after it.\<close>

definition runRemote :: "remote \<Rightarrow> string \<Rightarrow> string list \<Rightarrow> string list \<times> (fatal + string)" where
  "runRemote rm cmd sent =
     (case rm_answer rm sent cmd of
        None \<Rightarrow> (sent, Inl NoSession)
      | Some (out, success) \<Rightarrow>
          (sent @ [cmd], if success then Inr out else Inl (CommandFailed cmd)))"

definition runRemoteIgnoreErr :: "remote \<Rightarrow> string \<Rightarrow> string list \<Rightarrow> string list \<times> string" where
  "runRemoteIgnoreErr rm cmd sent =
     (case rm_answer rm sent cmd of
        None \<Rightarrow> (sent, [])
      | Some (out, _) \<Rightarrow> (sent @ [cmd], out))"

text \<open>The output, and whether there was an error.\<close>

definition runRemoteOutput :: "remote \<Rightarrow> string \<Rightarrow> string list \<Rightarrow> string list \<times> string \<times> bool" where
  "runRemoteOutput rm cmd sent =
     (case rm_answer rm sent cmd of
        None \<Rightarrow> (sent, [], True)
      | Some (out, success) \<Rightarrow> (sent @ [cmd], out, \<not> success))"

definition read_script :: "string \<Rightarrow> string" where
  "read_script envPath = ''cat '' @ shellQuote envPath @ '' 2>/dev/null || true''"

definition readRemoteJWTSecret :: "remote \<Rightarrow> string \<Rightarrow> string list \<Rightarrow> string list \<times> string" where
  "readRemoteJWTSecret rm envPath sent =
     (case runRemoteIgnoreErr rm (read_script envPath) sent of
        (sent, out) \<Rightarrow> (sent, parseJWTSecretEnv (trim_space out)))"

definition write_script :: "string \<Rightarrow> string \<Rightarrow> string" where
  "write_script envPath jwtSecret =
     ''umask 077; mkdir -p '' @ shellQuote (path_dir envPath)
       @ ''; printf '' @ [squote] @ ''JWT_SECRET=%s'' @ [CHR 0x5C, CHR ''n'', squote] @ '' ''
       @ shellQuote jwtSecret @ '' > '' @ shellQuote envPath @ ''; chmod 600 '' @ shellQuote envPath"

definition writeRemoteJWTSecret :: "remote \<Rightarrow> string \<Rightarrow> string \<Rightarrow> string list \<Rightarrow> string list \<times> bool" where
  "writeRemoteJWTSecret rm envPath jwtSecret sent =
     (case runRemoteOutput rm (write_script envPath jwtSecret) sent of
        (sent, _, err) \<Rightarrow> (sent, err))"

section \<open>The upload\<close>

definition scp_header :: "int \<Rightarrow> bytes" where
  "scp_header n =
     bytes_of_string (''C0755 '' @ (if n < 0 then ''-'' @ dec_of_nat (nat (- n)) else dec_of_nat (nat n))
       @ '' webdesktopd'' @ [CHR 0x0A])"

text \<open>What is written to the standard input of the remote \<open>scp -t\<close>, and the error. A write that
  fails is taken to have written nothing.\<close>

definition scpUpload :: "scp_env \<Rightarrow> bytes \<times> scp_err option" where
  "scpUpload e =
     (case sp_file e of
        None \<Rightarrow> ([], Some ScpOpen)
      | Some data \<Rightarrow>
          (case sp_stat e of
             None \<Rightarrow> ([], Some ScpStat)
           | Some n \<Rightarrow>
               let w1 = scp_header n; w2 = w1 @ data; w3 = w2 @ [0]
               in if \<not> sp_session e then ([], Some ScpSession)
                  else if \<not> sp_pipe e then ([], Some ScpPipe)
                  else if \<not> sp_start e then ([], Some ScpStart)
                  else if \<not> sp_header e then ([], Some ScpHeader)
                  else if \<not> sp_copy e then (w1, Some ScpCopy)
                  else if \<not> sp_null e then (w2, Some ScpNull)
                  else if \<not> sp_wait e then (w3, Some ScpWait)
                  else (w3, None)))"

section \<open>The tool\<close>

record deploy_flags =
  df_pass :: string
  df_remotePort :: string

text \<open>What the local machine does: random bytes, and whether the build succeeds for an operating
  system and an architecture.\<close>

record local_env =
  le_random :: "bytes option"
  le_build :: "string \<Rightarrow> string \<Rightarrow> bool"
  le_lower :: "nat \<Rightarrow> nat"

definition archMap :: "string \<rightharpoonup> string" where
  "archMap = [''x86_64'' \<mapsto> ''amd64'', ''aarch64'' \<mapsto> ''arm64'', ''armv7l'' \<mapsto> ''arm'']"

definition secretPath :: string where "secretPath = ''~/.config/webdesktopd/env''"

definition remotePath :: string where "remotePath = ''/tmp/webdesktopd''"

definition start_script :: "string \<Rightarrow> string \<Rightarrow> string" where
  "start_script jwtSecret port =
     ''nohup env JWT_SECRET='' @ shellQuote jwtSecret @ '' '' @ remotePath @ '' -addr :'' @ port
       @ '' -ssh-addr 127.0.0.1:22 > /tmp/webdesktopd.log 2>&1 & echo $!''"

definition health_script :: "string \<Rightarrow> string" where
  "health_script port =
     ''curl -s http://127.0.0.1:'' @ port @ ''/health 2>/dev/null || echo ''
       @ [squote] @ ''not ready'' @ [squote]"

text \<open>Lines 69 to 83: the secret of the server.\<close>

definition obtain_secret :: "remote \<Rightarrow> local_env \<Rightarrow> string list \<Rightarrow> string list \<times> (fatal + string)" where
  "obtain_secret rm le sent =
     (case readRemoteJWTSecret rm secretPath sent of
        (sent, jwtSecret) \<Rightarrow>
          if jwtSecret = [] then
            (case generateJWTSecret (le_random le) of
               None \<Rightarrow> (sent, Inl NoRandom)
             | Some jwtSecret \<Rightarrow>
                 (case writeRemoteJWTSecret rm secretPath jwtSecret sent of
                    (sent, err) \<Rightarrow> (sent, if err then Inl PersistFailed else Inr jwtSecret)))
          else (sent, Inr jwtSecret))"

text \<open>One step after another; a fatal step is the last one.\<close>

definition and_then ::
  "string list \<times> (fatal + 'a) \<Rightarrow> ('a \<Rightarrow> string list \<Rightarrow> string list \<times> (fatal + 'b))
     \<Rightarrow> string list \<times> (fatal + 'b)" where
  "and_then r k = (case r of (sent, Inl e) \<Rightarrow> (sent, Inl e) | (sent, Inr x) \<Rightarrow> k x sent)"

text \<open>Lines 104 to 124: the server is started; the PID it prints and the health answer.\<close>

definition start_server ::
  "remote \<Rightarrow> deploy_flags \<Rightarrow> string \<Rightarrow> string list \<Rightarrow> string list \<times> (fatal + string \<times> string)" where
  "start_server rm df jwtSecret sent =
     and_then (runRemote rm (''chmod +x '' @ remotePath) sent) (\<lambda>_ sent.
     and_then (runRemote rm (start_script jwtSecret (df_remotePort df)) sent) (\<lambda>pid sent.
       case runRemoteIgnoreErr rm ''cat /tmp/webdesktopd.log'' sent of
         (sent, _) \<Rightarrow>
           (case runRemoteIgnoreErr rm (health_script (df_remotePort df)) sent of
              (sent, health) \<Rightarrow> (sent, Inr (trim_space pid, trim_space health)))))"

text \<open>\<open>main\<close> after the flags.\<close>

definition deploy_main ::
  "remote \<Rightarrow> local_env \<Rightarrow> deploy_flags \<Rightarrow> string list \<times> (fatal + string \<times> string)" where
  "deploy_main rm le df =
     (if df_pass df = [] then ([], Inl PassRequired)
      else if \<not> rm_dial rm then ([], Inl DialFailed)
      else
        and_then (runRemote rm ''uname -m'' []) (\<lambda>out sent.
          case archMap (trim_space out) of
            None \<Rightarrow> (sent, Inl (UnknownArch (trim_space out)))
          | Some targetArch \<Rightarrow>
              and_then (runRemote rm ''uname -s'' sent) (\<lambda>os sent.
              and_then (obtain_secret rm le (fst (runRemoteIgnoreErr rm ''pkill -f webdesktopd || true'' sent)))
                (\<lambda>jwtSecret sent.
                   if \<not> le_build le (to_lower (le_lower le) (trim_space os)) targetArch
                   then (sent, Inl BuildFailed)
                   else
                     (case scpUpload (rm_scp rm sent) of
                        (_, Some e) \<Rightarrow> (sent, Inl (UploadFailed e))
                      | (_, None) \<Rightarrow> start_server rm df jwtSecret sent)))))"

section \<open>How a shell reads a command\<close>

text \<open>
  The quoting rules of the POSIX shell (XCU 2.2, 2.3 and 2.6.1) as far as the scripts need
  them: single and double quotes, blanks, operators and the expansion of a leading tilde. A
  character with another meaning makes the reader give up. Operators are read one character at
  a time.
\<close>

datatype sh_mode = Bare | Single | Double

datatype sh_token = Word string | Op char

definition sh_blank :: "char \<Rightarrow> bool" where
  "sh_blank c \<longleftrightarrow> c = CHR '' '' \<or> c = CHR 0x09"

definition sh_operator :: "char \<Rightarrow> bool" where
  "sh_operator c \<longleftrightarrow> c \<in> {CHR '';'', CHR ''&'', CHR ''|'', CHR ''<'', CHR ''>'', CHR ''('', CHR '')'', CHR 0x0A}"

definition sh_active :: "char \<Rightarrow> bool" where
  "sh_active c \<longleftrightarrow> c \<in> {CHR ''$'', CHR 0x60, CHR 0x5C}"

text \<open>The rest of a word whose beginning is \<open>acc\<close>, and what follows it.\<close>

fun sh_word :: "sh_mode \<Rightarrow> string \<Rightarrow> string \<Rightarrow> (string \<times> string) option" where
  "sh_word Bare acc [] = Some (acc, [])"
| "sh_word Bare acc (c # cs) =
     (if c = squote then sh_word Single acc cs
      else if c = dquote then sh_word Double acc cs
      else if sh_blank c \<or> sh_operator c then Some (acc, c # cs)
      else if sh_active c \<or> c \<in> {CHR ''*'', CHR ''?'', CHR ''[''} then None
      else sh_word Bare (acc @ [c]) cs)"
| "sh_word Single acc [] = None"
| "sh_word Single acc (c # cs) =
     (if c = squote then sh_word Bare acc cs else sh_word Single (acc @ [c]) cs)"
| "sh_word Double acc [] = None"
| "sh_word Double acc (c # cs) =
     (if c = dquote then sh_word Bare acc cs
      else if sh_active c then None else sh_word Double (acc @ [c]) cs)"

text \<open>A word from its first character; \<open>home\<close> is the user's home directory.\<close>

definition sh_begin :: "string \<Rightarrow> string \<Rightarrow> (string \<times> string) option" where
  "sh_begin home s =
     (if has_prefix s ''#'' then None
      else if has_prefix s ''~'' then (if has_prefix (tl s) ''/'' then sh_word Bare home (tl s) else None)
      else sh_word Bare [] s)"

fun sh_tokens :: "string \<Rightarrow> string \<Rightarrow> sh_token list option" where
  "sh_tokens home [] = Some []"
| "sh_tokens home (c # cs) =
     (if sh_blank c then sh_tokens home cs
      else if sh_operator c then map_option (Cons (Op c)) (sh_tokens home cs)
      else
        (case sh_begin home (c # cs) of
           None \<Rightarrow> None
         | Some (w, rest) \<Rightarrow>
             if length rest < length (c # cs) then map_option (Cons (Word w)) (sh_tokens home rest)
             else None))"

lemmas sh_char_simps = squote_def dquote_def sh_blank_def sh_operator_def sh_active_def has_prefix_def sh_begin_def

lemma sh_word_quoted:
  "sh_word Single acc (replace_char squote [squote, dquote, squote, dquote, squote] s @ squote # rest)
     = sh_word Bare (acc @ s) rest"
  by (induction s arbitrary: acc) (simp_all add: replace_char_def squote_def dquote_def sh_active_def)

text \<open>Quoted text is added to the word verbatim.\<close>

lemma sh_word_shellQuote: "sh_word Bare acc (shellQuote s @ rest) = sh_word Bare (acc @ s) rest"
  by (simp add: shellQuote_def sh_word_quoted)

lemma sh_word_ends:
  "rest = [] \<or> sh_blank (hd rest) \<or> sh_operator (hd rest) \<Longrightarrow> sh_word Bare acc rest = Some (acc, rest)"
  by (cases rest) (auto simp: sh_char_simps)

lemma sh_tokens_quoted:
  assumes "rest = [] \<or> sh_blank (hd rest) \<or> sh_operator (hd rest)"
  shows "sh_tokens home (shellQuote s @ rest) = map_option (Cons (Word s)) (sh_tokens home rest)"
proof -
  obtain q where q: "shellQuote s = squote # q" by (simp add: shellQuote_def)
  have "sh_begin home (squote # q @ rest) = sh_word Bare [] (shellQuote s @ rest)"
    by (simp add: q sh_begin_def has_prefix_def squote_def)
  also have "\<dots> = Some (s, rest)"
    by (simp only: sh_word_shellQuote sh_word_ends[OF assms] append.left_neutral)
  finally have b: "sh_begin home (squote # q @ rest) = Some (s, rest)" .
  have c: "\<not> sh_blank squote" "\<not> sh_operator squote" by (simp_all add: sh_char_simps)
  have "sh_tokens home (squote # q @ rest) = map_option (Cons (Word s)) (sh_tokens home rest)"
    by (simp add: b c)
  then show ?thesis by (simp add: q)
qed

definition sh_plain :: "char \<Rightarrow> bool" where
  "sh_plain c \<longleftrightarrow> \<not> sh_blank c \<and> \<not> sh_operator c \<and> \<not> sh_active c
     \<and> c \<notin> {squote, dquote, CHR ''*'', CHR ''?'', CHR ''[''}"

lemma sh_word_plain: "list_all sh_plain w \<Longrightarrow> sh_word Bare acc (w @ rest) = sh_word Bare (acc @ w) rest"
  by (induction w arbitrary: acc) (simp_all add: sh_plain_def)

lemma secret_dir: "path_dir secretPath = ''~/.config/webdesktopd''"
  by code_simp

section \<open>Trimming\<close>

lemma match_len_other:
  "c \<notin> last ` set space_encodings \<Longrightarrow> match_len (map rev space_encodings) (c # cs) = 0"
  by (simp add: space_encodings_def has_prefix_def)

lemma trim_with_keep: "match_len ps (c # cs) = 0 \<Longrightarrow> trim_with ps (c # cs) = c # cs"
  by simp

text \<open>Text between two visible ASCII characters loses only a line end after it.\<close>

definition solid :: "char \<Rightarrow> bool" where
  "solid c \<longleftrightarrow> plain_char c \<and> c \<notin> last ` set space_encodings"

lemma trim_space_solid:
  assumes "w \<noteq> []" "solid (hd w)" "solid (last w)"
  shows "trim_space w = w" "trim_space (w @ [CHR 0x0A]) = w"
proof -
  obtain c cs where w: "w = c # cs" using assms(1) by (cases w) auto
  obtain d ds where r: "rev w = d # ds" using assms(1) by (cases "rev w") auto
  have d: "d = last w" using r assms(1) by (metis last_rev list.sel(1) rev_rev_ident hd_rev)
  have l: "trim_with space_encodings (w @ s) = w @ s" for s
    using assms(2) match_len_plain[of c] by (simp add: w solid_def)
  have e: "trim_with (map rev space_encodings) (rev w) = rev w"
    using assms(3) match_len_other[of d] by (simp add: r d solid_def del: map_map)
  have n: "trim_with (map rev space_encodings) (CHR 0x0A # rev w) = rev w"
    using e by (simp add: space_encodings_def has_prefix_def)
  show "trim_space w = w" using l[of "[]"] e by (simp add: trim_space_def)
  show "trim_space (w @ [CHR 0x0A]) = w" using l[of "[CHR 0x0A]"] n by (simp add: trim_space_def)
qed

lemma hex_lower_solid:
  assumes "d < 16"
  shows "solid (hex_lower d)" "hex_lower d \<noteq> CHR 0x0A"
proof -
  have "d \<in> {0, 1, 2, 3, 4, 5, 6, 7, 8, 9, 10, 11, 12, 13, 14, 15}"
    using assms by (auto simp: numeral_eq_Suc less_Suc_eq)
  then show "solid (hex_lower d)" "hex_lower d \<noteq> CHR 0x0A"
    by (auto simp: hex_lower_def solid_def plain_char_def space_encodings_def)
qed

lemma hex_encode_solid:
  assumes "c \<in> set (hex_encode bs)"
  shows "solid c" "c \<noteq> CHR 0x0A"
proof -
  have "unat b div 16 < 16" for b :: byte
  proof -
    have "unat b < 2 ^ LENGTH(8)" by (rule unsigned_less)
    then show ?thesis by (simp add: less_mult_imp_div_less)
  qed
  then show "solid c" "c \<noteq> CHR 0x0A"
    using assms by (auto simp: hex_encode_def hex_lower_solid hex_lower_solid(2)[symmetric])
qed

lemma length_hex_encode: "length (hex_encode bs) = 2 * length bs"
  by (induction bs) (simp_all add: hex_encode_def)

lemma hex_encode_Nil_iff: "hex_encode bs = [] \<longleftrightarrow> bs = []"
  using length_hex_encode[of bs] by auto

text \<open>The line that the write script leaves in the file.\<close>

lemma read_secret_line:
  assumes "bs \<noteq> []"
  shows "parseJWTSecretEnv (trim_space (''JWT_SECRET='' @ hex_encode bs @ [CHR 0x0A])) = hex_encode bs"
proof -
  let ?w = "''JWT_SECRET='' @ hex_encode bs"
  have ne: "hex_encode bs \<noteq> []" using assms by (simp add: hex_encode_Nil_iff)
  have "solid (hd ?w)" by (simp add: solid_def plain_char_def space_encodings_def)
  moreover have "solid (last ?w)"
    using ne hex_encode_solid(1)[OF last_in_set[OF ne]] by simp
  ultimately have t: "trim_space (''JWT_SECRET='' @ hex_encode bs @ [CHR 0x0A]) = ?w" "trim_space ?w = ?w"
    using trim_space_solid[of ?w] by simp_all
  have "CHR 0x0A \<notin> set ?w" using hex_encode_solid(2) by fastforce
  then have "split_on CHR 0x0A ?w = [?w]" by (rule split_on_no_sep)
  then show ?thesis
    unfolding t(1) parseJWTSecretEnv_def
    using t(2) by (simp add: has_prefix_def trim_prefix_def)
qed

section \<open>The steps of a deployment\<close>

lemma and_then_ok:
  assumes "and_then r k = (sent, Inr y)"
  obtains h x where "r = (h, Inr x)" "k x h = (sent, Inr y)"
  using assms by (auto simp: and_then_def split: prod.splits sum.splits)

lemma and_then_iff:
  "and_then r k = (sent, Inr y) \<longleftrightarrow> (\<exists>h x. r = (h, Inr x) \<and> k x h = (sent, Inr y))"
  by (auto simp: and_then_def split: prod.splits sum.splits)

lemma runRemote_ok:
  assumes "runRemote rm cmd h = (h', Inr out)"
  shows "h' = h @ [cmd]" "rm_answer rm h cmd = Some (out, True)"
  using assms by (auto simp: runRemote_def split: option.splits prod.splits if_splits)

lemma runRemoteIgnoreErr_extends: "runRemoteIgnoreErr rm cmd h = (h', out) \<Longrightarrow> \<exists>later. h' = h @ later"
  by (auto simp: runRemoteIgnoreErr_def split: option.splits prod.splits)

lemma start_server_sent:
  assumes "start_server rm df s h = (sent, Inr res)"
  shows "\<exists>later. sent = h @ [''chmod +x '' @ remotePath, start_script s (df_remotePort df)] @ later"
proof -
  obtain h1 x where c: "runRemote rm (''chmod +x '' @ remotePath) h = (h1, Inr x)"
    and "and_then (runRemote rm (start_script s (df_remotePort df)) h1) (\<lambda>pid sent.
       case runRemoteIgnoreErr rm ''cat /tmp/webdesktopd.log'' sent of
         (sent, _) \<Rightarrow>
           (case runRemoteIgnoreErr rm (health_script (df_remotePort df)) sent of
              (sent, health) \<Rightarrow> (sent, Inr (trim_space pid, trim_space health)))) = (sent, Inr res)"
    using assms unfolding start_server_def by (rule and_then_ok)
  from this(2) obtain h2 pid where d: "runRemote rm (start_script s (df_remotePort df)) h1 = (h2, Inr pid)"
    and k: "(case runRemoteIgnoreErr rm ''cat /tmp/webdesktopd.log'' h2 of
         (sent, _) \<Rightarrow>
           (case runRemoteIgnoreErr rm (health_script (df_remotePort df)) sent of
              (sent, health) \<Rightarrow> (sent, Inr (trim_space pid, trim_space health))))
                = (sent, Inr res :: fatal + string \<times> string)"
    unfolding and_then_iff by blast
  obtain h3 l where l: "runRemoteIgnoreErr rm ''cat /tmp/webdesktopd.log'' h2 = (h3, l)" by fastforce
  obtain h4 m where m: "runRemoteIgnoreErr rm (health_script (df_remotePort df)) h3 = (h4, m)" by fastforce
  have "sent = h4" using k by (simp only: l m prod.case prod.inject)
  then show ?thesis
    using runRemoteIgnoreErr_extends[OF l] runRemoteIgnoreErr_extends[OF m] runRemote_ok(1)[OF c]
      runRemote_ok(1)[OF d] by auto
qed

lemma deploy_main_sent:
  assumes "deploy_main rm le df = (sent, Inr res)"
  shows "\<exists>h0 h s. obtain_secret rm le h0 = (h, Inr s) \<and> start_server rm df s h = (sent, Inr res)"
  using assms unfolding deploy_main_def
  by (auto elim!: and_then_ok split: if_splits option.splits prod.splits, blast)

lemma obtain_secret_cases:
  assumes "obtain_secret rm le h0 = (h, Inr s)" and "\<forall>b. le_random le = Some b \<longrightarrow> length b = 32"
    and r: "runRemoteIgnoreErr rm (read_script secretPath) h0 = (h1, out)"
  shows "s \<noteq> [] \<and> (h = h1 \<and> s = parseJWTSecretEnv (trim_space out)
     \<or> parseJWTSecretEnv (trim_space out) = [] \<and> h = h1 @ [write_script secretPath s]
       \<and> generateJWTSecret (le_random le) = Some s \<and> length s = 64
       \<and> (\<exists>o2. rm_answer rm h1 (write_script secretPath s) = Some (o2, True)))"
proof (cases "parseJWTSecretEnv (trim_space out) = []")
  case False
  then show ?thesis using assms(1) by (simp add: obtain_secret_def readRemoteJWTSecret_def r)
next
  case True
  then obtain k where k: "generateJWTSecret (le_random le) = Some k"
    and w: "(case writeRemoteJWTSecret rm secretPath k h1 of
               (sent, err) \<Rightarrow> (sent, if err then Inl PersistFailed else Inr k)) = (h, Inr s)"
    using assms(1) by (auto simp: obtain_secret_def readRemoteJWTSecret_def r split: option.splits)
  have n: "length k = 64" using k assms(2) by (auto simp: generateJWTSecret_def length_hex_encode)
  have "k = s \<and> h = h1 @ [write_script secretPath k]
      \<and> (\<exists>o2. rm_answer rm h1 (write_script secretPath k) = Some (o2, True))"
    using w by (auto simp: writeRemoteJWTSecret_def runRemoteOutput_def split: if_splits option.splits prod.splits)
  then show ?thesis using k n True by auto
qed

section \<open>Properties\<close>

text \<open>C24. What the shell reads. For every secret, whatever characters it has, and every home directory
  the three scripts that carry it or the path of its file are read as exactly the intended words
  and operators: no part of the secret is interpreted. The path is quoted as well, so its tilde
  is not the home directory but a directory of that name.\<close>
theorem scripts_read:
  assumes "list_all sh_plain port" and "start_script s port = cmd @ '' > /tmp/webdesktopd.log 2>&1 & echo $!''"
  shows "sh_tokens home cmd = Some (map Word [''nohup'', ''env'', ''JWT_SECRET='' @ s,
           ''/tmp/webdesktopd'', ''-addr'', '':'' @ port, ''-ssh-addr'', ''127.0.0.1:22''])
    \<and> sh_tokens home (write_script secretPath s) = Some
      ([Word ''umask'', Word ''077'', Op CHR '';'',
        Word ''mkdir'', Word ''-p'', Word ''~/.config/webdesktopd'', Op CHR '';'',
        Word ''printf'', Word (''JWT_SECRET=%s'' @ [CHR 0x5C, CHR ''n'']), Word s, Op CHR ''>'', Word secretPath, Op CHR '';'',
        Word ''chmod'', Word ''600'', Word secretPath])
    \<and> sh_tokens home (read_script secretPath) = Some
      [Word ''cat'', Word secretPath, Word ''2'', Op CHR ''>'', Word ''/dev/null'',
       Op CHR ''|'', Op CHR ''|'', Word ''true'']
    \<and> sh_tokens home (''cat '' @ secretPath) = Some [Word ''cat'', Word (home @ ''/.config/webdesktopd/env'')]"
proof -
  have cmd: "cmd = ''nohup env JWT_SECRET='' @ shellQuote s @ '' /tmp/webdesktopd -addr :'' @ port
      @ '' -ssh-addr 127.0.0.1:22''"
    using assms(2) by (simp add: start_script_def remotePath_def)
  have "sh_tokens home cmd = Some (map Word [''nohup'', ''env'', ''JWT_SECRET='' @ s,
           ''/tmp/webdesktopd'', ''-addr'', '':'' @ port, ''-ssh-addr'', ''127.0.0.1:22''])"
    unfolding cmd by (simp add: sh_char_simps sh_word_shellQuote sh_word_plain[OF assms(1)])
  moreover have "sh_tokens home (write_script secretPath s) = Some
      ([Word ''umask'', Word ''077'', Op CHR '';'',
        Word ''mkdir'', Word ''-p'', Word ''~/.config/webdesktopd'', Op CHR '';'',
        Word ''printf'', Word (''JWT_SECRET=%s'' @ [CHR 0x5C, CHR ''n'']), Word s, Op CHR ''>'', Word secretPath, Op CHR '';'',
        Word ''chmod'', Word ''600'', Word secretPath])"
    by (simp add: write_script_def secret_dir sh_char_simps sh_tokens_quoted sh_tokens_quoted[of "[]", simplified])
  moreover have "sh_tokens home (read_script secretPath) = Some
      [Word ''cat'', Word secretPath, Word ''2'', Op CHR ''>'', Word ''/dev/null'',
       Op CHR ''|'', Op CHR ''|'', Word ''true'']"
    by (simp add: read_script_def sh_char_simps sh_tokens_quoted)
  moreover have "sh_tokens home (''cat '' @ secretPath) = Some [Word ''cat'', Word (home @ ''/.config/webdesktopd/env'')]"
    by (simp add: secretPath_def sh_char_simps)
  ultimately show ?thesis by blast
qed

text \<open>C31. The secret of a deployment. A deployment that succeeds has sent its commands in order: it has
  asked for the stored secret before anything was built, and it has started the server with a
  secret that is not empty and is either the stored one, with nothing written, or a fresh one of
  64 hexadecimal digits whose write script the remote machine has run without an error before
  the server was started.\<close>
theorem deploy_secret:
  assumes "deploy_main rm le df = (sent, Inr res)" and "\<forall>b. le_random le = Some b \<longrightarrow> length b = 32"
  shows "\<exists>h s later. sent = h @ [''chmod +x '' @ remotePath, start_script s (df_remotePort df)] @ later
    \<and> s \<noteq> []
    \<and> (\<exists>h0. let h1 = fst (runRemoteIgnoreErr rm (read_script secretPath) h0);
               stored = parseJWTSecretEnv (trim_space (snd (runRemoteIgnoreErr rm (read_script secretPath) h0)))
           in (h = h1 \<and> s = stored)
              \<or> (stored = [] \<and> h = h1 @ [write_script secretPath s] \<and> generateJWTSecret (le_random le) = Some s
                  \<and> length s = 64 \<and> (\<exists>out. rm_answer rm h1 (write_script secretPath s) = Some (out, True))))"
proof -
  obtain h0 h s where o: "obtain_secret rm le h0 = (h, Inr s)" and r: "start_server rm df s h = (sent, Inr res)"
    using deploy_main_sent[OF assms(1)] by blast
  obtain h1 out where i: "runRemoteIgnoreErr rm (read_script secretPath) h0 = (h1, out)" by fastforce
  obtain later where "sent = h @ [''chmod +x '' @ remotePath, start_script s (df_remotePort df)] @ later"
    using start_server_sent[OF r] by blast
  moreover note c = obtain_secret_cases[OF o assms(2) i]
  moreover have "\<exists>h0. let h1 = fst (runRemoteIgnoreErr rm (read_script secretPath) h0);
               stored = parseJWTSecretEnv (trim_space (snd (runRemoteIgnoreErr rm (read_script secretPath) h0)))
           in (h = h1 \<and> s = stored)
              \<or> (stored = [] \<and> h = h1 @ [write_script secretPath s] \<and> generateJWTSecret (le_random le) = Some s
                  \<and> length s = 64 \<and> (\<exists>out. rm_answer rm h1 (write_script secretPath s) = Some (out, True)))"
    using c by (intro exI[of _ h0]) (simp only: i fst_conv snd_conv Let_def)
  ultimately show ?thesis by blast
qed

text \<open>Browser tokens survive a redeployment. Once the remote machine prints the line that the write
  script has put into the file for a secret of random bytes, a deployment uses this secret again
  and writes nothing.\<close>
theorem secret_survives:
  assumes "generateJWTSecret (Some bs) = Some s" "bs \<noteq> []"
    and "rm_answer rm h (read_script secretPath) = Some (''JWT_SECRET='' @ s @ [CHR 0x0A], ok)"
  shows "obtain_secret rm le h = (h @ [read_script secretPath], Inr s)"
proof -
  have s: "s = hex_encode bs" "s \<noteq> []" using assms(1,2) by (auto simp: generateJWTSecret_def hex_encode_Nil_iff)
  then show ?thesis
    using read_secret_line[OF assms(2)] assms(3)
    by (simp add: obtain_secret_def readRemoteJWTSecret_def runRemoteIgnoreErr_def del: append.simps)
qed

section \<open>Witnesses\<close>

text \<open>A machine that knows no secret and runs every command, and one that has the secret \<open>ab\<close>.\<close>

definition demo_scp :: scp_env where
  "demo_scp = \<lparr>sp_file = Some [1, 2], sp_stat = Some 2, sp_session = True, sp_pipe = True, sp_start = True,
     sp_header = True, sp_copy = True, sp_null = True, sp_wait = True\<rparr>"

definition demo_remote :: "string \<Rightarrow> remote" where
  "demo_remote content = \<lparr>rm_dial = True,
     rm_answer = (\<lambda>h cmd. Some (if cmd = ''uname -m'' then ''x86_64''
                               else if cmd = read_script secretPath then content else [], True)),
     rm_scp = (\<lambda>_. demo_scp)\<rparr>"

definition demo_local :: local_env where
  "demo_local = \<lparr>le_random = Some (replicate 32 171), le_build = (\<lambda>_ _. True), le_lower = (\<lambda>n. n)\<rparr>"

lemma scripts_differ [simp]:
  "read_script p \<noteq> ''uname -m''" "write_script p s \<noteq> ''uname -m''" "write_script p s \<noteq> read_script q"
  by (simp_all add: read_script_def write_script_def)

theorem scripts_read_witness:
  "sh_tokens ''/h'' (write_script secretPath [CHR 0x27, CHR '';'', CHR ''x'']) \<noteq> None
   \<and> sh_tokens ''/h'' (''nohup env JWT_SECRET='' @ shellQuote [CHR 0x27, CHR '';'', CHR ''x'']
        @ '' /tmp/webdesktopd -addr :18080 -ssh-addr 127.0.0.1:22'') \<noteq> None"
proof -
  have "list_all sh_plain ''18080''" by (simp add: sh_plain_def sh_char_simps)
  moreover have "start_script [CHR 0x27, CHR '';'', CHR ''x''] ''18080''
      = (''nohup env JWT_SECRET='' @ shellQuote [CHR 0x27, CHR '';'', CHR ''x'']
        @ '' /tmp/webdesktopd -addr :18080 -ssh-addr 127.0.0.1:22'') @ '' > /tmp/webdesktopd.log 2>&1 & echo $!''"
    by (simp add: start_script_def remotePath_def)
  ultimately show ?thesis
    using scripts_read[of "''18080''" "[CHR 0x27, CHR '';'', CHR ''x'']" _ "''/h''"] by simp
qed

theorem deploy_secret_witness:
  "\<exists>sent res. deploy_main (demo_remote []) demo_local \<lparr>df_pass = ''p'', df_remotePort = ''18080''\<rparr> = (sent, Inr res)
     \<and> (\<exists>h s later. sent = h @ [''chmod +x '' @ remotePath, start_script s ''18080''] @ later \<and> s \<noteq> [])"
proof -
  let ?rm = "demo_remote []" and ?df = "\<lparr>df_pass = ''p'', df_remotePort = ''18080''\<rparr>"
  have a: "rm_answer ?rm h cmd = Some (if cmd = ''uname -m'' then ''x86_64'' else [], True)" for h cmd
    by (simp add: demo_remote_def)
  have t: "trim_space ''x86_64'' = ''x86_64''" "trim_space [] = []" by code_simp+
  have p: "parseJWTSecretEnv [] = []" by code_simp
  have "\<exists>sent res. deploy_main ?rm demo_local ?df = (sent, Inr res)"
    by (simp add: deploy_main_def and_then_def runRemote_def runRemoteIgnoreErr_def runRemoteOutput_def a t p
        archMap_def obtain_secret_def readRemoteJWTSecret_def writeRemoteJWTSecret_def generateJWTSecret_def
        demo_local_def start_server_def scpUpload_def demo_scp_def Let_def)
       (simp add: demo_remote_def demo_scp_def)
  then obtain sent res where d: "deploy_main ?rm demo_local ?df = (sent, Inr res)" by blast
  have "\<forall>b. le_random demo_local = Some b \<longrightarrow> length b = 32" by (simp add: demo_local_def)
  from deploy_secret[OF d this] d show ?thesis by (auto simp del: append.simps)
qed

theorem secret_survives_witness:
  "obtain_secret (demo_remote (''JWT_SECRET=ab'' @ [CHR 0x0A])) demo_local [] = ([read_script secretPath], Inr ''ab'')"
proof -
  have "generateJWTSecret (Some [171]) = Some ''ab''"
    by (simp add: generateJWTSecret_def hex_encode_def hex_lower_def)
  from secret_survives[OF this, of "demo_remote (''JWT_SECRET=ab'' @ [CHR 0x0A])" "[]" True demo_local]
  show ?thesis by (simp add: demo_remote_def)
qed

end
