(* ===== verification/Spec2Isabelle.thy ===== *)
theory Spec2Isabelle
  imports Frame_Codec Ring_Buffer Ws_Hub Pty_Session Port_Proxy File_Ops Stats_Collector Control_Plane User_Views Open_Race Teardown Copy_Tree Http_Forward Server_Http Tunnel Port_Scan Deploy
begin

text \<open>
  webdesktopd: a desktop in the browser, served by a Go program.

  \<^bold>\<open>The program and its parts.\<close> A browser logs in over \<open>POST /auth\<close>; the server checks the
  password or key by an SSH connection to the local \<open>sshd\<close> and answers with a JWT
  (\<open>internal/auth\<close>, \<open>internal/server/server.go\<close>). With the token the browser opens one
  WebSocket. Its messages are frames of a type, a channel and a payload
  (\<open>internal/hub/frame.go\<close>), which a hub routes to the handler of their channel and writes
  through a bounded queue (\<open>internal/hub/hub.go\<close>). Channel 0 is the control handler of
  \<open>server.go\<close>: it opens and closes terminals (\<open>internal/pty/session.go\<close>, whose output is kept
  in the ring buffer of \<open>internal/ringbuf\<close>) and TCP proxies (\<open>internal/server/proxy.go\<close>),
  and carries out file operations (\<open>internal/server/fileops.go\<close>) and port scans
  (\<open>internal/server/portscan.go\<close>). Terminals and proxies belong to the user, not to the
  connection: they live on when it ends and are attached again by the next one. A collector
  (\<open>internal/stats\<close>) sends system figures to every connection. \<open>/_proxy/{port}/\<close> forwards HTTP
  requests to local servers and rewrites what comes back, and relays WebSockets to them.
  \<open>cmd/deploy\<close> installs the server on another machine and \<open>cmd/tunnel\<close> reaches it through SSH.

  \<^bold>\<open>Theories.\<close> Definitions keep the names of the Go functions; a struct is a record whose fields
  have the struct's names behind a short prefix.

  \<^item> \<open>Wd_Prelude\<close>: machine words, byte strings, slices, big-endian packing.
    \<open>Go_Text\<close>, \<open>Go_Case\<close>, \<open>Go_Json\<close>: what the sources call of \<open>strings\<close>, \<open>strconv\<close>, \<open>bufio\<close>,
    \<open>bytes\<close> and \<open>encoding/json\<close>, with the round trips of splitting, number and line parsing.
    \<open>File_System\<close>: \<open>path/filepath\<close> and the calls of \<open>os\<close> on a tree of files.
  \<^item> \<open>Frame_Codec\<close>: \<open>encode\<close>, \<open>decode\<close> (from a reader that may return short reads) and
    \<open>decodeFromBytes\<close>. The lemmas show that the encoding is unique and both decoders invert it.
  \<^item> \<open>Ring_Buffer\<close>: the buffer with its cursors; a refinement to the list of the last bytes
    written, and the locale \<open>byte_log\<close> by which terminals use it.
  \<^item> \<open>Ws_Hub\<close>: the operations of a hub, the locale \<open>frame_sender\<close> by which terminals and the
    collector use \<open>Send\<close>, and the step relation of its goroutines (senders, writer, pings, close)
    with the invariant about the wire.
  \<^item> \<open>Pty_Session\<close>, \<open>Port_Proxy\<close>: a terminal and a proxy, each with its read loop taken apart into
    the steps between which other goroutines run, and what an attached client receives.
  \<^item> \<open>File_Ops\<close>, \<open>Copy_Tree\<close>: uploads, downloads, the other file operations, the desktop state, and
    the recursive copy.
  \<^item> \<open>Proc_Stats\<close>, \<open>Stats_Collector\<close>: parsing \<open>/proc\<close>, rates, and the reference-counted broadcast
    loop. \<open>Port_Scan\<close>: the listening ports and their processes.
  \<^item> \<open>Control_Plane\<close>: one world of all hubs, terminals, proxies and user registries; the control
    handler with each of its branches, connecting and disconnecting, and the events of a
    world. \<open>User_Isolation\<close>: the invariant that everything reachable from a connection belongs to
    its user, operation by operation. \<open>User_Views\<close>: no event changes what another user sees.
    \<open>Lost_Reference\<close>: the locale of conditions on handler tables that no event can undo.
    \<open>Session_Control\<close>: the contracts of opening and closing terminals, the types of references, and
    the control handler that is lost for good. \<open>Open_Race\<close>: \<open>handleOpenPTY\<close> lock by lock, its
    equivalence with the handler of \<open>Control_Plane\<close>, and two interleaved ones. \<open>Teardown\<close>: the end of
    a connection, its four steps interleaved with everything else.
  \<^item> \<open>Auth\<close>, \<open>Http_Api\<close>, \<open>Http_Rewrite\<close>: tokens, login, the guards of the endpoints, and the
    rewriting of forwarded requests and their responses. \<open>Http_Forward\<close>: the requests that the
    proxy sends on. \<open>Server_Http\<close>: \<open>main\<close>, the routes as
    \<open>http.ServeMux\<close> chooses among them (the longest pattern that matches the decoded segments),
    and one request to the whole server.
  \<^item> \<open>Relay\<close>: the two copying goroutines between two connections, as a step relation: what is
    delivered, when the connections are closed, and what a half-closed one loses; relayed
    WebSockets and \<open>Tunnel\<close>, the SSH tunnel of \<open>cmd/tunnel\<close>, use it.
  \<^item> \<open>Deploy\<close>: the deployment tool and the scripts it sends, with a reader for the quoting rules of
    the POSIX shell as the reference they are checked against.

  \<^bold>\<open>Arguments of the model.\<close> What the sources call but do not contain is an argument: the JWT and
  SSH libraries (\<open>jwt_lib\<close>, \<open>ssh_env\<close>; the documented behaviour of the former is the hypothesis
  \<open>jwt_ok\<close>), \<open>net/url\<close> and the cookie syntax of \<open>net/http\<close> (\<open>url_lib\<close>), \<open>unicode.ToLower\<close>,
  \<open>strconv.ParseFloat\<close>, the texts of errors, what the operating system answers during an event
  (\<open>ctl_env\<close>, \<open>pty_os\<close>, \<open>proc_env\<close>, \<open>scan_env\<close>), the faults of a write (\<open>save_faults\<close>), the order
  in which Go visits the keys of a map, and the machine that the deployment tool talks to.

  \<^bold>\<open>Bounds.\<close> Integers are words of their width where they can wrap (lengths and channels of frames,
  counters of the collector, offsets of uploads); a \<open>float64\<close> is an exact rational. Two functions
  take fuel: \<open>copyDir\<close>, one unit for a level of the tree, and the control handler that calls it;
  the height of the source tree is enough when the paths are apart, and no fuel is enough when an
  empty directory is copied into itself (theory \<open>Copy_Tree\<close>). A hub has 256 places in its queue,
  a terminal keeps one megabyte, a frame carries at most 32 megabytes, as in the sources.

  \<^bold>\<open>Concurrency.\<close> Inside a hub, a terminal, a proxy and the collector the goroutines interleave at
  the granularity of their locks and channel operations. In the world of \<open>Control_Plane\<close> one event
  (a message, a connection, one step of a teardown) runs at a time, except that a download goroutine
  is only recorded as started and its run is \<open>streamFileDownload\<close> in \<open>File_Ops\<close>. The handler of
  OpenPTY is also given step by step, by schedules of the hubs whose handlers run (\<open>Open_Race\<close>):
  what \<open>Session_Control\<close> shows of one OpenPTY holds when no other handler of the user runs between
  its lookup and its registration, and \<open>Open_Race\<close> shows what happens when one does.

  \<^bold>\<open>Not modelled.\<close> The transport of the HTTP proxy (\<open>httputil.ReverseProxy\<close>), the file server
  behind the paths it is given, and the listener, which are calls of \<open>net/http\<close>; symbolic links,
  owners and access rights of the file system (file operations run with the rights of the server);
  logging and pauses.
\<close>

end
